(* ===== verification/Chfs_Prelude.thy ===== *)
theory Chfs_Prelude
  imports Main "HOL-Library.Word"
begin

unbundle bit_operations_syntax

text \<open>
  Shared ground of the development.

  \<^item> Machine integers. Sizes and ids of the code (\<open>usize\<close> = \<open>unsigned int\<close>, \<open>u32\<close>, \<open>u64\<close>,
    \<open>block_id_t\<close>, \<open>inode_id_t\<close> of src/src/include/common/config.h) are natural numbers; every
    place where the C++ arithmetic can wrap applies \<open>wrap32\<close>, \<open>wrap64\<close>, \<open>sub32\<close> or \<open>sub64\<close>.
    Bytes (\<open>u8\<close>) are \<open>8 word\<close>, because the bitmap works on their bits.
  \<^item> Outcomes. A C++ call returns, or the process dies in one of the ways of \<open>crash\<close>.
    A computation that cannot touch the device is an \<open>'a run\<close>; one that runs on a state
    is an \<open>('s, 'a) exec\<close>. The \<open>ChfsResult\<close> of the code is an ordinary value (theory Chfs_Result).
  \<^item> Memory. A buffer (\<open>u8*\<close>, \<open>std::vector<u8>\<close>) is a list of bytes; \<open>load\<close> and \<open>store\<close> are
    \<open>memcpy\<close> out of and into it. Integers in memory are little endian.
\<close>

named_theorems chfs_wf "facts that carry well-formedness through the operations"
named_theorems chfs_exec "evaluation of chained computations"
named_theorems chfs_mem "reading back what was stored"

type_synonym byte = "8 word"

subsection \<open>Wrapping arithmetic\<close>

definition wrap32 :: "nat \<Rightarrow> nat" where
  "wrap32 n = n mod 2 ^ 32"

definition wrap64 :: "nat \<Rightarrow> nat" where
  "wrap64 n = n mod 2 ^ 64"

definition sub32 :: "nat \<Rightarrow> nat \<Rightarrow> nat" where
  "sub32 a b = wrap32 (a + 2 ^ 32 - wrap32 b)"

definition sub64 :: "nat \<Rightarrow> nat \<Rightarrow> nat" where
  "sub64 a b = wrap64 (a + 2 ^ 64 - wrap64 b)"

lemma wrap32_id [simp]: "n < 2 ^ 32 \<Longrightarrow> wrap32 n = n"
  by (simp add: wrap32_def)

lemma wrap64_id [simp]: "n < 2 ^ 64 \<Longrightarrow> wrap64 n = n"
  by (simp add: wrap64_def)

lemma wrap32_less [simp]: "wrap32 n < 2 ^ 32"
  by (simp add: wrap32_def)

lemma wrap64_less [simp]: "wrap64 n < 2 ^ 64"
  by (simp add: wrap64_def)

lemma sub32_id: "b \<le> a \<Longrightarrow> a < 2 ^ 32 \<Longrightarrow> sub32 a b = a - b"
proof -
  assume "b \<le> a" and "a < 2 ^ 32"
  then have "sub32 a b = (a - b + 2 ^ 32) mod 2 ^ 32"
    by (simp add: sub32_def wrap32_def)
  also have "\<dots> = a - b"
    using \<open>a < 2 ^ 32\<close> by simp
  finally show ?thesis .
qed

lemma sub64_id: "b \<le> a \<Longrightarrow> a < 2 ^ 64 \<Longrightarrow> sub64 a b = a - b"
proof -
  assume "b \<le> a" and "a < 2 ^ 64"
  then have "sub64 a b = (a - b + 2 ^ 64) mod 2 ^ 64"
    by (simp add: sub64_def wrap64_def)
  also have "\<dots> = a - b"
    using \<open>a < 2 ^ 64\<close> by simp
  finally show ?thesis .
qed

lemma below_63: "n \<le> m \<Longrightarrow> m < 2 ^ 63 \<Longrightarrow> (n::nat) < 2 ^ 64"
  by simp

definition fits_u64 :: "nat \<Rightarrow> bool" where
  "fits_u64 n \<longleftrightarrow> n < 2 ^ 64"

subsection \<open>Outcomes\<close>

datatype crash =
    AssertFailed      \<comment> \<open>CHFS_ASSERT\<close>
  | VerifyAborted     \<comment> \<open>CHFS_VERIFY\<close>
  | UncaughtThrow     \<comment> \<open>an exception no caller catches (unwrap of an error)\<close>
  | OutOfBounds       \<comment> \<open>an access outside the memory it is for\<close>
  | DivByZero
  | NoReturn          \<comment> \<open>a loop that never ends\<close>
  | Unimplemented     \<comment> \<open>UNIMPLEMENTED()\<close>

type_synonym 'a run = "crash + 'a"
type_synonym ('s, 'a) exec = "'s \<Rightarrow> crash + ('a \<times> 's)"

definition andthen :: "'a run \<Rightarrow> ('a \<Rightarrow> 'b run) \<Rightarrow> 'b run" where
  "andthen m f = (case m of Inl c \<Rightarrow> Inl c | Inr a \<Rightarrow> f a)"

definition chain :: "('s, 'a) exec \<Rightarrow> ('a \<Rightarrow> ('s, 'b) exec) \<Rightarrow> ('s, 'b) exec" where
  "chain m f s = (case m s of Inl c \<Rightarrow> Inl c | Inr (a, s') \<Rightarrow> f a s')"

definition give :: "'a \<Rightarrow> ('s, 'a) exec" where
  "give a s = Inr (a, s)"

definition crash_with :: "crash \<Rightarrow> ('s, 'a) exec" where
  "crash_with c s = Inl c"

definition lift_run :: "'a run \<Rightarrow> ('s, 'a) exec" where
  "lift_run m s = (case m of Inl c \<Rightarrow> Inl c | Inr a \<Rightarrow> Inr (a, s))"

definition reads :: "('s \<Rightarrow> 'a) \<Rightarrow> ('s, 'a) exec" where
  "reads f s = Inr (f s, s)"

lemma andthen_simps [simp]:
  "andthen (Inr a) f = f a"
  "andthen (Inl c) f = Inl c"
  by (simp_all add: andthen_def)

lemma chain_Inr [chfs_exec]: "m s = Inr (a, s') \<Longrightarrow> chain m f s = f a s'"
  by (simp add: chain_def)

lemma chain_Inl [chfs_exec]: "m s = Inl c \<Longrightarrow> chain m f s = Inl c"
  by (simp add: chain_def)

lemma chain_simps [simp]:
  "chain (give a) f = f a"
  "chain (crash_with c) f = crash_with c"
  "chain (lift_run (Inr a)) f = f a"
  "chain (lift_run (Inl c)) f = crash_with c"
  "chain (reads g) f s = f (g s) s"
  by (simp_all add: fun_eq_iff chain_def give_def crash_with_def lift_run_def reads_def)

lemma exec_simps [simp]:
  "give a s = Inr (a, s)"
  "crash_with c s = Inl c"
  "lift_run (Inr a) s = Inr (a, s)"
  "lift_run (Inl c) s = Inl c"
  "reads g s = Inr (g s, s)"
  by (simp_all add: give_def crash_with_def lift_run_def reads_def)

lemma chain_run: "m s = m' s \<Longrightarrow> chain m f s = chain m' f s"
  by (simp add: chain_def)

lemma chain_assoc: "chain (chain m f) g = chain m (\<lambda>a. chain (f a) g)"
  by (rule ext) (simp add: chain_def split: sum.split prod.split)

lemma chain_eq_InrE:
  assumes "chain m f s = Inr (b, s'')"
  obtains a s' where "m s = Inr (a, s')" and "f a s' = Inr (b, s'')"
  using assms by (auto simp: chain_def split: sum.splits)

subsection \<open>Memory\<close>

definition load :: "byte list \<Rightarrow> nat \<Rightarrow> nat \<Rightarrow> byte list" where
  "load m off n = take n (drop off m)"

definition store :: "byte list \<Rightarrow> nat \<Rightarrow> byte list \<Rightarrow> byte list" where
  "store m off d = take off m @ d @ drop (off + length d) m"

definition load_checked :: "byte list \<Rightarrow> nat \<Rightarrow> nat \<Rightarrow> byte list run" where
  "load_checked m off n = (if off + n \<le> length m then Inr (load m off n) else Inl OutOfBounds)"

definition store_checked :: "byte list \<Rightarrow> nat \<Rightarrow> byte list \<Rightarrow> byte list run" where
  "store_checked m off d =
     (if off + length d \<le> length m then Inr (store m off d) else Inl OutOfBounds)"

lemma load_checked_ok [simp]: "off + n \<le> length m \<Longrightarrow> load_checked m off n = Inr (load m off n)"
  by (simp add: load_checked_def)

lemma store_checked_ok [simp]:
  "off + length d \<le> length m \<Longrightarrow> store_checked m off d = Inr (store m off d)"
  by (simp add: store_checked_def)

lemma length_load [simp]: "off + n \<le> length m \<Longrightarrow> length (load m off n) = n"
  by (simp add: load_def)

lemma length_store [simp]: "off + length d \<le> length m \<Longrightarrow> length (store m off d) = length m"
  by (simp add: store_def)

lemma nth_load [simp]: "off + n \<le> length m \<Longrightarrow> i < n \<Longrightarrow> load m off n ! i = m ! (off + i)"
  by (simp add: load_def)

lemma nth_store:
  "off + length d \<le> length m \<Longrightarrow> i < length m \<Longrightarrow>
   store m off d ! i = (if off \<le> i \<and> i < off + length d then d ! (i - off) else m ! i)"
  by (auto simp: store_def nth_append min_def)

lemma load_store_same [chfs_mem]:
  "off + length d \<le> length m \<Longrightarrow> load (store m off d) off (length d) = d"
  by (simp add: load_def store_def)

lemma load_store_other [chfs_mem]:
  assumes "off + length d \<le> length m" and "off' + n \<le> length m"
    and "off' + n \<le> off \<or> off + length d \<le> off'"
  shows "load (store m off d) off' n = load m off' n"
  by (rule nth_equalityI) (use assms in \<open>auto simp: nth_store\<close>)

lemma store_load_id: "off + n \<le> length m \<Longrightarrow> store m off (load m off n) = m"
  by (rule nth_equalityI) (auto simp: nth_store)

lemma store_store_same:
  "off + length d \<le> length m \<Longrightarrow> length d' = length d \<Longrightarrow> store (store m off d) off d' = store m off d'"
  by (rule nth_equalityI) (auto simp: nth_store)

lemma load_full [simp]: "load m 0 (length m) = m"
  by (simp add: load_def)

lemma store_full: "length d = length m \<Longrightarrow> store m 0 d = d"
  by (simp add: store_def)

subsection \<open>Little-endian integers\<close>

primrec le_bytes :: "nat \<Rightarrow> nat \<Rightarrow> byte list" where
  "le_bytes 0 x = []"
| "le_bytes (Suc n) x = word_of_nat (x mod 256) # le_bytes n (x div 256)"

primrec le_nat :: "byte list \<Rightarrow> nat" where
  "le_nat [] = 0"
| "le_nat (b # bs) = unat b + 256 * le_nat bs"

lemma length_le_bytes [simp]: "length (le_bytes n x) = n"
  by (induction n arbitrary: x) auto

lemma unat_byte_less: "unat (b :: byte) < 256"
  using unsigned_less [of b] by simp

lemma unat_of_byte [simp]: "x < 256 \<Longrightarrow> unat (word_of_nat x :: byte) = x"
  by (simp add: unat_of_nat)

lemma le_nat_less: "le_nat bs < 256 ^ length bs"
proof (induction bs)
  case (Cons b bs)
  have "unat b < 256" by (rule unat_byte_less)
  moreover from Cons have "le_nat bs + 1 \<le> 256 ^ length bs" by simp
  then have "256 * (le_nat bs + 1) \<le> 256 * 256 ^ length bs" by (rule mult_le_mono2)
  ultimately show ?case by simp
qed simp

lemma le_nat_le_bytes: "x < 256 ^ n \<Longrightarrow> le_nat (le_bytes n x) = x"
proof (induction n arbitrary: x)
  case (Suc n)
  from Suc.prems have "x div 256 < 256 ^ n"
    by (simp add: less_mult_imp_div_less mult.commute)
  then have "le_nat (le_bytes n (x div 256)) = x div 256" by (rule Suc.IH)
  then show ?case by simp
qed simp

lemma le_bytes_le_nat: "le_bytes (length bs) (le_nat bs) = bs"
proof (induction bs)
  case (Cons b bs)
  have "unat b < 256" by (rule unat_byte_less)
  then show ?case using Cons by simp
qed simp

lemma le_nat_replicate0 [simp]: "le_nat (replicate n 0) = 0"
  by (induction n) simp_all

lemma le_nat_inject: "length bs = length cs \<Longrightarrow> le_nat bs = le_nat cs \<Longrightarrow> bs = cs"
  by (metis le_bytes_le_nat)

subsection \<open>Integers inside a buffer\<close>

definition get_le :: "byte list \<Rightarrow> nat \<Rightarrow> nat \<Rightarrow> nat" where
  "get_le m off n = le_nat (load m off n)"

definition put_le :: "byte list \<Rightarrow> nat \<Rightarrow> nat \<Rightarrow> nat \<Rightarrow> byte list" where
  "put_le m off n x = store m off (le_bytes n x)"

lemma length_put_le [simp]: "off + n \<le> length m \<Longrightarrow> length (put_le m off n x) = length m"
  by (simp add: put_le_def)

lemma get_put_same [chfs_mem]:
  "off + n \<le> length m \<Longrightarrow> x < 256 ^ n \<Longrightarrow> get_le (put_le m off n x) off n = x"
  using load_store_same [of off "le_bytes n x" m]
  by (simp add: get_le_def put_le_def le_nat_le_bytes)

lemma get_put_other [chfs_mem]:
  "off + n \<le> length m \<Longrightarrow> off' + k \<le> length m \<Longrightarrow> off' + k \<le> off \<or> off + n \<le> off' \<Longrightarrow>
   get_le (put_le m off n x) off' k = get_le m off' k"
  by (simp add: get_le_def put_le_def load_store_other)

lemma get_le_less: "off + n \<le> length m \<Longrightarrow> get_le m off n < 256 ^ n"
  using le_nat_less [of "load m off n"] by (simp add: get_le_def)

lemma get_le8_less: "off + 8 \<le> length m \<Longrightarrow> get_le m off 8 < 2 ^ 64"
  using get_le_less [of off 8 m] by simp

lemma put_get_id: "off + n \<le> length m \<Longrightarrow> put_le m off n (get_le m off n) = m"
  using le_bytes_le_nat [of "load m off n"] by (simp add: put_le_def get_le_def store_load_id)

lemma put_put_same: "off + n \<le> length m \<Longrightarrow> put_le (put_le m off n x) off n y = put_le m off n y"
  by (simp add: put_le_def store_store_same)

subsection \<open>Indexed stores\<close>

text \<open>
  What the device, the inode table, the two bitmaps and the pointers of an inode have in common:
  cells with an index below a limit, where a read gives what was last put.
\<close>

locale indexed_store =
  fixes inv :: "'s \<Rightarrow> bool"
    and limit :: "'s \<Rightarrow> nat"
    and valid :: "'s \<Rightarrow> 'v \<Rightarrow> bool"
    and get :: "'s \<Rightarrow> nat \<Rightarrow> 'v"
    and put :: "nat \<Rightarrow> 'v \<Rightarrow> 's \<Rightarrow> 's"
  assumes inv_put: "inv s \<Longrightarrow> i < limit s \<Longrightarrow> valid s v \<Longrightarrow> inv (put i v s)"
    and limit_put: "inv s \<Longrightarrow> i < limit s \<Longrightarrow> valid s v \<Longrightarrow> limit (put i v s) = limit s"
    and valid_put: "inv s \<Longrightarrow> i < limit s \<Longrightarrow> valid s v \<Longrightarrow> valid (put i v s) w = valid s w"
    and get_put: "inv s \<Longrightarrow> i < limit s \<Longrightarrow> j < limit s \<Longrightarrow> valid s v \<Longrightarrow>
                  get (put i v s) j = (if j = i then v else get s j)"
begin

definition put_all :: "(nat \<times> 'v) list \<Rightarrow> 's \<Rightarrow> 's" where
  "put_all ws s = fold (\<lambda>(i, v). put i v) ws s"

definition puts_fit :: "'s \<Rightarrow> (nat \<times> 'v) list \<Rightarrow> bool" where
  "puts_fit s ws \<longleftrightarrow> (\<forall>(i, v) \<in> set ws. i < limit s \<and> valid s v)"

lemma put_all_simps [simp]: "put_all [] s = s" "put_all ((i, v) # ws) s = put_all ws (put i v s)"
  by (simp_all add: put_all_def)

lemma puts_fit_simps [simp]:
  "puts_fit s []" "puts_fit s ((i, v) # ws) \<longleftrightarrow> i < limit s \<and> valid s v \<and> puts_fit s ws"
  by (simp_all add: puts_fit_def)

lemma puts_fit_put: "inv s \<Longrightarrow> i < limit s \<Longrightarrow> valid s v \<Longrightarrow> puts_fit (put i v s) ws = puts_fit s ws"
  by (simp add: puts_fit_def limit_put valid_put)

lemma put_all_ok:
  "inv s \<Longrightarrow> puts_fit s ws \<Longrightarrow> inv (put_all ws s) \<and> limit (put_all ws s) = limit s"
  by (induction ws arbitrary: s) (auto simp: puts_fit_put inv_put limit_put)

text \<open>The last put wins, the other cells are as they were.\<close>

lemma get_put_all:
  "inv s \<Longrightarrow> puts_fit s ws \<Longrightarrow> j < limit s \<Longrightarrow>
   get (put_all ws s) j = (case map_of (rev ws) j of None \<Rightarrow> get s j | Some v \<Rightarrow> v)"
  by (induction ws arbitrary: s)
    (auto simp: puts_fit_put inv_put limit_put get_put map_add_def split: option.split)

lemma put_commute:
  "inv s \<Longrightarrow> i < limit s \<Longrightarrow> j < limit s \<Longrightarrow> i \<noteq> j \<Longrightarrow> valid s v \<Longrightarrow> valid s w \<Longrightarrow> k < limit s \<Longrightarrow>
   get (put i v (put j w s)) k = get (put j w (put i v s)) k"
  by (simp add: inv_put limit_put valid_put get_put)

end

end
