(* ===== verification/Chfs_Result.thy ===== *)
theory Chfs_Result
  imports Chfs_Prelude
begin

text \<open>
  The error codes (src/src/include/common/error_code.h) and the \<open>Result\<close> class
  (src/src/include/common/result.h): a value or an error code, with \<open>unwrap\<close> and
  \<open>unwrap_error\<close> throwing when the other case is present. Nothing in the code catches that
  exception, so it is the crash \<open>UncaughtThrow\<close>.
\<close>

datatype error_type =
    DONE | INVALID_ARG | OUT_OF_RESOURCE | INVALID | NotExist | AlreadyExist | NotEmpty

fun error_code :: "error_type \<Rightarrow> nat" where
  "error_code DONE = 0"
| "error_code INVALID_ARG = 1"
| "error_code OUT_OF_RESOURCE = 2"
| "error_code INVALID = 3"
| "error_code NotExist = 4"
| "error_code AlreadyExist = 5"
| "error_code NotEmpty = 6"

lemma error_code_inject: "error_code a = error_code b \<Longrightarrow> a = b"
  by (cases a; cases b) simp_all

instantiation error_type :: linorder
begin

definition less_eq_error_type :: "error_type \<Rightarrow> error_type \<Rightarrow> bool" where
  "less_eq_error_type a b \<longleftrightarrow> error_code a \<le> error_code b"

definition less_error_type :: "error_type \<Rightarrow> error_type \<Rightarrow> bool" where
  "less_error_type a b \<longleftrightarrow> error_code a < error_code b"

instance
  by standard
    (auto simp: less_eq_error_type_def less_error_type_def intro: error_code_inject)

end

datatype 'a chfs_result = Ok 'a | Err error_type

fun is_ok :: "'a chfs_result \<Rightarrow> bool" where
  "is_ok (Ok v) = True"
| "is_ok (Err e) = False"

fun is_err :: "'a chfs_result \<Rightarrow> bool" where
  "is_err (Ok v) = False"
| "is_err (Err e) = True"

fun unwrap :: "'a chfs_result \<Rightarrow> 'a run" where
  "unwrap (Ok v) = Inr v"
| "unwrap (Err e) = Inl UncaughtThrow"

fun unwrap_error :: "'a chfs_result \<Rightarrow> error_type run" where
  "unwrap_error (Ok v) = Inl UncaughtThrow"
| "unwrap_error (Err e) = Inr e"

text \<open>
  The pattern \<open>if (res.is_err()) return Err(res.unwrap_error()); x = res.unwrap();\<close> that
  every caller repeats: an error is handed on, a value goes to the rest of the function.
\<close>

definition on_ok :: "'a chfs_result \<Rightarrow> ('a \<Rightarrow> ('s, 'b chfs_result) exec) \<Rightarrow> ('s, 'b chfs_result) exec" where
  "on_ok r f = (case r of Err e \<Rightarrow> give (Err e) | Ok a \<Rightarrow> f a)"

lemma on_ok_simps [simp]:
  "on_ok (Ok a) f = f a"
  "on_ok (Err e) f = give (Err e)"
  by (simp_all add: on_ok_def)

lemma on_ok_is_unwrap:
  "on_ok r f = (if is_err r then chain (lift_run (unwrap_error r)) (\<lambda>e. give (Err e))
                else chain (lift_run (unwrap r)) f)"
  by (rule ext) (cases r; simp)

lemma unwrap_crashes_iff: "unwrap r = Inl c \<longleftrightarrow> is_err r \<and> c = UncaughtThrow"
  by (cases r) auto

end
