(* ===== verification/Block_Manager.thy ===== *)
theory Block_Manager
  imports Chfs_Result
begin

text \<open>
  The block device (src/src/include/block/manager.h, src/src/block/manager.cc): an array of
  \<open>block_cnt * block_sz\<close> bytes, read and written by blocks. The code does not check block ids;
  it computes \<open>block_data + block_id * block_sz\<close> with 64-bit wrap-around and copies. An access
  that leaves the array, or a source or target buffer that is too short, is \<open>OutOfBounds\<close>.

  The bytes of a fresh in-memory device are not initialised; they are the argument \<open>junk\<close>.
  For a file-backed device the file's bytes are an argument and the mapped array is the state;
  \<open>open\<close>, \<open>fstat\<close>, \<open>ftruncate\<close> and \<open>mmap\<close> are taken to succeed (but for a zero-length map).

  The proofs of the other components use one abstraction: \<open>blk bm b\<close>, the bytes of block \<open>b\<close>,
  and \<open>upd_blk b d bm\<close>, the device after block \<open>b\<close> became \<open>d\<close>. The locale \<open>block_device\<close> states
  what a client may rely on.
\<close>

record block_manager =
  block_sz :: nat
  block_cnt :: nat
  block_data :: "byte list"
  in_memory :: bool

definition KDefaultBlockCnt :: nat where "KDefaultBlockCnt = 4096"

definition total_storage_sz :: "block_manager \<Rightarrow> nat" where
  "total_storage_sz bm = wrap32 (block_cnt bm * block_sz bm)"

definition total_blocks :: "block_manager \<Rightarrow> nat" where
  "total_blocks bm = block_cnt bm"

definition block_size :: "block_manager \<Rightarrow> nat" where
  "block_size bm = block_sz bm"

definition new_memory_manager :: "nat \<Rightarrow> nat \<Rightarrow> (nat \<Rightarrow> byte) \<Rightarrow> block_manager run" where
  "new_memory_manager cnt sz junk =
     (let buf_sz = wrap64 (cnt * sz)
      in if buf_sz > 0
         then Inr \<lparr>block_sz = sz, block_cnt = cnt, block_data = map junk [0..<buf_sz],
                   in_memory = True\<rparr>
         else Inl VerifyAborted)"

definition get_file_sz :: "byte list \<Rightarrow> nat" where
  "get_file_sz file = wrap32 (length file)"

definition initialize_file :: "byte list \<Rightarrow> nat \<Rightarrow> byte list" where
  "initialize_file file total_file_sz = take total_file_sz (file @ replicate total_file_sz 0)"

definition open_file_manager :: "byte list \<Rightarrow> nat \<Rightarrow> block_manager run" where
  "open_file_manager file cnt =
     (let bm0 = \<lparr>block_sz = 4096, block_cnt = cnt, block_data = [], in_memory = False\<rparr>;
          file_sz = get_file_sz file;
          bm1 = (if file_sz = 0 then bm0 else bm0\<lparr>block_cnt := file_sz div block_sz bm0\<rparr>);
          file' = (if file_sz = 0 then initialize_file file (total_storage_sz bm0) else file)
      in if file_sz \<noteq> 0 \<and> total_storage_sz bm1 \<noteq> wrap32 (KDefaultBlockCnt * block_sz bm1)
         then Inl AssertFailed
         else if total_storage_sz bm1 = 0 then Inl AssertFailed
         else Inr (bm1\<lparr>block_data := take (total_storage_sz bm1) file'\<rparr>))"

definition open_default_file_manager :: "byte list \<Rightarrow> block_manager run" where
  "open_default_file_manager file = open_file_manager file KDefaultBlockCnt"

text \<open>The destructor unmaps and closes the file. The mapping is shared, so what remains is the file with the
  mapped bytes over its beginning (\<open>file\<close> is its content before); the bytes of a device in memory are gone.\<close>

definition close_manager :: "byte list \<Rightarrow> block_manager \<Rightarrow> byte list option" where
  "close_manager file bm =
     (if \<not> in_memory bm then Some (block_data bm @ drop (length (block_data bm)) file) else None)"

definition unsafe_get_block_ptr :: "block_manager \<Rightarrow> byte list" where
  "unsafe_get_block_ptr bm = block_data bm"

subsection \<open>The four transfers\<close>

definition block_addr :: "block_manager \<Rightarrow> nat \<Rightarrow> nat" where
  "block_addr bm block_id = wrap64 (block_id * block_sz bm)"

definition poke :: "nat \<Rightarrow> byte list \<Rightarrow> (block_manager, unit chfs_result) exec" where
  "poke addr d bm = (case store_checked (block_data bm) addr d of
     Inl c \<Rightarrow> Inl c | Inr m \<Rightarrow> Inr (Ok (), bm\<lparr>block_data := m\<rparr>))"

definition write_block :: "nat \<Rightarrow> byte list \<Rightarrow> (block_manager, unit chfs_result) exec" where
  "write_block block_id data bm =
     (case load_checked data 0 (block_sz bm) of Inl c \<Rightarrow> Inl c
      | Inr d \<Rightarrow> poke (block_addr bm block_id) d bm)"

definition write_partial_block ::
    "nat \<Rightarrow> byte list \<Rightarrow> nat \<Rightarrow> nat \<Rightarrow> (block_manager, unit chfs_result) exec" where
  "write_partial_block block_id data offset len bm =
     (case load_checked data 0 len of Inl c \<Rightarrow> Inl c
      | Inr d \<Rightarrow> poke (wrap64 (block_addr bm block_id + offset)) d bm)"

text \<open>\<open>read_block\<close> fills the caller's buffer: it returns the buffer beside the result.\<close>

definition read_block ::
    "nat \<Rightarrow> byte list \<Rightarrow> (block_manager, unit chfs_result \<times> byte list) exec" where
  "read_block block_id buf bm =
     (case load_checked (block_data bm) (block_addr bm block_id) (block_sz bm) of Inl c \<Rightarrow> Inl c
      | Inr d \<Rightarrow> (case store_checked buf 0 d of Inl c \<Rightarrow> Inl c
                 | Inr buf' \<Rightarrow> Inr ((Ok (), buf'), bm)))"

definition zero_block :: "nat \<Rightarrow> (block_manager, unit chfs_result) exec" where
  "zero_block block_id bm = poke (block_addr bm block_id) (replicate (block_sz bm) 0) bm"

subsection \<open>The block view\<close>

definition wf_bm :: "block_manager \<Rightarrow> bool" where
  "wf_bm bm \<longleftrightarrow> 0 < block_sz bm \<and> block_sz bm < 2 ^ 32 \<and> block_cnt bm < 2 ^ 32
     \<and> length (block_data bm) = block_cnt bm * block_sz bm"

definition blk :: "block_manager \<Rightarrow> nat \<Rightarrow> byte list" where
  "blk bm b = load (block_data bm) (b * block_sz bm) (block_sz bm)"

definition upd_blk :: "nat \<Rightarrow> byte list \<Rightarrow> block_manager \<Rightarrow> block_manager" where
  "upd_blk b d bm = bm\<lparr>block_data := store (block_data bm) (b * block_sz bm) d\<rparr>"

lemma upd_blk_geometry [simp]:
  "block_sz (upd_blk b d bm) = block_sz bm"
  "block_cnt (upd_blk b d bm) = block_cnt bm"
  "in_memory (upd_blk b d bm) = in_memory bm"
  by (simp_all add: upd_blk_def)

lemma wf_bm_pos [simp]: "wf_bm bm \<Longrightarrow> 0 < block_sz bm"
  by (simp add: wf_bm_def)

lemma block_room:
  assumes "wf_bm bm" and "b < block_cnt bm"
  shows "b * block_sz bm + block_sz bm \<le> length (block_data bm)"
proof -
  have "Suc b * block_sz bm \<le> block_cnt bm * block_sz bm"
    using assms(2) by (intro mult_le_mono1) simp
  then show ?thesis using assms(1) by (simp add: wf_bm_def add.commute)
qed

lemma device_size_less: "wf_bm bm \<Longrightarrow> block_cnt bm * block_sz bm < 2 ^ 64"
proof -
  assume "wf_bm bm"
  then have "block_cnt bm * block_sz bm < 2 ^ 32 * 2 ^ 32"
    by (intro mult_strict_mono) (simp_all add: wf_bm_def)
  then show ?thesis by simp
qed

lemma block_addr_ok: "wf_bm bm \<Longrightarrow> b < block_cnt bm \<Longrightarrow> block_addr bm b = b * block_sz bm"
  using block_room [of bm b] device_size_less [of bm] by (simp add: block_addr_def wf_bm_def)

lemma blocks_apart:
  "b \<noteq> b' \<Longrightarrow> b * s + s \<le> b' * s \<or> b' * s + s \<le> b * (s::nat)"
proof -
  assume "b \<noteq> b'"
  then have "Suc b \<le> b' \<or> Suc b' \<le> b" by linarith
  then have "Suc b * s \<le> b' * s \<or> Suc b' * s \<le> b * s" by (metis mult_le_mono1)
  then show ?thesis by (simp add: add.commute)
qed

lemma length_blk [simp]: "wf_bm bm \<Longrightarrow> b < block_cnt bm \<Longrightarrow> length (blk bm b) = block_sz bm"
  by (simp add: blk_def block_room)

lemma wf_upd_blk [chfs_wf, simp]:
  "wf_bm bm \<Longrightarrow> b < block_cnt bm \<Longrightarrow> length d = block_sz bm \<Longrightarrow> wf_bm (upd_blk b d bm)"
  using block_room [of bm b] by (simp add: wf_bm_def upd_blk_def)

lemma blk_upd_blk [chfs_mem]:
  assumes "wf_bm bm" and "b < block_cnt bm" and "b' < block_cnt bm" and "length d = block_sz bm"
  shows "blk (upd_blk b d bm) b' = (if b' = b then d else blk bm b')"
proof (cases "b' = b")
  case True
  then show ?thesis
    using block_room [OF assms(1,2)] assms(4) load_store_same [of "b * block_sz bm" d "block_data bm"]
    by (simp add: blk_def upd_blk_def)
next
  case False
  then show ?thesis
    using block_room [OF assms(1,2)] block_room [OF assms(1,3)] assms(4)
      blocks_apart [OF False, of "block_sz bm"]
    by (auto simp: blk_def upd_blk_def intro!: load_store_other)
qed

lemma nth_blk:
  assumes "wf_bm bm" and "i < length (block_data bm)"
  shows "block_data bm ! i = blk bm (i div block_sz bm) ! (i mod block_sz bm)"
    and "i div block_sz bm < block_cnt bm"
proof -
  from assms show b: "i div block_sz bm < block_cnt bm"
    by (simp add: wf_bm_def less_mult_imp_div_less)
  show "block_data bm ! i = blk bm (i div block_sz bm) ! (i mod block_sz bm)"
    using block_room [OF assms(1) b] assms(1) by (simp add: blk_def)
qed

lemma device_eqI:
  assumes "wf_bm bm" and "wf_bm bm'"
    and "block_sz bm' = block_sz bm" and "block_cnt bm' = block_cnt bm"
    and "in_memory bm' = in_memory bm"
    and same: "\<And>b. b < block_cnt bm \<Longrightarrow> blk bm' b = blk bm b"
  shows "bm' = bm"
proof -
  have "block_data bm' = block_data bm"
  proof (rule nth_equalityI)
    fix i assume i: "i < length (block_data bm')"
    then have i': "i < length (block_data bm)" using assms(1-4) by (simp add: wf_bm_def)
    show "block_data bm' ! i = block_data bm ! i"
      using nth_blk [OF assms(2) i] nth_blk [OF assms(1) i'] assms(3,4) same by simp
  qed (use assms in \<open>simp add: wf_bm_def\<close>)
  then show ?thesis using assms(3-5) by simp
qed

lemma upd_blk_same:
  "wf_bm bm \<Longrightarrow> b < block_cnt bm \<Longrightarrow> upd_blk b (blk bm b) bm = bm"
  by (rule device_eqI) (simp_all add: blk_upd_blk)

lemma upd_blk_twice:
  "wf_bm bm \<Longrightarrow> b < block_cnt bm \<Longrightarrow> length d = block_sz bm \<Longrightarrow> length e = block_sz bm \<Longrightarrow>
   upd_blk b e (upd_blk b d bm) = upd_blk b e bm"
  by (rule device_eqI) (simp_all add: blk_upd_blk)

subsection \<open>The transfers on the block view\<close>

lemma write_block_ok [chfs_exec]:
  assumes "wf_bm bm" and "b < block_cnt bm" and "length d = block_sz bm"
  shows "write_block b d bm = Inr (Ok (), upd_blk b d bm)"
  using block_room [OF assms(1,2)] assms
  by (simp add: write_block_def poke_def block_addr_ok upd_blk_def
      load_full [of d, unfolded assms(3)])

lemma read_block_ok [chfs_exec]:
  assumes "wf_bm bm" and "b < block_cnt bm" and "length buf = block_sz bm"
  shows "read_block b buf bm = Inr ((Ok (), blk bm b), bm)"
  using block_room [OF assms(1,2)] assms
  by (simp add: read_block_def block_addr_ok store_full flip: blk_def)

lemma zero_block_ok [chfs_exec]:
  assumes "wf_bm bm" and "b < block_cnt bm"
  shows "zero_block b bm = Inr (Ok (), upd_blk b (replicate (block_sz bm) 0) bm)"
  using block_room [OF assms] assms
  by (simp add: zero_block_def poke_def block_addr_ok upd_blk_def)

lemma store_inside_block:
  assumes "wf_bm bm" and "b < block_cnt bm" and "off + length d \<le> block_sz bm"
  shows "store (block_data bm) (b * block_sz bm + off) d
         = store (block_data bm) (b * block_sz bm) (store (blk bm b) off d)"
  by (rule nth_equalityI)
    (use block_room [OF assms(1,2)] assms in \<open>auto simp: nth_store blk_def\<close>)

lemma write_partial_block_ok [chfs_exec]:
  assumes "wf_bm bm" and "b < block_cnt bm" and "off + len \<le> block_sz bm" and "length d = len"
  shows "write_partial_block b d off len bm = Inr (Ok (), upd_blk b (store (blk bm b) off d) bm)"
proof -
  have room: "b * block_sz bm + off + len \<le> length (block_data bm)"
    using block_room [OF assms(1,2)] assms(3) by simp
  then have "b * block_sz bm + off < 2 ^ 64 \<or> len = 0"
    using device_size_less [OF assms(1)] assms(1) by (auto simp: wf_bm_def)
  moreover have "b * block_sz bm + off \<le> length (block_data bm)" using room by simp
  moreover have "length (block_data bm) < 2 ^ 64"
    using device_size_less [OF assms(1)] assms(1) by (simp add: wf_bm_def)
  ultimately have "wrap64 (b * block_sz bm + off) = b * block_sz bm + off" by simp
  then show ?thesis
    using room assms store_inside_block [OF assms(1,2), of off d]
    by (simp add: write_partial_block_def poke_def block_addr_ok upd_blk_def
        load_full [of d, unfolded assms(4)])
qed

lemma transfer_out_of_range:
  assumes "wf_bm bm" and "block_cnt bm \<le> b" and "b * block_sz bm < 2 ^ 64"
  shows "write_block b d bm = Inl OutOfBounds" and "read_block b buf bm = Inl OutOfBounds"
    and "zero_block b bm = Inl OutOfBounds"
proof -
  have "block_cnt bm * block_sz bm \<le> b * block_sz bm"
    using assms(2) by (rule mult_le_mono1)
  moreover have "0 < block_sz bm" "length (block_data bm) = block_cnt bm * block_sz bm"
    using assms(1) by (simp_all add: wf_bm_def)
  ultimately have "\<not> b * block_sz bm + block_sz bm \<le> length (block_data bm)"
    by linarith
  then show "write_block b d bm = Inl OutOfBounds" "read_block b buf bm = Inl OutOfBounds"
    "zero_block b bm = Inl OutOfBounds"
    using assms(3)
    by (auto simp: write_block_def read_block_def zero_block_def poke_def block_addr_def
        load_checked_def store_checked_def load_def)
qed

text \<open>A huge id whose product wraps is not refused: it reaches another block.\<close>

lemma block_id_alias:
  "block_addr bm b' = block_addr bm b \<Longrightarrow>
   read_block b' buf bm = read_block b buf bm \<and> write_block b' d bm = write_block b d bm"
  by (simp add: read_block_def write_block_def split: sum.split)

subsection \<open>Opening a device file\<close>

lemma open_fresh_file:
  assumes "0 < cnt" and "cnt * 4096 < 2 ^ 32"
  shows "open_file_manager [] cnt =
    Inr \<lparr>block_sz = 4096, block_cnt = cnt, block_data = replicate (cnt * 4096) 0, in_memory = False\<rparr>"
proof -
  have "wrap32 0 = 0" by (simp add: wrap32_def)
  then show ?thesis using assms
    by (simp add: open_file_manager_def get_file_sz_def initialize_file_def total_storage_sz_def)
qed

lemma open_same_file:
  assumes "wf_bm bm" and "block_sz bm = 4096" and "block_cnt bm = KDefaultBlockCnt" and "\<not> in_memory bm"
    and "length rest < 4096"
  shows "open_file_manager (block_data bm @ rest) cnt = Inr bm"
proof -
  have len: "length (block_data bm) = 16777216" using assms by (simp add: wf_bm_def KDefaultBlockCnt_def)
  then have "get_file_sz (block_data bm @ rest) = 16777216 + length rest"
    using assms(5) by (simp add: get_file_sz_def wrap32_def)
  moreover have "(16777216 + length rest) div 4096 = 4096" using assms(5) by simp
  moreover have "wrap32 16777216 = 16777216" by simp
  ultimately have "open_file_manager (block_data bm @ rest) cnt =
      Inr \<lparr>block_sz = 4096, block_cnt = 4096, block_data = block_data bm, in_memory = False\<rparr>"
    using len by (simp add: open_file_manager_def total_storage_sz_def KDefaultBlockCnt_def Let_def)
  then show ?thesis using assms by (simp add: KDefaultBlockCnt_def)
qed

text \<open>Any other size is refused when the file is opened again, the number of blocks not being used.\<close>

lemma open_other_size:
  assumes "wf_bm bm" and "block_sz bm = 4096" and "0 < block_cnt bm" and "block_cnt bm < 2 ^ 20"
    and "block_cnt bm \<noteq> KDefaultBlockCnt" and "length rest < 4096"
  shows "open_file_manager (block_data bm @ rest) cnt = Inl AssertFailed"
proof -
  have b: "block_cnt bm * 4096 < 2 ^ 32" using assms(4) by simp
  have len: "length (block_data bm) = block_cnt bm * 4096" using assms(1,2) by (simp add: wf_bm_def)
  have "block_cnt bm * 4096 + length rest < 2 ^ 32" using assms(4,6) by simp
  then have "get_file_sz (block_data bm @ rest) = block_cnt bm * 4096 + length rest"
    by (simp only: get_file_sz_def length_append len wrap32_id)
  moreover have "(block_cnt bm * 4096 + length rest) div 4096 = block_cnt bm" using assms(6) by simp
  moreover have "wrap32 (block_cnt bm * 4096) = block_cnt bm * 4096" "wrap32 (KDefaultBlockCnt * 4096) = KDefaultBlockCnt * 4096"
    using b by (simp_all only: wrap32_id) (simp add: KDefaultBlockCnt_def)
  ultimately show ?thesis
    using assms(3,5) by (simp add: open_file_manager_def total_storage_sz_def Let_def)
qed

subsection \<open>What a client relies on\<close>

locale block_device =
  fixes wf :: "'s \<Rightarrow> bool"
    and cnt :: "'s \<Rightarrow> nat"
    and bsz :: "'s \<Rightarrow> nat"
    and rd :: "'s \<Rightarrow> nat \<Rightarrow> byte list"
    and wr :: "nat \<Rightarrow> byte list \<Rightarrow> 's \<Rightarrow> 's"
  assumes wf_wr: "wf s \<Longrightarrow> b < cnt s \<Longrightarrow> length d = bsz s \<Longrightarrow> wf (wr b d s)"
    and cnt_wr: "cnt (wr b d s) = cnt s"
    and bsz_wr: "bsz (wr b d s) = bsz s"
    and length_rd: "wf s \<Longrightarrow> b < cnt s \<Longrightarrow> length (rd s b) = bsz s"
    and rd_wr: "wf s \<Longrightarrow> b < cnt s \<Longrightarrow> b' < cnt s \<Longrightarrow> length d = bsz s \<Longrightarrow>
                rd (wr b d s) b' = (if b' = b then d else rd s b')"
begin

definition wr_all :: "(nat \<times> byte list) list \<Rightarrow> 's \<Rightarrow> 's" where
  "wr_all ws s = fold (\<lambda>(b, d). wr b d) ws s"

definition fits :: "'s \<Rightarrow> (nat \<times> byte list) list \<Rightarrow> bool" where
  "fits s ws \<longleftrightarrow> (\<forall>(b, d) \<in> set ws. b < cnt s \<and> length d = bsz s)"

lemma wr_all_simps [simp]: "wr_all [] s = s" "wr_all ((b, d) # ws) s = wr_all ws (wr b d s)"
  by (simp_all add: wr_all_def)

lemma fits_simps [simp]:
  "fits s []" "fits s ((b, d) # ws) \<longleftrightarrow> b < cnt s \<and> length d = bsz s \<and> fits s ws"
  by (simp_all add: fits_def)

lemma fits_wr [simp]: "fits (wr b d s) ws = fits s ws"
  by (simp add: fits_def cnt_wr bsz_wr)

lemma cnt_wr_all [simp]: "cnt (wr_all ws s) = cnt s"
  by (induction ws arbitrary: s) (auto simp: cnt_wr)

lemma bsz_wr_all [simp]: "bsz (wr_all ws s) = bsz s"
  by (induction ws arbitrary: s) (auto simp: bsz_wr)

lemma wf_wr_all: "wf s \<Longrightarrow> fits s ws \<Longrightarrow> wf (wr_all ws s)"
  by (induction ws arbitrary: s) (auto simp: wf_wr)

lemma rd_wr_all_notin:
  "wf s \<Longrightarrow> fits s ws \<Longrightarrow> b < cnt s \<Longrightarrow> b \<notin> fst ` set ws \<Longrightarrow> rd (wr_all ws s) b = rd s b"
  by (induction ws arbitrary: s) (auto simp: wf_wr rd_wr cnt_wr)

lemma rd_wr_all_in:
  "wf s \<Longrightarrow> fits s ws \<Longrightarrow> distinct (map fst ws) \<Longrightarrow> (b, d) \<in> set ws \<Longrightarrow> rd (wr_all ws s) b = d"
proof (induction ws arbitrary: s)
  case (Cons w ws)
  obtain b' d' where w: "w = (b', d')" by (cases w)
  show ?case
  proof (cases "(b, d) \<in> set ws")
    case True
    then show ?thesis using Cons w by (auto simp: wf_wr)
  next
    case False
    then have bd: "b = b'" "d = d'" using Cons.prems(4) w by auto
    moreover have "b \<notin> fst ` set ws" using Cons.prems(3) w bd by auto
    ultimately show ?thesis
      using Cons.prems w by (simp add: rd_wr_all_notin wf_wr cnt_wr rd_wr)
  qed
qed simp

end

sublocale block_device \<subseteq> cells: indexed_store wf cnt "\<lambda>s d. length d = bsz s" rd wr
  by unfold_locales (simp_all add: wf_wr cnt_wr bsz_wr rd_wr)

interpretation dev: block_device wf_bm block_cnt block_sz blk upd_blk
  by unfold_locales (auto simp: blk_upd_blk)

subsection \<open>A sequence of writes\<close>

fun write_blocks :: "(nat \<times> byte list) list \<Rightarrow> (block_manager, unit chfs_result) exec" where
  "write_blocks [] = give (Ok ())"
| "write_blocks ((b, d) # ws) = chain (write_block b d) (\<lambda>res. on_ok res (\<lambda>_. write_blocks ws))"

lemma write_blocks_eq [chfs_exec]:
  "wf_bm bm \<Longrightarrow> dev.cells.puts_fit bm ws \<Longrightarrow> write_blocks ws bm = Inr (Ok (), dev.cells.put_all ws bm)"
  by (induction ws arbitrary: bm)
    (auto simp: chain_def write_block_ok dev.cells.puts_fit_put)

end
