(* ===== verification/Bitmap.thy ===== *)
theory Bitmap
  imports Chfs_Prelude
begin

unbundle bit_operations_syntax

text \<open>
  The bitmap over a buffer (src/src/include/common/bitmap.h). The class holds a pointer to
  bytes it does not own and their number (\<open>payload\<close>); here the record holds the bytes
  themselves and a caller writes them back. Every operation asserts that its index is below
  \<open>payload * 8\<close> (an \<open>unsigned\<close> product). Proved: each operation acts on exactly one bit of
  the abstract bit vector \<open>bit_at\<close>, the counts are cardinalities, and the word-at-a-time
  search returns the least clear bit below its bound.
\<close>

record bitmap =
  bits :: "byte list"
  payload :: nat

definition KBitsPerByte :: nat where "KBitsPerByte = 8"

definition KBytesPerWord :: nat where "KBytesPerWord = 8"

definition bitmap_limit :: "bitmap \<Rightarrow> nat" where
  "bitmap_limit b = wrap32 (payload b * KBitsPerByte)"

definition bitmap_zeroed :: "bitmap \<Rightarrow> bitmap run" where
  "bitmap_zeroed b =
     (if payload b \<le> length (bits b)
      then Inr (b\<lparr>bits := store (bits b) 0 (replicate (payload b) 0)\<rparr>) else Inl OutOfBounds)"

definition bitmap_byte :: "bitmap \<Rightarrow> nat \<Rightarrow> byte run" where
  "bitmap_byte b index =
     (if bitmap_limit b \<le> index then Inl AssertFailed
      else if length (bits b) \<le> index div KBitsPerByte then Inl OutOfBounds
      else Inr (bits b ! (index div KBitsPerByte)))"

definition bitmap_set :: "bitmap \<Rightarrow> nat \<Rightarrow> bitmap run" where
  "bitmap_set b index = andthen (bitmap_byte b index) (\<lambda>w.
     Inr (b\<lparr>bits := (bits b)[index div KBitsPerByte := w OR push_bit (index mod KBitsPerByte) 1]\<rparr>))"

definition bitmap_clear :: "bitmap \<Rightarrow> nat \<Rightarrow> bitmap run" where
  "bitmap_clear b index = andthen (bitmap_byte b index) (\<lambda>w.
     Inr (b\<lparr>bits := (bits b)[index div KBitsPerByte :=
                                w AND NOT (push_bit (index mod KBitsPerByte) 1)]\<rparr>))"

definition bitmap_check :: "bitmap \<Rightarrow> nat \<Rightarrow> bool run" where
  "bitmap_check b index = andthen (bitmap_byte b index) (\<lambda>w.
     Inr (w AND push_bit (index mod KBitsPerByte) 1 \<noteq> 0))"

text \<open>\<open>count_loop b i n acc\<close>: the loop of the counting functions from index \<open>i\<close>, \<open>n\<close> rounds to go.\<close>

fun count_loop :: "bool \<Rightarrow> bitmap \<Rightarrow> nat \<Rightarrow> nat \<Rightarrow> nat \<Rightarrow> nat run" where
  "count_loop v b i 0 acc = Inr acc"
| "count_loop v b i (Suc n) acc = andthen (bitmap_check b i) (\<lambda>c.
     count_loop v b (Suc i) n (if c = v then acc + 1 else acc))"

definition count_ones :: "bitmap \<Rightarrow> nat run" where
  "count_ones b = count_loop True b 0 (bitmap_limit b) 0"

definition count_zeros :: "bitmap \<Rightarrow> nat run" where
  "count_zeros b = andthen (count_ones b) (\<lambda>n. Inr (sub32 (bitmap_limit b) n))"

definition count_zeros_to_bound :: "bitmap \<Rightarrow> nat \<Rightarrow> nat run" where
  "count_zeros_to_bound b upbound = count_loop False b 0 upbound 0"

text \<open>The two inner loops of the search: \<open>n\<close> bits from index \<open>i\<close> on, first clear one.\<close>

fun scan_bits :: "bitmap \<Rightarrow> nat \<Rightarrow> nat \<Rightarrow> nat option run" where
  "scan_bits b i 0 = Inr None"
| "scan_bits b i (Suc n) = andthen (bitmap_check b (wrap32 i)) (\<lambda>c.
     if \<not> c then Inr (Some i) else scan_bits b (Suc i) n)"

text \<open>The loop over 64-bit words: word \<open>i\<close>, \<open>n\<close> words to go.\<close>

fun scan_words :: "bitmap \<Rightarrow> nat \<Rightarrow> nat \<Rightarrow> nat option run" where
  "scan_words b i 0 = Inr None"
| "scan_words b i (Suc n) = andthen (load_checked (bits b) (8 * i) 8) (\<lambda>w.
     if le_nat w \<noteq> 2 ^ 64 - 1
     then andthen (scan_bits b (i * KBytesPerWord * KBitsPerByte) (KBitsPerByte * KBytesPerWord))
            (\<lambda>r. case r of Some j \<Rightarrow> Inr (Some j) | None \<Rightarrow> scan_words b (Suc i) n)
     else scan_words b (Suc i) n)"

definition find_first_free_w_bound :: "bitmap \<Rightarrow> nat \<Rightarrow> nat option run" where
  "find_first_free_w_bound b nbits =
     (let refined_bits = min (bitmap_limit b) nbits;
          num_words = refined_bits div (KBytesPerWord * KBitsPerByte);
          num_remaining_bits = nbits mod (KBytesPerWord * KBitsPerByte)
      in andthen (scan_words b 0 num_words) (\<lambda>r. case r of
           Some j \<Rightarrow> Inr (Some j)
         | None \<Rightarrow> scan_bits b (num_words * KBytesPerWord * KBitsPerByte) num_remaining_bits))"

definition find_first_free :: "bitmap \<Rightarrow> nat option run" where
  "find_first_free b = find_first_free_w_bound b (bitmap_limit b)"

subsection \<open>The abstract bit vector\<close>

definition bit_at :: "byte list \<Rightarrow> nat \<Rightarrow> bool" where
  "bit_at d k = bit (d ! (k div 8)) (k mod 8)"

definition set_bit_at :: "bool \<Rightarrow> byte list \<Rightarrow> nat \<Rightarrow> byte list" where
  "set_bit_at v d k = d[k div 8 := (if v then d ! (k div 8) OR push_bit (k mod 8) 1
                                    else d ! (k div 8) AND NOT (push_bit (k mod 8) 1))]"

definition bitmap_ok :: "bitmap \<Rightarrow> bool" where
  "bitmap_ok b \<longleftrightarrow> length (bits b) = payload b \<and> payload b * 8 < 2 ^ 32"

definition clear_bits :: "byte list \<Rightarrow> nat \<Rightarrow> nat set" where
  "clear_bits d n = {k. k < n \<and> \<not> bit_at d k}"

lemma finite_clear_bits [simp]: "finite (clear_bits d n)"
  by (simp add: clear_bits_def)

lemma bitmap_limit_ok: "bitmap_ok b \<Longrightarrow> bitmap_limit b = 8 * payload b"
  by (simp add: bitmap_limit_def bitmap_ok_def KBitsPerByte_def mult.commute)

lemma div8_less: "k < 8 * length d \<Longrightarrow> k div 8 < length d"
  by (simp add: less_mult_imp_div_less mult.commute)

lemma length_set_bit_at [simp]: "length (set_bit_at v d k) = length d"
  by (simp add: set_bit_at_def)

lemma bit_set_bit_at:
  assumes "k < 8 * length d" and "j < 8 * length d"
  shows "bit_at (set_bit_at v d k) j = (if j = k then v else bit_at d j)"
proof (cases "j div 8 = k div 8")
  case False
  then show ?thesis by (auto simp: bit_at_def set_bit_at_def)
next
  case True
  have le: "k div 8 < length d" using assms(1) by (rule div8_less)
  have eq: "j = k \<longleftrightarrow> j mod 8 = k mod 8"
    using True by (metis div_mult_mod_eq)
  have "j mod 8 < 8" "k mod 8 < 8" by simp_all
  then show ?thesis
    using True le eq
    by (auto simp: bit_at_def set_bit_at_def bit_simps)
qed

lemma clear_bits_set: 
  assumes "k < 8 * length d" and "n \<le> 8 * length d"
  shows "clear_bits (set_bit_at True d k) n = clear_bits d n - {k}"
    and "k < n \<Longrightarrow> clear_bits (set_bit_at False d k) n = insert k (clear_bits d n)"
  using assms by (auto simp: clear_bits_def bit_set_bit_at split: if_splits)

lemma bit_at_replicate0: "k < 8 * n \<Longrightarrow> \<not> bit_at (replicate n 0) k"
  using div8_less [of k "replicate n 0"] by (simp add: bit_at_def)

lemma byte_eqI:
  assumes "\<And>i. i < 8 \<Longrightarrow> bit (a :: byte) i = bit b i"
  shows "a = b"
  by (rule bit_word_eqI) (use assms in simp)

lemma bit_vector_eqI:
  assumes "length d = length e" and "\<And>k. k < 8 * length d \<Longrightarrow> bit_at d k = bit_at e k"
  shows "d = e"
proof (rule nth_equalityI)
  fix i assume i: "i < length d"
  show "d ! i = e ! i"
  proof (rule byte_eqI)
    fix j :: nat assume "j < 8"
    then have "bit_at d (8 * i + j) = bit_at e (8 * i + j)"
      using i by (intro assms(2)) linarith
    then show "bit (d ! i) j = bit (e ! i) j"
      using \<open>j < 8\<close> by (simp add: bit_at_def)
  qed
qed (rule assms(1))

lemma set_bit_at_undo:
  assumes "k < 8 * length d" and "bit_at d k = v"
  shows "set_bit_at v (set_bit_at w d k) k = d"
  by (rule bit_vector_eqI) (use assms in \<open>auto simp: bit_set_bit_at\<close>)

subsection \<open>The operations on the bit vector\<close>

lemma bitmap_byte_ok:
  "bitmap_ok b \<Longrightarrow> k < 8 * payload b \<Longrightarrow> bitmap_byte b k = Inr (bits b ! (k div 8))"
  using div8_less [of k "bits b"]
  by (simp add: bitmap_byte_def bitmap_limit_ok KBitsPerByte_def bitmap_ok_def)

lemma bitmap_set_ok [chfs_exec]:
  "bitmap_ok b \<Longrightarrow> k < 8 * payload b \<Longrightarrow>
   bitmap_set b k = Inr (b\<lparr>bits := set_bit_at True (bits b) k\<rparr>)"
  by (simp add: bitmap_set_def bitmap_byte_ok set_bit_at_def KBitsPerByte_def)

lemma bitmap_clear_ok [chfs_exec]:
  "bitmap_ok b \<Longrightarrow> k < 8 * payload b \<Longrightarrow>
   bitmap_clear b k = Inr (b\<lparr>bits := set_bit_at False (bits b) k\<rparr>)"
  by (simp add: bitmap_clear_def bitmap_byte_ok set_bit_at_def KBitsPerByte_def)

lemma mask_nonzero_iff: "j < 8 \<Longrightarrow> (w :: byte) AND 2 ^ j \<noteq> 0 \<longleftrightarrow> bit w j"
  by (simp add: bit_iff_and_push_bit_not_eq_0 push_bit_of_1)

lemma bitmap_check_ok [chfs_exec]:
  "bitmap_ok b \<Longrightarrow> k < 8 * payload b \<Longrightarrow> bitmap_check b k = Inr (bit_at (bits b) k)"
  by (simp add: bitmap_check_def bitmap_byte_ok bit_at_def KBitsPerByte_def mask_nonzero_iff)

lemma bitmap_check_range: "bitmap_ok b \<Longrightarrow> 8 * payload b \<le> k \<Longrightarrow> bitmap_check b k = Inl AssertFailed"
  by (simp add: bitmap_check_def bitmap_byte_def bitmap_limit_ok)

lemma count_loop_ok:
  "bitmap_ok b \<Longrightarrow> i + n \<le> 8 * payload b \<Longrightarrow>
   count_loop v b i n acc = Inr (acc + card {k. i \<le> k \<and> k < i + n \<and> bit_at (bits b) k = v})"
proof (induction n arbitrary: i acc)
  case (Suc n)
  let ?S = "\<lambda>i n. {k. i \<le> k \<and> k < i + n \<and> bit_at (bits b) k = v}"
  have fin: "finite (?S (Suc i) n)" by simp
  have split: "?S i (Suc n) = (if bit_at (bits b) i = v then insert i (?S (Suc i) n) else ?S (Suc i) n)"
    by (auto simp: le_less Suc_le_eq)
  have "card (?S i (Suc n)) = (if bit_at (bits b) i = v then 1 else 0) + card (?S (Suc i) n)"
    unfolding split using fin by simp
  moreover have "count_loop v b (Suc i) n a = Inr (a + card (?S (Suc i) n))" for a
    using Suc.prems by (intro Suc.IH) simp_all
  ultimately show ?case using Suc.prems by (simp add: bitmap_check_ok)
qed simp

lemma count_ones_ok:
  "bitmap_ok b \<Longrightarrow> count_ones b = Inr (card {k. k < 8 * payload b \<and> bit_at (bits b) k})"
  by (simp add: count_ones_def bitmap_limit_ok count_loop_ok)

lemma count_zeros_to_bound_ok:
  "bitmap_ok b \<Longrightarrow> n \<le> 8 * payload b \<Longrightarrow>
   count_zeros_to_bound b n = Inr (card (clear_bits (bits b) n))"
  by (simp add: count_zeros_to_bound_def count_loop_ok clear_bits_def)

lemma card_bits_partition: "card {k. k < n \<and> bit_at d k} + card (clear_bits d n) = n"
proof -
  have "card {k. k < n \<and> bit_at d k} + card (clear_bits d n)
        = card ({k. k < n \<and> bit_at d k} \<union> clear_bits d n)"
    by (rule card_Un_disjoint [symmetric]) (auto simp: clear_bits_def)
  also have "{k. k < n \<and> bit_at d k} \<union> clear_bits d n = {..<n}"
    by (auto simp: clear_bits_def)
  finally show ?thesis by simp
qed

lemma count_zeros_ok:
  assumes "bitmap_ok b"
  shows "count_zeros b = Inr (card (clear_bits (bits b) (8 * payload b)))"
proof -
  let ?n = "8 * payload b"
  have part: "card {k. k < ?n \<and> bit_at (bits b) k} + card (clear_bits (bits b) ?n) = ?n"
    by (rule card_bits_partition)
  have "?n < 2 ^ 32" using assms by (simp add: bitmap_ok_def)
  then have "sub32 ?n (card {k. k < ?n \<and> bit_at (bits b) k}) = card (clear_bits (bits b) ?n)"
    using part by (subst sub32_id) linarith+
  then show ?thesis
    using assms by (simp add: count_zeros_def count_ones_ok bitmap_limit_ok)
qed

subsection \<open>The search\<close>

text \<open>What the search is for: the least clear bit among \<open>n\<close> bits from \<open>i\<close> on.\<close>

definition first_clear :: "byte list \<Rightarrow> nat \<Rightarrow> nat \<Rightarrow> nat option" where
  "first_clear d i n = find (\<lambda>k. \<not> bit_at d k) [i..<i + n]"

lemma find_append:
  "find P (xs @ ys) = (case find P xs of None \<Rightarrow> find P ys | Some x \<Rightarrow> Some x)"
  by (induction xs) auto

lemma first_clear_add:
  "first_clear d i (m + n) =
   (case first_clear d i m of None \<Rightarrow> first_clear d (i + m) n | Some k \<Rightarrow> Some k)"
  using upt_add_eq_append [of i "i + m" n]
  by (simp add: first_clear_def add.assoc find_append split: option.split)

lemma first_clear_None_iff: "first_clear d i n = None \<longleftrightarrow> (\<forall>k. i \<le> k \<and> k < i + n \<longrightarrow> bit_at d k)"
  by (auto simp: first_clear_def find_None_iff)

lemma first_clear_Some_iff:
  "first_clear d i n = Some k \<longleftrightarrow>
   i \<le> k \<and> k < i + n \<and> \<not> bit_at d k \<and> (\<forall>j. i \<le> j \<and> j < k \<longrightarrow> bit_at d j)"
proof (induction n arbitrary: k)
  case (Suc n)
  have step: "first_clear d i (Suc n) = (case first_clear d i n of
      None \<Rightarrow> if \<not> bit_at d (i + n) then Some (i + n) else None | Some k \<Rightarrow> Some k)"
    using first_clear_add [of d i n 1] by (simp add: first_clear_def [of d "i + n" "Suc 0"] split: option.splits)
  show ?case
  proof (cases "first_clear d i n")
    case None
    then have all: "\<forall>j. i \<le> j \<and> j < i + n \<longrightarrow> bit_at d j" by (simp add: first_clear_None_iff)
    have "k = i + n" if "i \<le> k" "k < i + Suc n" "\<not> bit_at d k"
      using all that by (metis add_Suc_right less_SucE)
    then show ?thesis using None step all by auto
  next
    case (Some k')
    then have k': "i \<le> k'" "k' < i + n" "\<not> bit_at d k'" "\<forall>j. i \<le> j \<and> j < k' \<longrightarrow> bit_at d j"
      using Suc.IH [of k'] by simp_all
    have "k' = k" if "i \<le> k" "\<not> bit_at d k" "\<forall>j. i \<le> j \<and> j < k \<longrightarrow> bit_at d j"
      using that k' by (meson linorder_neqE_nat)
    then show ?thesis using Some step k' by auto
  qed
qed (simp add: first_clear_def)

lemma scan_bits_ok:
  "bitmap_ok b \<Longrightarrow> i + n \<le> 8 * payload b \<Longrightarrow> scan_bits b i n = Inr (first_clear (bits b) i n)"
proof (induction n arbitrary: i)
  case (Suc n)
  have "first_clear (bits b) i (Suc n)
        = (if \<not> bit_at (bits b) i then Some i else first_clear (bits b) (Suc i) n)"
    by (simp add: first_clear_def upt_conv_Cons del: upt_Suc)
  moreover have "wrap32 i = i"
    using Suc.prems by (simp add: bitmap_ok_def)
  ultimately show ?case
    using Suc by (simp add: bitmap_check_ok)
qed (simp add: first_clear_def)

lemma le_nat_ones: "length w = 8 \<Longrightarrow> le_nat w = 2 ^ 64 - 1 \<Longrightarrow> w = replicate 8 (- 1)"
proof -
  assume len: "length w = 8" and ones: "le_nat w = 2 ^ 64 - 1"
  have "replicate 8 (- 1) = [- 1, - 1, - 1, - 1, - 1, - 1, - 1, - 1 :: byte]"
    by (simp add: numeral_eq_Suc)
  moreover have "unat (- 1 :: byte) = 255" by (simp add: unsigned_minus_1_eq_mask mask_eq_exp_minus_1)
  ultimately have "le_nat (replicate 8 (- 1)) = 2 ^ 64 - 1" by simp
  with len ones show ?thesis by (intro le_nat_inject) simp_all
qed

lemma ones_word_all_set:
  assumes "8 * i + 8 \<le> length d" and "le_nat (load d (8 * i) 8) = 2 ^ 64 - 1"
    and "64 * i \<le> k" and "k < 64 * i + 64"
  shows "bit_at d k"
proof -
  have "load d (8 * i) 8 = replicate 8 (- 1)"
    using assms(1,2) by (intro le_nat_ones) simp_all
  moreover have "k div 8 - 8 * i < 8" and "8 * i \<le> k div 8"
    using assms(3,4) by linarith+
  ultimately have "d ! (k div 8) = - 1"
    using nth_load [OF assms(1), of "k div 8 - 8 * i"] by simp
  then show ?thesis by (simp add: bit_at_def)
qed

lemma scan_words_ok:
  "bitmap_ok b \<Longrightarrow> 64 * (i + n) \<le> 8 * payload b \<Longrightarrow>
   scan_words b i n = Inr (first_clear (bits b) (64 * i) (64 * n))"
proof (induction n arbitrary: i)
  case (Suc n)
  let ?d = "bits b"
  have len: "8 * i + 8 \<le> length ?d"
    using Suc.prems by (simp add: bitmap_ok_def)
  have split: "first_clear ?d (64 * i) (64 * Suc n) =
      (case first_clear ?d (64 * i) 64 of None \<Rightarrow> first_clear ?d (64 * Suc i) (64 * n)
                                       | Some k \<Rightarrow> Some k)"
    using first_clear_add [of ?d "64 * i" 64 "64 * n"]
    by (simp only: mult_Suc_right add.commute [of "64 * i" 64])
  have IH: "scan_words b (Suc i) n = Inr (first_clear ?d (64 * Suc i) (64 * n))"
    using Suc.prems by (intro Suc.IH) simp_all
  have inner: "scan_bits b (64 * i) 64 = Inr (first_clear ?d (64 * i) 64)"
    using Suc.prems by (intro scan_bits_ok) simp_all
  show ?case
  proof (cases "le_nat (load ?d (8 * i) 8) = 2 ^ 64 - 1")
    case True
    then have "first_clear ?d (64 * i) 64 = None"
      unfolding first_clear_None_iff using ones_word_all_set [OF len True] by simp
    with True len split IH show ?thesis by simp
  next
    case False
    with len split IH inner show ?thesis
      by (simp add: KBitsPerByte_def KBytesPerWord_def mult.commute split: option.split)
  qed
qed (simp add: first_clear_def)

lemma find_first_free_w_bound_ok [chfs_exec]:
  assumes "bitmap_ok b" and "n \<le> 8 * payload b"
  shows "find_first_free_w_bound b n = Inr (first_clear (bits b) 0 n)"
proof -
  have n: "n = 64 * (n div 64) + n mod 64" by simp
  have "scan_words b 0 (n div 64) = Inr (first_clear (bits b) 0 (64 * (n div 64)))"
    using scan_words_ok [OF assms(1), of 0 "n div 64"] assms(2) n by simp
  moreover have "scan_bits b (n div 64 * 64) (n mod 64)
                 = Inr (first_clear (bits b) (64 * (n div 64)) (n mod 64))"
    using scan_bits_ok [OF assms(1), of "n div 64 * 64" "n mod 64"] assms(2) n
    by (simp add: mult.commute)
  moreover have "first_clear (bits b) 0 n =
     (case first_clear (bits b) 0 (64 * (n div 64)) of
        None \<Rightarrow> first_clear (bits b) (64 * (n div 64)) (n mod 64) | Some k \<Rightarrow> Some k)"
    using first_clear_add [of "bits b" 0 "64 * (n div 64)" "n mod 64"] by (simp split: option.splits)
  ultimately show ?thesis
    using assms
    by (simp add: find_first_free_w_bound_def Let_def bitmap_limit_ok KBitsPerByte_def
        KBytesPerWord_def min_def mult.assoc split: option.split)
qed

lemma find_first_free_ok [chfs_exec]:
  "bitmap_ok b \<Longrightarrow> find_first_free b = Inr (first_clear (bits b) 0 (8 * payload b))"
  by (simp add: find_first_free_def bitmap_limit_ok find_first_free_w_bound_ok)

text \<open>
  The bound is clamped to the bitmap for the word loop only; the tail loop uses the bound as
  it came. A search past a full bitmap therefore asserts instead of returning \<open>nullopt\<close>.
\<close>

lemma scan_bits_past:
  assumes "bitmap_ok b" and "i \<le> 8 * payload b"
  shows "scan_bits b i n = (case first_clear (bits b) i (min n (8 * payload b - i)) of
      Some k \<Rightarrow> Inr (Some k) | None \<Rightarrow> if i + n \<le> 8 * payload b then Inr None else Inl AssertFailed)"
  using assms(2)
proof (induction n arbitrary: i)
  case (Suc n)
  have w: "wrap32 i = i" using Suc.prems assms(1) by (simp add: bitmap_ok_def)
  show ?case
  proof (cases "i = 8 * payload b")
    case True
    then show ?thesis using w bitmap_check_range [OF assms(1), of i] by (simp add: first_clear_def)
  next
    case False
    then have i: "i < 8 * payload b" using Suc.prems by simp
    then have m: "min (Suc n) (8 * payload b - i) = Suc (min n (8 * payload b - Suc i))" by simp
    have "first_clear (bits b) i (Suc k)
        = (if \<not> bit_at (bits b) i then Some i else first_clear (bits b) (Suc i) k)" for k
      by (simp add: first_clear_def upt_conv_Cons del: upt_Suc)
    then show ?thesis using i w Suc.IH [of "Suc i"] unfolding m by (simp add: bitmap_check_ok assms(1))
  qed
qed (simp add: first_clear_def)

text \<open>What the search does for every bound: \<open>m\<close> is how far it looks.\<close>

lemma find_first_free_any:
  assumes ok: "bitmap_ok b" and m: "m = (if n \<le> 8 * payload b then n else 8 * payload b div 64 * 64 + n mod 64)"
  shows "find_first_free_w_bound b n = (case first_clear (bits b) 0 (min m (8 * payload b)) of
      Some k \<Rightarrow> Inr (Some k) | None \<Rightarrow> if m \<le> 8 * payload b then Inr None else Inl AssertFailed)"
proof (cases "n \<le> 8 * payload b")
  case True
  then show ?thesis
    using find_first_free_w_bound_ok [OF ok True] m by (simp add: min_absorb1 split: option.split)
next
  case False
  let ?p = "8 * payload b"
  define q where "q = ?p div 64"
  have q: "64 * q \<le> ?p" by (simp add: q_def)
  have words: "scan_words b 0 q = Inr (first_clear (bits b) 0 (64 * q))"
    using scan_words_ok [OF ok, of 0 q] q by simp
  have "min (x + r) y = x + min r (y - x)" if "x \<le> y" for x y r :: nat using that by (simp add: min_def) linarith
  moreover have mq: "m = 64 * q + n mod 64" using False m by (simp only: if_False mult.commute q_def)
  ultimately have "min m ?p = 64 * q + min (n mod 64) (?p - 64 * q)" using q by blast
  then have split: "first_clear (bits b) 0 (min m ?p) = (case first_clear (bits b) 0 (64 * q) of
      None \<Rightarrow> first_clear (bits b) (64 * q) (min (n mod 64) (?p - 64 * q)) | Some k \<Rightarrow> Some k)"
    by (simp only: first_clear_add add_0)
  have "min ?p n div 64 = q" using False by (simp only: q_def min_absorb1 nle_le)
  then have "find_first_free_w_bound b n = andthen (scan_words b 0 q) (\<lambda>r. case r of
      Some j \<Rightarrow> Inr (Some j) | None \<Rightarrow> scan_bits b (64 * q) (n mod 64))"
    by (simp add: find_first_free_w_bound_def Let_def bitmap_limit_ok [OF ok] KBitsPerByte_def KBytesPerWord_def
        mult.assoc mult.commute [of q])
  moreover have "first_clear (bits b) 0 (64 * q) \<noteq> None \<Longrightarrow> first_clear (bits b) 0 (min m ?p) = first_clear (bits b) 0 (64 * q)"
    unfolding split by auto
  ultimately show ?thesis
    unfolding words scan_bits_past [OF ok q] mq [symmetric] split by (simp split: option.split)
qed

lemma find_first_free_unclamped:
  assumes "bitmap_ok b" and "8 dvd payload b" and "8 * payload b < n" and "n mod 64 \<noteq> 0"
    and full: "\<And>k. k < 8 * payload b \<Longrightarrow> bit_at (bits b) k"
  shows "find_first_free_w_bound b n = Inl AssertFailed"
proof -
  from assms(2) have "8 * payload b div 64 * 64 = 8 * payload b" by (elim dvdE) simp
  moreover have "first_clear (bits b) 0 (8 * payload b) = None" unfolding first_clear_None_iff using full by simp
  ultimately show ?thesis using find_first_free_any [OF assms(1) refl, of n] assms(3,4) by simp
qed

end
