(* ===== verification/Block_Allocator.thy ===== *)
theory Block_Allocator
  imports Block_Manager Bitmap
begin

text \<open>
  The block allocator (src/src/include/block/allocator.h, src/src/block/allocator.cc): one bit
  per block of the device, kept in \<open>bitmap_block_cnt\<close> consecutive blocks from
  \<open>bitmap_block_id\<close> on; the last of them is used up to \<open>last_block_num\<close> bits only.

  The operations are the loops of the code over the bitmap blocks. Proved: on a well-formed
  allocator \<open>allocate\<close> is "the least free block, marked", \<open>deallocate\<close> clears one bit or
  refuses, \<open>free_block_cnt\<close> is the number of free blocks, and the constructor leaves exactly
  the reserved blocks and the bitmap itself in use.
\<close>

record block_allocator =
  bitmap_block_id :: nat
  bitmap_block_cnt :: nat
  last_block_num :: nat

definition total_bits_per_block :: "block_manager \<Rightarrow> nat" where
  "total_bits_per_block bm = wrap32 (block_size bm * KBitsPerByte)"

definition fresh_buffer :: "block_manager \<Rightarrow> byte list" where
  "fresh_buffer bm = replicate (block_size bm) 0"

definition bitmap_on :: "block_manager \<Rightarrow> byte list \<Rightarrow> bitmap" where
  "bitmap_on bm buffer = \<lparr>bits = buffer, payload = block_size bm\<rparr>"

subsection \<open>Construction\<close>

fun zero_blocks :: "nat \<Rightarrow> nat \<Rightarrow> nat \<Rightarrow> (block_manager, unit) exec" where
  "zero_blocks base i 0 = give ()"
| "zero_blocks base i (Suc n) =
     chain (zero_block (wrap64 (i + base))) (\<lambda>_. zero_blocks base (Suc i) n)"

fun mark_initial ::
    "nat \<Rightarrow> nat \<Rightarrow> nat \<Rightarrow> nat \<Rightarrow> byte list \<Rightarrow> (block_manager, unit) exec" where
  "mark_initial base i 0 cur_block_id buffer = chain (write_block cur_block_id buffer) (\<lambda>_. give ())"
| "mark_initial base i (Suc n) cur_block_id buffer = chain (reads (\<lambda>bm. bm)) (\<lambda>bm.
     let block_id = wrap64 (i div total_bits_per_block bm + base);
         block_idx = i mod total_bits_per_block bm
     in if block_id \<noteq> cur_block_id
        then chain (write_block cur_block_id buffer) (\<lambda>_.
             chain (lift_run (bitmap_zeroed (bitmap_on bm buffer))) (\<lambda>b0.
             chain (lift_run (bitmap_set b0 (wrap32 block_idx))) (\<lambda>b.
             mark_initial base (Suc i) n block_id (bits b))))
        else chain (lift_run (bitmap_set (bitmap_on bm buffer) (wrap32 block_idx))) (\<lambda>b.
             mark_initial base (Suc i) n cur_block_id (bits b)))"

definition new_block_allocator ::
    "nat \<Rightarrow> bool \<Rightarrow> (block_manager, block_allocator) exec" where
  "new_block_allocator bitmap_id will_initialize bm =
     (let tbpb = total_bits_per_block bm;
          total_bitmap = total_blocks bm div tbpb + (if total_blocks bm mod tbpb \<noteq> 0 then 1 else 0)
      in if tbpb = 0 then Inl DivByZero
         else if \<not> total_bitmap > 0 then Inl VerifyAborted
         else if \<not> wrap64 (total_bitmap + bitmap_id) \<le> total_blocks bm then Inl VerifyAborted
         else let last_num = (if wrap64 (total_bitmap * tbpb) = total_blocks bm then tbpb
                          else total_blocks bm mod tbpb);
                  al = \<lparr>bitmap_block_id = bitmap_id, bitmap_block_cnt = total_bitmap,
                        last_block_num = last_num\<rparr>
              in if \<not> last_num \<le> tbpb then Inl VerifyAborted
                 else if \<not> will_initialize then Inr (al, bm)
                 else chain (zero_blocks bitmap_id 0 total_bitmap) (\<lambda>_.
                      chain (lift_run (bitmap_zeroed (bitmap_on bm (fresh_buffer bm)))) (\<lambda>b.
                      chain (mark_initial bitmap_id 0 (wrap64 (total_bitmap + bitmap_id)) bitmap_id (bits b))
                        (\<lambda>_. give al))) bm)"

text \<open>The short constructor keeps the bitmap at the start of the device.\<close>

definition new_block_allocator_at_start :: "(block_manager, block_allocator) exec" where
  "new_block_allocator_at_start = new_block_allocator 0 True"

definition total_bitmap_block :: "block_allocator \<Rightarrow> nat" where
  "total_bitmap_block al = wrap32 (bitmap_block_cnt al)"

subsection \<open>Operations\<close>

fun free_cnt_loop :: "block_allocator \<Rightarrow> nat \<Rightarrow> nat \<Rightarrow> nat \<Rightarrow> (block_manager, nat) exec" where
  "free_cnt_loop al i 0 acc = give acc"
| "free_cnt_loop al i (Suc n) acc = chain (reads (\<lambda>bm. bm)) (\<lambda>bm.
     chain (read_block (wrap64 (i + bitmap_block_id al)) (fresh_buffer bm)) (\<lambda>(res, buffer).
     chain (lift_run (unwrap res)) (\<lambda>_.
     chain (lift_run (if i = bitmap_block_cnt al - 1
                      then count_zeros_to_bound (bitmap_on bm buffer) (last_block_num al)
                      else count_zeros (bitmap_on bm buffer))) (\<lambda>n_free.
     free_cnt_loop al (Suc i) n (wrap32 (acc + n_free))))))"

definition free_block_cnt :: "block_allocator \<Rightarrow> (block_manager, nat) exec" where
  "free_block_cnt al = free_cnt_loop al 0 (bitmap_block_cnt al) 0"

fun allocate_loop ::
    "block_allocator \<Rightarrow> nat \<Rightarrow> nat \<Rightarrow> (block_manager, nat chfs_result) exec" where
  "allocate_loop al i 0 = give (Err OUT_OF_RESOURCE)"
| "allocate_loop al i (Suc n) = chain (reads (\<lambda>bm. bm)) (\<lambda>bm.
     chain (read_block (wrap64 (i + bitmap_block_id al)) (fresh_buffer bm)) (\<lambda>(_, buffer).
     chain (lift_run (if i = bitmap_block_cnt al - 1
                      then find_first_free_w_bound (bitmap_on bm buffer) (last_block_num al)
                      else find_first_free (bitmap_on bm buffer))) (\<lambda>res.
     case res of
       None \<Rightarrow> allocate_loop al (Suc i) n
     | Some r \<Rightarrow>
         chain (lift_run (bitmap_set (bitmap_on bm buffer) (wrap32 r))) (\<lambda>b.
         chain (write_block (wrap64 (i + bitmap_block_id al)) (bits b)) (\<lambda>_.
         give (Ok (wrap64 (wrap32 (i * total_bits_per_block bm) + r))))))))"

definition allocate :: "block_allocator \<Rightarrow> (block_manager, nat chfs_result) exec" where
  "allocate al = allocate_loop al 0 (bitmap_block_cnt al)"

definition deallocate :: "block_allocator \<Rightarrow> nat \<Rightarrow> (block_manager, unit chfs_result) exec" where
  "deallocate al block_id bm =
     (if block_id \<ge> total_blocks bm then Inr (Err INVALID_ARG, bm)
      else let tbpb = total_bits_per_block bm;
               bid = wrap64 (block_id div tbpb + bitmap_block_id al);
               idx = block_id mod tbpb
           in if tbpb = 0 then Inl DivByZero
              else chain (read_block bid (fresh_buffer bm)) (\<lambda>(_, buffer).
                   chain (lift_run (bitmap_check (bitmap_on bm buffer) (wrap32 idx))) (\<lambda>c.
                   if \<not> c then give (Err INVALID_ARG)
                   else chain (lift_run (bitmap_clear (bitmap_on bm buffer) (wrap32 idx))) (\<lambda>b.
                        chain (write_block bid (bits b)) (\<lambda>_. give (Ok ()))))) bm)"

subsection \<open>The set of blocks in use\<close>

text \<open>\<open>bpb bm\<close> is the number of bits of a block; \<open>used al bm b\<close> is the bit of block \<open>b\<close>.\<close>

abbreviation bpb :: "block_manager \<Rightarrow> nat" where
  "bpb bm \<equiv> 8 * block_sz bm"

definition bm_home :: "block_allocator \<Rightarrow> block_manager \<Rightarrow> nat \<Rightarrow> nat" where
  "bm_home al bm b = bitmap_block_id al + b div bpb bm"

definition used :: "block_allocator \<Rightarrow> block_manager \<Rightarrow> nat \<Rightarrow> bool" where
  "used al bm b = bit_at (blk bm (bm_home al bm b)) (b mod bpb bm)"

definition mark :: "block_allocator \<Rightarrow> bool \<Rightarrow> nat \<Rightarrow> block_manager \<Rightarrow> block_manager" where
  "mark al v b bm =
     upd_blk (bm_home al bm b) (set_bit_at v (blk bm (bm_home al bm b)) (b mod bpb bm)) bm"

definition free_set :: "block_allocator \<Rightarrow> block_manager \<Rightarrow> nat set" where
  "free_set al bm = {b. b < block_cnt bm \<and> \<not> used al bm b}"

definition alloc_ok :: "block_allocator \<Rightarrow> block_manager \<Rightarrow> bool" where
  "alloc_ok al bm \<longleftrightarrow> wf_bm bm \<and> bpb bm < 2 ^ 32
     \<and> 0 < bitmap_block_cnt al
     \<and> (bitmap_block_cnt al - 1) * bpb bm < block_cnt bm
     \<and> block_cnt bm \<le> bitmap_block_cnt al * bpb bm
     \<and> last_block_num al = block_cnt bm - (bitmap_block_cnt al - 1) * bpb bm
     \<and> bitmap_block_id al + bitmap_block_cnt al \<le> block_cnt bm"

lemma alloc_ok_wf [simp]: "alloc_ok al bm \<Longrightarrow> wf_bm bm"
  by (simp add: alloc_ok_def)

lemma finite_free_set [simp]: "finite (free_set al bm)"
  by (simp add: free_set_def)

lemma tbpb_ok: "alloc_ok al bm \<Longrightarrow> total_bits_per_block bm = bpb bm"
  by (simp add: alloc_ok_def total_bits_per_block_def block_size_def KBitsPerByte_def mult.commute)

lemma bitmap_on_ok:
  "alloc_ok al bm \<Longrightarrow> length d = block_sz bm \<Longrightarrow> bitmap_ok (bitmap_on bm d)"
  by (simp add: alloc_ok_def bitmap_ok_def bitmap_on_def block_size_def)

lemma bitmap_on_sel [simp]:
  "bits (bitmap_on bm d) = d" "payload (bitmap_on bm d) = block_sz bm"
  "bitmap_on bm d\<lparr>bits := e\<rparr> = bitmap_on bm e"
  by (simp_all add: bitmap_on_def block_size_def)

lemma fresh_buffer_length [simp]: "length (fresh_buffer bm) = block_sz bm"
  by (simp add: fresh_buffer_def block_size_def)

lemma bm_home_range:
  assumes "alloc_ok al bm" and "b < block_cnt bm"
  shows "b div bpb bm < bitmap_block_cnt al" and "bm_home al bm b < block_cnt bm"
    and "b mod bpb bm < bpb bm"
proof -
  have pos: "0 < bpb bm" using assms(1) by simp
  have "b < bitmap_block_cnt al * bpb bm" using assms by (simp add: alloc_ok_def)
  then show "b div bpb bm < bitmap_block_cnt al" by (rule less_mult_imp_div_less)
  then show "bm_home al bm b < block_cnt bm" using assms(1) by (simp add: alloc_ok_def bm_home_def)
  show "b mod bpb bm < bpb bm" using pos by (rule mod_less_divisor)
qed

lemma mark_geometry [simp]:
  "block_sz (mark al v b bm) = block_sz bm" "block_cnt (mark al v b bm) = block_cnt bm"
  "in_memory (mark al v b bm) = in_memory bm"
  by (simp_all add: mark_def)

lemma bm_home_mark [simp]: "bm_home al (mark al v b bm) c = bm_home al bm c"
  by (simp add: bm_home_def)

lemma wf_mark [chfs_wf]:
  "alloc_ok al bm \<Longrightarrow> b < block_cnt bm \<Longrightarrow> wf_bm (mark al v b bm)"
  by (simp add: mark_def bm_home_range)

lemma alloc_ok_mark [chfs_wf]:
  "alloc_ok al bm \<Longrightarrow> b < block_cnt bm \<Longrightarrow> alloc_ok al (mark al v b bm)"
  by (simp add: alloc_ok_def wf_mark [unfolded alloc_ok_def])

lemma blk_mark:
  "alloc_ok al bm \<Longrightarrow> b < block_cnt bm \<Longrightarrow> c < block_cnt bm \<Longrightarrow>
   blk (mark al v b bm) c = (if c = bm_home al bm b
     then set_bit_at v (blk bm c) (b mod bpb bm) else blk bm c)"
  by (auto simp: mark_def bm_home_range blk_upd_blk)

lemma blk_mark_outside:
  assumes "alloc_ok al bm" and "b < block_cnt bm" and "c < block_cnt bm"
    and "c < bitmap_block_id al \<or> bitmap_block_id al + bitmap_block_cnt al \<le> c"
  shows "blk (mark al v b bm) c = blk bm c"
  using assms bm_home_range(1) [OF assms(1,2)] by (auto simp: blk_mark bm_home_def)

lemma used_mark [chfs_mem]:
  assumes "alloc_ok al bm" and "b < block_cnt bm" and "c < block_cnt bm"
  shows "used al (mark al v b bm) c = (if c = b then v else used al bm c)"
proof (cases "bm_home al bm c = bm_home al bm b")
  case False
  then have "c \<noteq> b" by auto
  with False show ?thesis
    using assms by (simp add: used_def blk_mark bm_home_range)
next
  case True
  then have eq: "c = b \<longleftrightarrow> c mod bpb bm = b mod bpb bm"
    by (metis add_left_cancel bm_home_def div_mult_mod_eq)
  have "length (blk bm (bm_home al bm b)) = block_sz bm" using assms by (simp add: bm_home_range)
  then show ?thesis
    using assms True eq bm_home_range [OF assms(1,2)] bm_home_range [OF assms(1,3)]
    by (simp add: used_def blk_mark bit_set_bit_at)
qed

lemma free_set_mark:
  assumes "alloc_ok al bm" and "b < block_cnt bm"
  shows "free_set al (mark al True b bm) = free_set al bm - {b}"
    and "free_set al (mark al False b bm) = insert b (free_set al bm)"
  using assms by (auto simp: free_set_def used_mark split: if_splits)

lemma mark_undo:
  assumes "alloc_ok al bm" and "b < block_cnt bm" and "used al bm b = v"
  shows "mark al v b (mark al w b bm) = bm"
proof (rule device_eqI)
  fix c assume c: "c < block_cnt bm"
  have ok: "alloc_ok al (mark al w b bm)" using assms by (simp add: alloc_ok_mark)
  show "blk (mark al v b (mark al w b bm)) c = blk bm c"
    using assms c ok bm_home_range [OF assms(1,2)]
    by (auto simp: blk_mark used_def intro!: set_bit_at_undo)
qed (use assms in \<open>auto simp: alloc_ok_mark wf_mark\<close>)

subsection \<open>One bitmap block\<close>

text \<open>How many bits of bitmap block \<open>i\<close> stand for a block of the device.\<close>

definition span :: "block_allocator \<Rightarrow> block_manager \<Rightarrow> nat \<Rightarrow> nat" where
  "span al bm i = (if i = bitmap_block_cnt al - 1 then last_block_num al else bpb bm)"

lemma span_le:
  assumes "alloc_ok al bm" and "i < bitmap_block_cnt al"
  shows "span al bm i \<le> bpb bm" and "i * bpb bm + span al bm i \<le> block_cnt bm"
    and "Suc i < bitmap_block_cnt al \<Longrightarrow> i * bpb bm + span al bm i = Suc i * bpb bm"
    and "\<not> Suc i < bitmap_block_cnt al \<Longrightarrow> i * bpb bm + span al bm i = block_cnt bm"
    and "0 < span al bm i"
proof -
  let ?T = "bpb bm" and ?n = "bitmap_block_cnt al"
  have inv: "(?n - 1) * ?T < block_cnt bm" "block_cnt bm \<le> ?n * ?T" "0 < ?n"
      "last_block_num al = block_cnt bm - (?n - 1) * ?T"
    using assms(1) by (simp_all add: alloc_ok_def)
  have top: "?n * ?T = (?n - 1) * ?T + ?T"
    using inv(3) by (cases ?n) simp_all
  have pos: "0 < ?T" using assms(1) by simp
  have "last_block_num al \<le> ?T" using inv top by linarith
  then show "span al bm i \<le> ?T" by (simp add: span_def)
  have step: "Suc i * ?T \<le> (?n - 1) * ?T" if "i \<noteq> ?n - 1"
    using that assms(2) by (intro mult_le_mono1) simp
  show "i * ?T + span al bm i \<le> block_cnt bm"
    using inv step by (cases "i = ?n - 1") (simp_all add: span_def)
  show "i * ?T + span al bm i = Suc i * ?T" if "Suc i < ?n"
  proof -
    have "i \<noteq> ?n - 1" using that by linarith
    then show ?thesis by (simp add: span_def)
  qed
  show "i * ?T + span al bm i = block_cnt bm" if "\<not> Suc i < ?n"
  proof -
    have "i = ?n - 1" using that assms(2) by simp
    then show ?thesis using inv by (simp add: span_def)
  qed
  show "0 < span al bm i" using inv pos by (simp add: span_def)
qed

lemma used_in_block:
  "alloc_ok al bm \<Longrightarrow> k < bpb bm \<Longrightarrow>
   used al bm (i * bpb bm + k) = bit_at (blk bm (bitmap_block_id al + i)) k"
  by (simp add: used_def bm_home_def)

lemma bitmap_block_range:
  assumes "alloc_ok al bm" and "i < bitmap_block_cnt al"
  shows "wrap64 (i + bitmap_block_id al) = bitmap_block_id al + i"
    and "bitmap_block_id al + i < block_cnt bm"
proof -
  show "bitmap_block_id al + i < block_cnt bm" using assms by (simp add: alloc_ok_def)
  moreover have "block_cnt bm < 2 ^ 32" using assms(1) by (simp add: alloc_ok_def wf_bm_def)
  ultimately show "wrap64 (i + bitmap_block_id al) = bitmap_block_id al + i" by simp
qed

lemma search_block_ok:
  assumes "alloc_ok al bm" and "i < bitmap_block_cnt al"
  shows "(if i = bitmap_block_cnt al - 1
          then find_first_free_w_bound (bitmap_on bm (blk bm (bitmap_block_id al + i))) (last_block_num al)
          else find_first_free (bitmap_on bm (blk bm (bitmap_block_id al + i))))
         = Inr (first_clear (blk bm (bitmap_block_id al + i)) 0 (span al bm i))"
proof -
  have ok: "bitmap_ok (bitmap_on bm (blk bm (bitmap_block_id al + i)))"
    using assms bitmap_block_range(2) [OF assms] by (intro bitmap_on_ok) simp_all
  show ?thesis
    using span_le(1) [OF assms] ok
    by (auto simp: span_def find_first_free_w_bound_ok find_first_free_ok split: if_splits)
qed

lemma find_map: "find P (map f xs) = map_option f (find (P \<circ> f) xs)"
  by (induction xs) auto

lemma find_cong_set: "(\<And>x. x \<in> set xs \<Longrightarrow> P x = Q x) \<Longrightarrow> find P xs = find Q xs"
  by (induction xs) auto

lemma find_block_span:
  assumes "alloc_ok al bm" and "i < bitmap_block_cnt al"
  shows "find (\<lambda>b. \<not> used al bm b) [i * bpb bm..<i * bpb bm + span al bm i]
       = map_option (\<lambda>k. i * bpb bm + k) (first_clear (blk bm (bitmap_block_id al + i)) 0 (span al bm i))"
proof -
  let ?n = "span al bm i"
  have "[i * bpb bm..<i * bpb bm + ?n] = map (\<lambda>k. i * bpb bm + k) [0..<?n]"
    by (rule nth_equalityI) simp_all
  moreover have "find ((\<lambda>b. \<not> used al bm b) \<circ> (\<lambda>k. i * bpb bm + k)) [0..<?n]
      = find (\<lambda>k. \<not> bit_at (blk bm (bitmap_block_id al + i)) k) [0..<?n]"
    using span_le(1) [OF assms] used_in_block [OF assms(1)] by (intro find_cong_set) simp
  ultimately show ?thesis by (simp add: find_map first_clear_def)
qed

lemma bits_rest_split:
  assumes "alloc_ok al bm" and "i < bitmap_block_cnt al"
  shows "[i * bpb bm..<block_cnt bm]
       = [i * bpb bm..<i * bpb bm + span al bm i]
         @ (if Suc i < bitmap_block_cnt al then [Suc i * bpb bm..<block_cnt bm] else [])"
proof (cases "Suc i < bitmap_block_cnt al")
  case True
  let ?m = "i * bpb bm + span al bm i"
  have "?m \<le> block_cnt bm" by (rule span_le(2) [OF assms])
  then have "[i * bpb bm..<block_cnt bm] = [i * bpb bm..<?m] @ [?m..<block_cnt bm]"
    by (metis le_add1 le_add_diff_inverse upt_add_eq_append)
  then show ?thesis using True span_le(3) [OF assms True] by (simp add: add.commute)
next
  case False
  then show ?thesis using span_le(4) [OF assms False] by simp
qed

subsection \<open>allocate\<close>

definition alloc_result ::
    "block_allocator \<Rightarrow> block_manager \<Rightarrow> nat option \<Rightarrow> nat chfs_result \<times> block_manager" where
  "alloc_result al bm r = (case r of None \<Rightarrow> (Err OUT_OF_RESOURCE, bm)
                                   | Some b \<Rightarrow> (Ok b, mark al True b bm))"

lemma allocate_loop_ok:
  "alloc_ok al bm \<Longrightarrow> i + n = bitmap_block_cnt al \<Longrightarrow> 0 < n \<Longrightarrow>
   allocate_loop al i n bm
   = Inr (alloc_result al bm (find (\<lambda>b. \<not> used al bm b) [i * bpb bm..<block_cnt bm]))"
proof (induction n arbitrary: i)
  case (Suc n)
  let ?d = "blk bm (bitmap_block_id al + i)" and ?T = "bpb bm"
  have i: "i < bitmap_block_cnt al" using Suc.prems by simp
  note ok = Suc.prems(1)
  note r = bitmap_block_range [OF ok i]
  have rd: "read_block (wrap64 (i + bitmap_block_id al)) (fresh_buffer bm) bm = Inr ((Ok (), ?d), bm)"
    using ok r by (simp add: read_block_ok)
  have fnd: "find (\<lambda>b. \<not> used al bm b) [i * ?T..<block_cnt bm] =
      (case first_clear ?d 0 (span al bm i) of
         Some k \<Rightarrow> Some (i * ?T + k)
       | None \<Rightarrow> if Suc i < bitmap_block_cnt al
                 then find (\<lambda>b. \<not> used al bm b) [Suc i * ?T..<block_cnt bm] else None)"
    unfolding bits_rest_split [OF ok i] find_append find_block_span [OF ok i]
    by (simp split: option.split)
  show ?case
  proof (cases "first_clear ?d 0 (span al bm i)")
    case None
    have "allocate_loop al i (Suc n) bm = allocate_loop al (Suc i) n bm"
      using rd search_block_ok [OF ok i] None by (simp add: chain_def)
    moreover have "n = 0 \<Longrightarrow> \<not> Suc i < bitmap_block_cnt al" using Suc.prems by simp
    moreover have "0 < n \<Longrightarrow> Suc i < bitmap_block_cnt al" using Suc.prems by simp
    ultimately show ?thesis
      using Suc fnd None by (cases "n = 0") (simp_all add: alloc_result_def)
  next
    case (Some k)
    then have k: "k < ?T" "i * ?T + k < block_cnt bm"
      using span_le(1,2) [OF ok i] by (auto simp: first_clear_Some_iff)
    have T: "?T < 2 ^ 32" "block_cnt bm < 2 ^ 32" using ok by (simp_all add: alloc_ok_def wf_bm_def)
    have home: "bm_home al bm (i * ?T + k) = bitmap_block_id al + i"
        "(i * ?T + k) mod ?T = k" using k by (simp_all add: bm_home_def)
    have ret: "wrap64 (wrap32 (i * total_bits_per_block bm) + k) = i * ?T + k"
      using k T by (simp add: tbpb_ok [OF ok])
    have "bitmap_ok (bitmap_on bm ?d)" using ok r by (intro bitmap_on_ok) simp_all
    then have set: "bitmap_set (bitmap_on bm ?d) (wrap32 k) = Inr (bitmap_on bm (set_bit_at True ?d k))"
      using k T by (simp add: bitmap_set_ok)
    have wr: "write_block (wrap64 (i + bitmap_block_id al)) (set_bit_at True ?d k) bm
        = Inr (Ok (), mark al True (i * ?T + k) bm)"
      using ok r home by (simp add: write_block_ok mark_def)
    show ?thesis
      using rd search_block_ok [OF ok i] Some set wr ret fnd
      by (simp add: chain_def alloc_result_def)
  qed
qed simp

lemma allocate_eq [chfs_exec]:
  "alloc_ok al bm \<Longrightarrow>
   allocate al bm = Inr (alloc_result al bm (find (\<lambda>b. \<not> used al bm b) [0..<block_cnt bm]))"
  using allocate_loop_ok [of al bm 0 "bitmap_block_cnt al"] by (simp add: allocate_def alloc_ok_def)

lemma find_upt_least:
  "find P [0..<n] = Some k \<longleftrightarrow> k < n \<and> P k \<and> (\<forall>j<k. \<not> P j)"
  by (auto simp: find_Some_iff)

lemma allocate_full:
  assumes "alloc_ok al bm" and "free_set al bm = {}"
  shows "allocate al bm = Inr (Err OUT_OF_RESOURCE, bm)"
proof -
  have "find (\<lambda>b. \<not> used al bm b) [0..<block_cnt bm] = None"
    using assms(2) by (auto simp: find_None_iff free_set_def)
  then show ?thesis by (simp add: allocate_eq assms(1) alloc_result_def)
qed

lemma allocate_free:
  assumes "alloc_ok al bm" and "free_set al bm \<noteq> {}"
  shows "allocate al bm = Inr (Ok (Min (free_set al bm)), mark al True (Min (free_set al bm)) bm)"
proof -
  define m where "m = Min (free_set al bm)"
  have m: "m \<in> free_set al bm" using assms(2) by (simp add: m_def)
  have least: "m \<le> j" if "j \<in> free_set al bm" for j
    using that by (simp add: m_def)
  have "used al bm j" if "j < m" for j
    using least [of j] m that by (auto simp: free_set_def)
  then have "find (\<lambda>b. \<not> used al bm b) [0..<block_cnt bm] = Some m"
    using m unfolding find_upt_least by (auto simp: free_set_def)
  then show ?thesis by (simp add: allocate_eq assms(1) alloc_result_def m_def)
qed

lemma allocate_cases:
  assumes "alloc_ok al bm"
  obtains "free_set al bm = {}" and "allocate al bm = Inr (Err OUT_OF_RESOURCE, bm)"
  | b where "b \<in> free_set al bm" and "\<And>c. c \<in> free_set al bm \<Longrightarrow> b \<le> c"
      and "allocate al bm = Inr (Ok b, mark al True b bm)"
proof (cases "free_set al bm = {}")
  case True
  then show ?thesis using that(1) allocate_full [OF assms] by blast
next
  case False
  then show ?thesis
    using that(2) [of "Min (free_set al bm)"] allocate_free [OF assms False] by simp
qed

end
