(* ===== verification/Inode.thy ===== *)
theory Inode
  imports Block_Allocator
begin

text \<open>
  The inode (src/src/include/metadata/inode.h, src/src/metadata/inode.cc). An inode fills one
  block; the code never builds it field by field but casts the block's buffer to a packed
  struct, so the model reads and writes the fields at their offsets in the buffer:

    type 0..4, atime 4..12, mtime 12..20, ctime 20..28, size 28..36, block_size 36..40,
    nblocks 40..44, and from 44 on the array \<open>blocks\<close> of block ids, which the buffer bounds.

  The last of the \<open>nblocks\<close> slots is the indirect block, the others are direct blocks.
  The type is kept as the value of the enum's underlying \<open>u32\<close>.
\<close>

definition KInvalidBlockID :: nat where "KInvalidBlockID = 0"

datatype inode_type = Unknown | FILE | Directory

fun type_code :: "inode_type \<Rightarrow> nat" where
  "type_code Unknown = 0"
| "type_code FILE = 1"
| "type_code Directory = 2"

lemma type_code_inject: "type_code a = type_code b \<Longrightarrow> a = b"
  by (cases a; cases b) simp_all

lemma type_code_less: "type_code t < 256 ^ 4"
  by (cases t) simp_all

record file_attr =
  atime :: nat
  mtime :: nat
  ctime :: nat
  fsize :: nat

definition set_mtime :: "nat \<Rightarrow> file_attr \<Rightarrow> file_attr" where
  "set_mtime t a = a\<lparr>mtime := t\<rparr>"

definition set_all_time :: "nat \<Rightarrow> file_attr \<Rightarrow> file_attr" where
  "set_all_time t a = a\<lparr>atime := t, mtime := t, ctime := t\<rparr>"

record inode_header =
  itype :: nat
  inner_attr :: file_attr
  hblock_size :: nat
  hnblocks :: nat

definition sizeof_Inode :: nat where "sizeof_Inode = 44"

subsection \<open>Construction\<close>

text \<open>\<open>now\<close> is the value \<open>time(0)\<close> returns.\<close>

definition new_inode :: "inode_type \<Rightarrow> nat \<Rightarrow> nat \<Rightarrow> inode_header run" where
  "new_inode t bs now =
     (if \<not> bs > sizeof_Inode then Inl VerifyAborted
      else Inr \<lparr>itype = type_code t,
                inner_attr = set_all_time now \<lparr>atime = 0, mtime = 0, ctime = 0, fsize = 0\<rparr>,
                hblock_size = bs, hnblocks = (bs - sizeof_Inode) div 8\<rparr>)"

definition encode_header :: "inode_header \<Rightarrow> byte list" where
  "encode_header h = le_bytes 4 (itype h) @ le_bytes 8 (atime (inner_attr h))
     @ le_bytes 8 (mtime (inner_attr h)) @ le_bytes 8 (ctime (inner_attr h))
     @ le_bytes 8 (fsize (inner_attr h)) @ le_bytes 4 (hblock_size h) @ le_bytes 4 (hnblocks h)"

definition blocks_off :: "nat \<Rightarrow> nat" where
  "blocks_off i = sizeof_Inode + 8 * i"

definition blocks_get :: "byte list \<Rightarrow> nat \<Rightarrow> nat run" where
  "blocks_get buf i = andthen (load_checked buf (blocks_off i) 8) (\<lambda>d. Inr (le_nat d))"

definition blocks_set :: "byte list \<Rightarrow> nat \<Rightarrow> nat \<Rightarrow> byte list run" where
  "blocks_set buf i bid = store_checked buf (blocks_off i) (le_bytes 8 bid)"

fun clear_slots :: "byte list \<Rightarrow> nat \<Rightarrow> nat \<Rightarrow> byte list run" where
  "clear_slots buf i 0 = Inr buf"
| "clear_slots buf i (Suc n) = andthen (blocks_set buf i KInvalidBlockID) (\<lambda>b. clear_slots b (Suc i) n)"

definition flush_to_buffer :: "inode_header \<Rightarrow> byte list \<Rightarrow> byte list run" where
  "flush_to_buffer h buffer =
     andthen (store_checked buffer 0 (encode_header h)) (\<lambda>b. clear_slots b 0 (hnblocks h))"

subsection \<open>The fields of an inode in a buffer\<close>

definition get_type_code :: "byte list \<Rightarrow> nat" where "get_type_code buf = get_le buf 0 4"

definition get_attr_of :: "byte list \<Rightarrow> file_attr" where
  "get_attr_of buf = \<lparr>atime = get_le buf 4 8, mtime = get_le buf 12 8, ctime = get_le buf 20 8,
                      fsize = get_le buf 28 8\<rparr>"

definition get_size :: "byte list \<Rightarrow> nat" where "get_size buf = get_le buf 28 8"

definition get_block_size :: "byte list \<Rightarrow> nat" where "get_block_size buf = get_le buf 36 4"

definition get_nblocks :: "byte list \<Rightarrow> nat" where "get_nblocks buf = get_le buf 40 4"

definition put_attr :: "file_attr \<Rightarrow> byte list \<Rightarrow> byte list" where
  "put_attr a buf = put_le (put_le (put_le (put_le buf 4 8 (atime a)) 12 8 (mtime a))
                      20 8 (ctime a)) 28 8 (fsize a)"

definition get_direct_block_num :: "byte list \<Rightarrow> nat" where
  "get_direct_block_num buf = sub32 (get_nblocks buf) 1"

definition is_direct_block :: "byte list \<Rightarrow> nat \<Rightarrow> bool" where
  "is_direct_block buf idx \<longleftrightarrow> idx < sub32 (get_nblocks buf) 1"

definition max_file_sz_supported :: "byte list \<Rightarrow> nat" where
  "max_file_sz_supported buf =
     (let max_blocks_in_block = get_block_size buf div 8
      in wrap64 (wrap64 (max_blocks_in_block * get_block_size buf)
                 + wrap64 (sub32 (get_nblocks buf) 1 * get_block_size buf)))"

definition set_block_direct :: "byte list \<Rightarrow> nat \<Rightarrow> nat \<Rightarrow> byte list run" where
  "set_block_direct buf idx bid = blocks_set buf idx bid"

definition inode_index :: "byte list \<Rightarrow> nat \<Rightarrow> nat run" where
  "inode_index buf i = (if i \<ge> get_nblocks buf then Inl UncaughtThrow else blocks_get buf i)"

definition indirect_slot :: "byte list \<Rightarrow> nat" where
  "indirect_slot buf = sub32 (get_nblocks buf) 1"

definition get_indirect_block_id :: "byte list \<Rightarrow> nat run" where
  "get_indirect_block_id buf = andthen (blocks_get buf (indirect_slot buf)) (\<lambda>b.
     if b \<noteq> KInvalidBlockID then Inr b else Inl AssertFailed)"

definition invalid_indirect_block_id :: "byte list \<Rightarrow> byte list run" where
  "invalid_indirect_block_id buf = blocks_set buf (indirect_slot buf) KInvalidBlockID"

definition get_or_insert_indirect_block ::
    "block_allocator \<Rightarrow> byte list \<Rightarrow> (block_manager, nat chfs_result \<times> byte list) exec" where
  "get_or_insert_indirect_block al buf = chain (lift_run (blocks_get buf (indirect_slot buf))) (\<lambda>b.
     if b = KInvalidBlockID
     then chain (allocate al) (\<lambda>r. case r of
            Err e \<Rightarrow> give (Err e, buf)
          | Ok bid \<Rightarrow> chain (lift_run (blocks_set buf (indirect_slot buf) bid)) (\<lambda>buf'.
              give (Ok bid, buf')))
     else give (Ok b, buf))"

definition write_indirect_block ::
    "byte list \<Rightarrow> byte list \<Rightarrow> (block_manager, unit chfs_result) exec" where
  "write_indirect_block buf buffer = chain (lift_run (blocks_get buf (indirect_slot buf))) (\<lambda>b.
     if b = KInvalidBlockID then give (Err INVALID_ARG) else write_block b buffer)"

subsection \<open>The iterator over the block ids\<close>

record inode_iterator = cur_idx :: int

definition inode_begin :: inode_iterator where "inode_begin = \<lparr>cur_idx = 0\<rparr>"

definition inode_end :: "byte list \<Rightarrow> inode_iterator" where
  "inode_end buf = \<lparr>cur_idx = sint (word_of_nat (get_nblocks buf) :: 32 word)\<rparr>"

definition inode_incr :: "inode_iterator \<Rightarrow> inode_iterator" where
  "inode_incr it = it\<lparr>cur_idx := cur_idx it + 1\<rparr>"

text \<open>The postfix operator returns the iterator as it was, beside the advanced one.\<close>

definition inode_incr_post :: "inode_iterator \<Rightarrow> inode_iterator \<times> inode_iterator" where
  "inode_incr_post it = (it, inode_incr it)"

definition inode_iter_eq :: "inode_iterator \<Rightarrow> inode_iterator \<Rightarrow> bool" where
  "inode_iter_eq it rhs \<longleftrightarrow> cur_idx it = cur_idx rhs"

definition inode_iter_ne :: "inode_iterator \<Rightarrow> inode_iterator \<Rightarrow> bool" where
  "inode_iter_ne it rhs \<longleftrightarrow> cur_idx it \<noteq> cur_idx rhs"

definition inode_deref :: "byte list \<Rightarrow> inode_iterator \<Rightarrow> nat run" where
  "inode_deref buf it = (if cur_idx it < 0 then Inl OutOfBounds else blocks_get buf (nat (cur_idx it)))"

subsection \<open>Well-formed inode buffers\<close>

text \<open>Number of slots and of direct blocks of an inode in a block of \<open>bs\<close> bytes.\<close>

definition nslots :: "nat \<Rightarrow> nat" where "nslots bs = (bs - 44) div 8"

definition ndirect :: "nat \<Rightarrow> nat" where "ndirect bs = nslots bs - 1"

definition max_size :: "nat \<Rightarrow> nat" where "max_size bs = (bs div 8) * bs + ndirect bs * bs"

definition slot :: "byte list \<Rightarrow> nat \<Rightarrow> nat" where
  "slot buf i = get_le buf (44 + 8 * i) 8"

definition set_slot :: "byte list \<Rightarrow> nat \<Rightarrow> nat \<Rightarrow> byte list" where
  "set_slot buf i v = put_le buf (44 + 8 * i) 8 v"

definition ino_ok :: "nat \<Rightarrow> byte list \<Rightarrow> bool" where
  "ino_ok bs buf \<longleftrightarrow> 52 \<le> bs \<and> 8 * bs < 2 ^ 32 \<and> length buf = bs
     \<and> get_block_size buf = bs \<and> get_nblocks buf = nslots bs"

lemma nslots_room: "i < nslots bs \<Longrightarrow> 44 + 8 * i + 8 \<le> bs"
  unfolding nslots_def by linarith

lemma nslots_pos: "52 \<le> bs \<Longrightarrow> 0 < nslots bs" "52 \<le> bs \<Longrightarrow> ndirect bs < nslots bs"
  "52 \<le> bs \<Longrightarrow> nslots bs = Suc (ndirect bs)"
  by (simp_all add: nslots_def ndirect_def div_greater_zero_iff)

lemma length_set_slot [simp]: "44 + 8 * i + 8 \<le> length buf \<Longrightarrow> length (set_slot buf i v) = length buf"
  by (simp add: set_slot_def)

lemma slot_set_slot [chfs_mem]:
  assumes "i < nslots (length buf)" and "j < nslots (length buf)" and "v < 2 ^ 64"
  shows "slot (set_slot buf i v) j = (if j = i then v else slot buf j)"
proof (cases "j = i")
  case True
  then show ?thesis
    using nslots_room [OF assms(1)] assms(3) by (simp add: slot_def set_slot_def get_put_same)
next
  case False
  then have "44 + 8 * j + 8 \<le> 44 + 8 * i \<or> 44 + 8 * i + 8 \<le> 44 + 8 * j" by linarith
  then show ?thesis
    using nslots_room [OF assms(1)] nslots_room [OF assms(2)] False
    by (simp add: slot_def set_slot_def get_put_other)
qed

lemma header_set_slot [simp]:
  assumes "i < nslots (length buf)"
  shows "get_size (set_slot buf i v) = get_size buf"
    and "get_block_size (set_slot buf i v) = get_block_size buf"
    and "get_nblocks (set_slot buf i v) = get_nblocks buf"
    and "get_type_code (set_slot buf i v) = get_type_code buf"
    and "get_attr_of (set_slot buf i v) = get_attr_of buf"
  using nslots_room [OF assms]
  by (simp_all add: get_size_def get_block_size_def get_nblocks_def get_type_code_def set_slot_def
      get_attr_of_def get_put_other)

lemma ino_ok_set_slot [chfs_wf]: "ino_ok bs buf \<Longrightarrow> i < nslots bs \<Longrightarrow> ino_ok bs (set_slot buf i v)"
  using nslots_room [of i bs] by (simp add: ino_ok_def)

lemma slot_less: "i < nslots (length buf) \<Longrightarrow> slot buf i < 2 ^ 64"
  using nslots_room [of i "length buf"] get_le8_less by (simp add: slot_def)

lemma blocks_get_ok [chfs_exec]:
  "ino_ok bs buf \<Longrightarrow> i < nslots bs \<Longrightarrow> blocks_get buf i = Inr (slot buf i)"
  using nslots_room [of i bs]
  by (simp add: blocks_get_def blocks_off_def sizeof_Inode_def slot_def get_le_def ino_ok_def)

text \<open>The loop of a client, from \<open>begin\<close> to \<open>end\<close>.\<close>

fun visit_slots :: "nat \<Rightarrow> byte list \<Rightarrow> inode_iterator \<Rightarrow> nat list run" where
  "visit_slots 0 buf it = (if inode_iter_ne it (inode_end buf) then Inl NoReturn else Inr [])"
| "visit_slots (Suc n) buf it = (if inode_iter_ne it (inode_end buf)
     then andthen (inode_deref buf it) (\<lambda>b. andthen (visit_slots n buf (inode_incr it)) (\<lambda>bs. Inr (b # bs)))
     else Inr [])"

lemma inode_end_ok: "ino_ok bs buf \<Longrightarrow> inode_end buf = \<lparr>cur_idx = int (nslots bs)\<rparr>"
proof -
  assume ok: "ino_ok bs buf"
  then have "bs < 2 ^ 31" by (simp add: ino_ok_def)
  then have "nslots bs < 2 ^ 31" using div_le_dividend [of "bs - 44" 8] unfolding nslots_def by linarith
  then have "signed_take_bit 31 (int (nslots bs)) = int (nslots bs)"
    by (intro signed_take_bit_int_eq_self) simp_all
  then show ?thesis using ok by (simp add: inode_end_def ino_ok_def signed_of_nat)
qed

lemma visit_slots_ok:
  assumes "ino_ok bs buf" and "i + n = nslots bs"
  shows "visit_slots n buf \<lparr>cur_idx = int i\<rparr> = Inr (map (slot buf) [i..<nslots bs])"
  using assms(2)
proof (induction n arbitrary: i)
  case (Suc n)
  have "visit_slots n buf \<lparr>cur_idx = int (Suc i)\<rparr> = Inr (map (slot buf) [Suc i..<nslots bs])"
    using Suc.prems by (intro Suc.IH) simp
  moreover have "i < nslots bs" using Suc.prems by simp
  ultimately show ?case
    using blocks_get_ok [OF assms(1), of i] inode_end_ok [OF assms(1)]
    by (simp add: inode_iter_ne_def inode_deref_def inode_incr_def andthen_def upt_conv_Cons ac_simps)
qed (simp add: inode_iter_ne_def inode_end_ok [OF assms(1)])

lemma blocks_set_ok [chfs_exec]:
  "ino_ok bs buf \<Longrightarrow> i < nslots bs \<Longrightarrow> blocks_set buf i v = Inr (set_slot buf i v)"
  using nslots_room [of i bs]
  by (simp add: blocks_set_def blocks_off_def sizeof_Inode_def set_slot_def put_le_def ino_ok_def)

lemma direct_num_ok:
  assumes "ino_ok bs buf"
  shows "get_direct_block_num buf = ndirect bs" and "indirect_slot buf = ndirect bs"
    and "is_direct_block buf idx \<longleftrightarrow> idx < ndirect bs"
proof -
  have "0 < nslots bs" "nslots bs < 2 ^ 32"
    using assms by (auto simp: ino_ok_def nslots_def div_greater_zero_iff)
  then have "sub32 (get_nblocks buf) 1 = ndirect bs"
    using assms by (simp add: sub32_id ino_ok_def ndirect_def)
  then show "get_direct_block_num buf = ndirect bs" "indirect_slot buf = ndirect bs"
    "is_direct_block buf idx \<longleftrightarrow> idx < ndirect bs"
    by (simp_all add: get_direct_block_num_def indirect_slot_def is_direct_block_def)
qed

lemma max_size_less:
  assumes "8 * bs < 2 ^ 32"
  shows "max_size bs < 2 ^ 62" and "(bs div 8) * bs < 2 ^ 61" and "ndirect bs * bs < 2 ^ 61"
proof -
  have b: "bs < 2 ^ 29" using assms by simp
  have "(bs div 8) * bs \<le> 2 ^ 29 * 2 ^ 29" using b by (intro mult_le_mono) simp_all
  moreover have "ndirect bs * bs \<le> 2 ^ 29 * 2 ^ 29"
    using b by (intro mult_le_mono) (simp_all add: ndirect_def nslots_def)
  ultimately show "max_size bs < 2 ^ 62" "(bs div 8) * bs < 2 ^ 61" "ndirect bs * bs < 2 ^ 61"
    by (simp_all add: max_size_def)
qed

lemma max_file_sz_ok:
  assumes "ino_ok bs buf"
  shows "max_file_sz_supported buf = max_size bs"
proof -
  have bs: "8 * bs < 2 ^ 32" using assms by (simp add: ino_ok_def)
  note m = max_size_less [OF bs]
  have d: "sub32 (get_nblocks buf) 1 = ndirect bs"
    using direct_num_ok(1) [OF assms] by (simp add: get_direct_block_num_def)
  show ?thesis
    using assms m d
    by (simp add: max_file_sz_supported_def Let_def ino_ok_def max_size_def)
qed

subsection \<open>A new inode\<close>

lemma length_encode_header [simp]: "length (encode_header h) = 44"
  by (simp add: encode_header_def)

lemma get_le_encode:
  assumes "length buf = 44 + n" and "take 44 buf = encode_header h"
    and "itype h < 256 ^ 4" "atime (inner_attr h) < 2 ^ 64" "mtime (inner_attr h) < 2 ^ 64"
      "ctime (inner_attr h) < 2 ^ 64" "fsize (inner_attr h) < 2 ^ 64" "hblock_size h < 2 ^ 32"
      "hnblocks h < 2 ^ 32"
  shows "get_type_code buf = itype h" and "get_attr_of buf = inner_attr h"
    and "get_block_size buf = hblock_size h" and "get_nblocks buf = hnblocks h"
proof -
  have ld: "load buf off k = load (encode_header h) off k" if "off + k \<le> 44" for off k
    using that assms(1,2) by (metis load_def drop_take take_take min_def add.commute le_diff_conv2 add_leD1)
  have enc: "load (encode_header h) 0 4 = le_bytes 4 (itype h)"
    "load (encode_header h) 4 8 = le_bytes 8 (atime (inner_attr h))"
    "load (encode_header h) 12 8 = le_bytes 8 (mtime (inner_attr h))"
    "load (encode_header h) 20 8 = le_bytes 8 (ctime (inner_attr h))"
    "load (encode_header h) 28 8 = le_bytes 8 (fsize (inner_attr h))"
    "load (encode_header h) 36 4 = le_bytes 4 (hblock_size h)"
    "load (encode_header h) 40 4 = le_bytes 4 (hnblocks h)"
    by (simp_all add: load_def encode_header_def)
  show "get_type_code buf = itype h" "get_attr_of buf = inner_attr h"
    "get_block_size buf = hblock_size h" "get_nblocks buf = hnblocks h"
    using assms(3-) by (simp_all add: get_type_code_def get_attr_of_def get_block_size_def
        get_nblocks_def get_le_def ld enc le_nat_le_bytes)
qed

text \<open>Same header, apart from the block slots.\<close>

definition same_header :: "byte list \<Rightarrow> byte list \<Rightarrow> bool" where
  "same_header buf buf' \<longleftrightarrow> length buf' = length buf \<and> get_type_code buf' = get_type_code buf
     \<and> get_attr_of buf' = get_attr_of buf \<and> get_block_size buf' = get_block_size buf
     \<and> get_nblocks buf' = get_nblocks buf"

lemma same_header_size: "same_header buf buf' \<Longrightarrow> get_size buf' = get_size buf"
  by (simp add: same_header_def get_attr_of_def get_size_def)

lemma same_header_ino_ok: "same_header buf buf' \<Longrightarrow> ino_ok bs buf' = ino_ok bs buf"
  by (simp add: same_header_def ino_ok_def)

lemma same_header_refl [simp]: "same_header buf buf"
  by (simp add: same_header_def)

lemma same_header_trans: "same_header a b \<Longrightarrow> same_header b c \<Longrightarrow> same_header a c"
  by (simp add: same_header_def)

lemma same_header_set_slot:
  "ino_ok bs buf \<Longrightarrow> i < nslots bs \<Longrightarrow> same_header buf (set_slot buf i v)"
  using nslots_room [of i bs] by (simp add: same_header_def ino_ok_def)

lemma clear_slots_ok:
  "ino_ok bs buf \<Longrightarrow> i + n \<le> nslots bs \<Longrightarrow>
   \<exists>buf'. clear_slots buf i n = Inr buf' \<and> same_header buf buf'
     \<and> (\<forall>j < nslots bs. slot buf' j = (if i \<le> j \<and> j < i + n then 0 else slot buf j))"
proof (induction n arbitrary: i buf)
  case (Suc n)
  let ?b = "set_slot buf i 0"
  have i: "i < nslots bs" and len: "length buf = bs" using Suc.prems by (simp_all add: ino_ok_def)
  have ok: "ino_ok bs ?b" using Suc.prems(1) i by (rule ino_ok_set_slot)
  have "Suc i + n \<le> nslots bs" using Suc.prems(2) by simp
  from Suc.IH [OF ok this] obtain buf' where b': "clear_slots ?b (Suc i) n = Inr buf'"
      "same_header ?b buf'"
      "\<forall>j < nslots bs. slot buf' j = (if Suc i \<le> j \<and> j < Suc i + n then 0 else slot ?b j)"
    by blast
  have "slot buf' j = (if i \<le> j \<and> j < i + Suc n then 0 else slot buf j)" if "j < nslots bs" for j
  proof (cases "j = i")
    case False
    then have "Suc i \<le> j \<longleftrightarrow> i \<le> j" by linarith
    then show ?thesis using b'(3) that i len False by (simp add: slot_set_slot)
  qed (use b'(3) that i len in \<open>simp add: slot_set_slot\<close>)
  moreover have "same_header buf buf'"
    using same_header_set_slot [OF Suc.prems(1) i] b'(2) by (rule same_header_trans)
  ultimately show ?case
    using b'(1) blocks_set_ok [OF Suc.prems(1) i] by (simp add: KInvalidBlockID_def)
qed auto

lemma new_inode_ok:
  assumes "52 \<le> bs" and "8 * bs < 2 ^ 32" and "now < 2 ^ 64" and "length buffer = bs"
  shows "\<exists>h buf. new_inode t bs now = Inr h \<and> flush_to_buffer h buffer = Inr buf \<and> ino_ok bs buf
    \<and> get_type_code buf = type_code t
    \<and> get_attr_of buf = \<lparr>atime = now, mtime = now, ctime = now, fsize = 0\<rparr>
    \<and> (\<forall>j < nslots bs. slot buf j = 0)"
proof -
  let ?a = "\<lparr>atime = now, mtime = now, ctime = now, fsize = 0\<rparr>"
  let ?h = "\<lparr>itype = type_code t, inner_attr = ?a, hblock_size = bs, hnblocks = nslots bs\<rparr>"
  let ?b = "store buffer 0 (encode_header ?h)"
  have h: "new_inode t bs now = Inr ?h"
    using assms(1) by (simp add: new_inode_def sizeof_Inode_def set_all_time_def nslots_def)
  have len: "length ?b = bs" using assms(1,4) by simp
  have tk: "take 44 ?b = encode_header ?h"
    by (simp add: store_def)
  have n32: "nslots bs < 2 ^ 32" using assms(2) by (simp add: nslots_def)
  have lb: "length ?b = 44 + (bs - 44)" using len assms(1) by simp
  have g: "get_type_code ?b = type_code t" "get_attr_of ?b = ?a" "get_block_size ?b = bs"
      "get_nblocks ?b = nslots bs"
    using get_le_encode [OF lb tk] type_code_less [of t] assms(2,3) n32 by simp_all
  have ok: "ino_ok bs ?b" using g len assms(1,2) by (simp add: ino_ok_def)
  from clear_slots_ok [OF ok, of 0 "nslots bs"] obtain buf where buf:
      "clear_slots ?b 0 (nslots bs) = Inr buf" "same_header ?b buf"
      "\<forall>j < nslots bs. slot buf j = 0" by auto
  have "flush_to_buffer ?h buffer = Inr buf"
    using buf(1) assms(1,4) by (simp add: flush_to_buffer_def)
  then show ?thesis
    using h buf g ok same_header_ino_ok [OF buf(2)] by (auto simp: same_header_def)
qed

subsection \<open>Writing the attributes\<close>

lemma put_attr_ok:
  assumes ok: "ino_ok bs buf"
    and "atime a < 2 ^ 64" "mtime a < 2 ^ 64" "ctime a < 2 ^ 64" "fsize a < 2 ^ 64"
  shows "get_attr_of (put_attr a buf) = a" and "ino_ok bs (put_attr a buf)"
    and "get_type_code (put_attr a buf) = get_type_code buf"
    and "get_size (put_attr a buf) = fsize a"
    and "j < nslots bs \<Longrightarrow> slot (put_attr a buf) j = slot buf j"
proof -
  have len: "44 \<le> length buf" "length buf = bs" using ok by (simp_all add: ino_ok_def)
  show "get_attr_of (put_attr a buf) = a"
    using len assms(2-) by (simp add: get_attr_of_def put_attr_def get_put_same get_put_other)
  show "ino_ok bs (put_attr a buf)"
    using len ok
    by (simp add: ino_ok_def put_attr_def get_block_size_def get_nblocks_def get_put_other)
  show "get_type_code (put_attr a buf) = get_type_code buf"
    using len by (simp add: get_type_code_def put_attr_def get_put_other)
  show "get_size (put_attr a buf) = fsize a"
    using len assms(5) by (simp add: get_size_def put_attr_def get_put_same)
  show "slot (put_attr a buf) j = slot buf j" if "j < nslots bs"
    using len nslots_room [OF that] by (simp add: slot_def put_attr_def get_put_other)
qed

text \<open>The block pointers of an inode are an indexed store.\<close>

interpretation ptrs: indexed_store "ino_ok bs" "\<lambda>_. nslots bs" "\<lambda>_. fits_u64" slot "\<lambda>i v buf. set_slot buf i v" for bs
proof
  fix buf :: "byte list" and i j v :: nat
  assume "ino_ok bs buf" and "i < nslots bs" and "j < nslots bs" and "fits_u64 v"
  then show "slot (set_slot buf i v) j = (if j = i then v else slot buf j)"
    by (intro slot_set_slot) (simp_all add: ino_ok_def fits_u64_def)
qed (simp_all add: ino_ok_set_slot)

end
