(* ===== verification/Block_Iterator.thy ===== *)
theory Block_Iterator
  imports Block_Manager
begin

text \<open>
  \<open>BlockIterator\<close> (src/src/include/block/manager.h, src/src/block/manager.cc): a cursor over the
  blocks \<open>[start_block_id, end_block_id)\<close> with a buffer that holds the current block. The
  pointer to the block manager is the state the operations run on.

  Proved: stepping through the range by whole blocks visits exactly its blocks, and the step
  from the last block still reads the block after the range (the bound test is \<open>>\<close> where the
  range is half open), so it faults when the range ends where the device ends.
\<close>

record block_iterator =
  cur_block_off :: nat
  start_block_id :: nat
  end_block_id :: nat
  ibuf :: "byte list"

definition iterator_create ::
    "nat \<Rightarrow> nat \<Rightarrow> (block_manager, block_iterator chfs_result) exec" where
  "iterator_create s e bm = chain
     (read_block (wrap64 (0 div block_sz bm + s)) (replicate (block_sz bm) 0))
     (\<lambda>(res, buffer). on_ok res (\<lambda>_. give (Ok
        \<lparr>cur_block_off = 0, start_block_id = s, end_block_id = e, ibuf = buffer\<rparr>))) bm"

definition iterator_next ::
    "nat \<Rightarrow> block_iterator \<Rightarrow> (block_manager, unit chfs_result \<times> block_iterator) exec" where
  "iterator_next offset it bm =
     (let prev_block_id = cur_block_off it div block_size bm;
          it1 = it\<lparr>cur_block_off := wrap64 (cur_block_off it + offset)\<rparr>;
          new_block_id = cur_block_off it1 div block_size bm
      in if new_block_id \<noteq> prev_block_id
         then if wrap64 (start_block_id it1 + new_block_id) > end_block_id it1
              then Inr ((Err DONE, it1), bm)
              else chain (read_block (wrap64 (start_block_id it1 + new_block_id)) (ibuf it1))
                     (\<lambda>(res, buffer). case res of
                        Err e \<Rightarrow> give (Err e, it1\<lparr>ibuf := buffer\<rparr>)
                      | Ok _ \<Rightarrow> give (Ok (), it1\<lparr>ibuf := buffer\<rparr>)) bm
         else Inr ((Ok (), it1), bm))"

definition has_next :: "block_iterator \<Rightarrow> block_manager \<Rightarrow> bool" where
  "has_next it bm \<longleftrightarrow>
     cur_block_off it < wrap64 (sub64 (end_block_id it) (start_block_id it) * block_sz bm)"

definition flush_cur_block :: "block_iterator \<Rightarrow> (block_manager, unit chfs_result) exec" where
  "flush_cur_block it bm =
     write_block (wrap64 (start_block_id it + cur_block_off it div block_sz bm)) (ibuf it) bm"

definition get_cur_byte :: "block_iterator \<Rightarrow> block_manager \<Rightarrow> byte run" where
  "get_cur_byte it bm =
     (let i = cur_block_off it mod block_sz bm
      in if i < length (ibuf it) then Inr (ibuf it ! i) else Inl OutOfBounds)"

text \<open>
  \<open>unsafe_get_value_ptr\<close> returns a pointer into the buffer; what is written through it lands
  in the buffer. \<open>value_window\<close> is the memory it points at, \<open>set_value_window\<close> puts back what
  the holder of the pointer wrote.
\<close>

definition value_window :: "block_iterator \<Rightarrow> block_manager \<Rightarrow> byte list" where
  "value_window it bm = drop (cur_block_off it mod block_sz bm) (ibuf it)"

definition set_value_window :: "block_iterator \<Rightarrow> byte list \<Rightarrow> block_manager \<Rightarrow> block_iterator" where
  "set_value_window it w bm = it\<lparr>ibuf := take (cur_block_off it mod block_sz bm) (ibuf it) @ w\<rparr>"

subsection \<open>Stepping through a range\<close>

text \<open>The cursor stands at the start of the \<open>k\<close>-th block of a range inside the device.\<close>

definition at_block :: "block_iterator \<Rightarrow> nat \<Rightarrow> nat \<Rightarrow> nat \<Rightarrow> block_manager \<Rightarrow> bool" where
  "at_block it s e k bm \<longleftrightarrow>
     start_block_id it = s \<and> end_block_id it = e \<and> cur_block_off it = k * block_sz bm
     \<and> s + k \<le> e \<and> e < block_cnt bm \<and> ibuf it = blk bm (s + k)"

lemma iterator_create_ok:
  assumes "wf_bm bm" and "s \<le> e" and "e < block_cnt bm"
  shows "\<exists>it. iterator_create s e bm = Inr (Ok it, bm) \<and> at_block it s e 0 bm"
proof -
  have "s < block_cnt bm" and "s < 2 ^ 64" using assms by (simp_all add: wf_bm_def)
  then show ?thesis
    using assms by (simp add: iterator_create_def chain_def read_block_ok at_block_def)
qed

lemma at_block_range:
  assumes "wf_bm bm" and "at_block it s e k bm"
  shows "(e - s) * block_sz bm < 2 ^ 64" and "s + k < block_cnt bm" and "e < 2 ^ 32"
proof -
  from assms show "e < 2 ^ 32" and "s + k < block_cnt bm" by (simp_all add: at_block_def wf_bm_def)
  have "e - s \<le> block_cnt bm" using assms(2) by (auto simp: at_block_def)
  then have "(e - s) * block_sz bm \<le> block_cnt bm * block_sz bm" by (rule mult_le_mono1)
  then show "(e - s) * block_sz bm < 2 ^ 64"
    using device_size_less [OF assms(1)] by (rule le_less_trans)
qed

lemma has_next_iff:
  assumes "wf_bm bm" and "at_block it s e k bm"
  shows "has_next it bm \<longleftrightarrow> s + k < e"
proof -
  have se: "s \<le> e" "sub64 e s = e - s"
    using at_block_range [OF assms] assms(2) by (simp_all add: at_block_def sub64_id)
  then have "has_next it bm \<longleftrightarrow> k * block_sz bm < (e - s) * block_sz bm"
    using at_block_range [OF assms] assms(2) by (simp add: has_next_def at_block_def)
  then show ?thesis using assms(1) se by (auto simp: wf_bm_def)
qed

lemma iterator_next_ok:
  assumes "wf_bm bm" and "at_block it s e k bm" and "s + k < e"
  shows "\<exists>it'. iterator_next (block_sz bm) it bm = Inr ((Ok (), it'), bm)
               \<and> at_block it' s e (Suc k) bm"
proof -
  let ?off = "k * block_sz bm + block_sz bm"
  have r: "s + Suc k < block_cnt bm" "s + Suc k < 2 ^ 64" "(e - s) * block_sz bm < 2 ^ 64"
    using at_block_range [OF assms(1,2)] assms by (simp_all add: at_block_def)
  have "Suc k * block_sz bm \<le> (e - s) * block_sz bm" using assms(3) by (intro mult_le_mono1) simp
  then have w: "wrap64 ?off = ?off" using r(3) by (simp add: add.commute)
  have d: "?off div block_sz bm = Suc k" "k * block_sz bm div block_sz bm = k"
    using assms(1) by (simp_all add: wf_bm_def)
  let ?it1 = "it\<lparr>cur_block_off := ?off\<rparr>"
  have "iterator_next (block_sz bm) it bm
        = chain (read_block (s + Suc k) (ibuf it))
            (\<lambda>(res, buffer). case res of
               Err e \<Rightarrow> give (Err e, ?it1\<lparr>ibuf := buffer\<rparr>)
             | Ok _ \<Rightarrow> give (Ok (), ?it1\<lparr>ibuf := buffer\<rparr>)) bm"
    using assms(2,3) r w d by (simp add: iterator_next_def at_block_def Let_def block_size_def)
  also have "\<dots> = Inr ((Ok (), ?it1\<lparr>ibuf := blk bm (s + Suc k)\<rparr>), bm)"
    using assms(1,2) r by (simp add: chain_def read_block_ok at_block_def)
  finally show ?thesis
    using assms(2,3) by (simp add: at_block_def add.commute)
qed

text \<open>The step away from the last block of the range, and the block it touches.\<close>

lemma iterator_overrun:
  assumes wf: "wf_bm bm" and s: "s < block_cnt bm" and e: "e = block_cnt bm" and e32: "e < 2 ^ 32"
    and it: "it = \<lparr>cur_block_off = (e - 1 - s) * block_sz bm, start_block_id = s,
                   end_block_id = e, ibuf = blk bm (e - 1)\<rparr>"
  shows "has_next it bm" and "iterator_next (block_sz bm) it bm = Inl OutOfBounds"
proof -
  have size: "block_cnt bm * block_sz bm < 2 ^ 64" by (rule device_size_less [OF wf])
  have pos: "0 < block_sz bm" using wf by simp
  have Suc: "e - s = Suc (e - 1 - s)" using s e by simp
  then have off: "(e - 1 - s) * block_sz bm + block_sz bm = (e - s) * block_sz bm" by simp
  have le: "(e - s) * block_sz bm \<le> block_cnt bm * block_sz bm" using e by (intro mult_le_mono1) simp
  have lt: "(e - 1 - s) * block_sz bm < (e - s) * block_sz bm" using off pos by linarith
  have w: "wrap64 ((e - s) * block_sz bm) = (e - s) * block_sz bm"
    using le_less_trans [OF le size] by simp
  have "sub64 e s = e - s" using s e e32 by (simp add: sub64_id)
  then show "has_next it bm" using it lt w by (simp add: has_next_def)
  have "(e - s) * block_sz bm div block_sz bm \<noteq> (e - 1 - s) * block_sz bm div block_sz bm"
    using pos Suc by simp
  moreover have "read_block e (blk bm (e - 1)) bm = Inl OutOfBounds"
    using transfer_out_of_range(2) [OF wf, of e] e size by simp
  ultimately show "iterator_next (block_sz bm) it bm = Inl OutOfBounds"
    using it s e e32 off w pos
    by (simp add: iterator_next_def block_size_def Let_def chain_def)
qed

subsection \<open>The loop of the clients\<close>

text \<open>\<open>for (; iter.has_next(); iter.next(block_size))\<close>, collecting the buffers; the fuel is the
  number of blocks in the range.\<close>

fun visit_blocks :: "nat \<Rightarrow> block_iterator \<Rightarrow> (block_manager, byte list list) exec" where
  "visit_blocks 0 it = give []"
| "visit_blocks (Suc n) it = chain (reads (\<lambda>bm. bm)) (\<lambda>bm.
     if \<not> has_next it bm then give []
     else chain (iterator_next (block_size bm) it) (\<lambda>(res, it').
          chain (visit_blocks n it') (\<lambda>rest. give (ibuf it # rest))))"

lemma visit_blocks_ok [chfs_exec]:
  "wf_bm bm \<Longrightarrow> at_block it s e k bm \<Longrightarrow> e \<le> s + k + n \<Longrightarrow>
   visit_blocks n it bm = Inr (map (blk bm) [s + k..<e], bm)"
proof (induction n arbitrary: it k)
  case 0
  then show ?case by simp
next
  case (Suc n)
  show ?case
  proof (cases "s + k < e")
    case True
    from iterator_next_ok [OF Suc.prems(1,2) True] obtain it' where
      n: "iterator_next (block_sz bm) it bm = Inr ((Ok (), it'), bm)" "at_block it' s e (Suc k) bm" by blast
    have "visit_blocks n it' bm = Inr (map (blk bm) [s + Suc k..<e], bm)"
      using Suc.IH [OF Suc.prems(1) n(2)] Suc.prems(3) by simp
    moreover have "[s + k..<e] = (s + k) # [s + Suc k..<e]" using True by (simp add: upt_conv_Cons)
    ultimately show ?thesis
      using n(1) has_next_iff [OF Suc.prems(1,2)] True Suc.prems(2)
      by (simp add: chain_def block_size_def at_block_def)
  next
    case False
    then show ?thesis using has_next_iff [OF Suc.prems(1,2)] by simp
  qed
qed

end
