(* ===== verification/Allocator_Laws.thy ===== *)
theory Allocator_Laws
  imports Block_Allocator
begin

text \<open>
  The rest of the allocator's behaviour: \<open>deallocate\<close>, \<open>free_block_cnt\<close>, the constructor; and
  the contract of an allocator as the locale \<open>block_store\<close>, interpreted on the code's model.
\<close>

subsection \<open>deallocate\<close>

lemma deallocate_eq [chfs_exec]:
  assumes ok: "alloc_ok al bm"
  shows "deallocate al b bm =
    (if b < block_cnt bm \<and> used al bm b then Inr (Ok (), mark al False b bm)
     else Inr (Err INVALID_ARG, bm))"
proof (cases "b < block_cnt bm")
  case False
  then show ?thesis by (simp add: deallocate_def total_blocks_def)
next
  case True
  note r = bm_home_range [OF ok True]
  have T: "0 < bpb bm" "bpb bm < 2 ^ 32" using ok by (simp_all add: alloc_ok_def)
  let ?h = "bm_home al bm b" and ?i = "b mod bpb bm"
  have h: "wrap64 (b div bpb bm + bitmap_block_id al) = ?h"
    using bitmap_block_range(1) [OF ok r(1)] by (simp add: bm_home_def add.commute)
  have bok: "bitmap_ok (bitmap_on bm (blk bm ?h))"
    using ok r by (intro bitmap_on_ok) simp_all
  have i: "wrap32 ?i = ?i" using less_trans [OF r(3) T(2)] by (rule wrap32_id)
  have rd: "read_block ?h (fresh_buffer bm) bm = Inr ((Ok (), blk bm ?h), bm)"
    using ok r by (simp add: read_block_ok)
  have wr: "write_block ?h (set_bit_at False (blk bm ?h) ?i) bm = Inr (Ok (), mark al False b bm)"
    using ok r by (simp add: write_block_ok mark_def)
  show ?thesis
    using True h i bok rd wr r T ok
    by (simp add: deallocate_def Let_def total_blocks_def tbpb_ok chain_def bitmap_check_ok
        bitmap_clear_ok used_def)
qed

subsection \<open>free_block_cnt\<close>

definition free_from :: "block_allocator \<Rightarrow> block_manager \<Rightarrow> nat \<Rightarrow> nat set" where
  "free_from al bm lo = {b \<in> free_set al bm. lo \<le> b}"

lemma finite_free_from [simp]: "finite (free_from al bm lo)"
  by (simp add: free_from_def)

lemma free_from_split:
  assumes ok: "alloc_ok al bm" and i: "i < bitmap_block_cnt al"
  shows "card (free_from al bm (i * bpb bm)) =
    card (clear_bits (blk bm (bitmap_block_id al + i)) (span al bm i))
    + card (free_from al bm (Suc i * bpb bm))"
proof -
  let ?T = "bpb bm" and ?d = "blk bm (bitmap_block_id al + i)"
  let ?A = "(\<lambda>k. i * ?T + k) ` clear_bits ?d (span al bm i)"
  note s = span_le [OF ok i]
  have "free_from al bm (i * ?T) = ?A \<union> free_from al bm (Suc i * ?T)"
  proof (rule set_eqI)
    fix b
    show "b \<in> free_from al bm (i * ?T) \<longleftrightarrow> b \<in> ?A \<union> free_from al bm (Suc i * ?T)"
    proof (cases "i * ?T \<le> b \<and> b < i * ?T + span al bm i")
      case True
      then obtain k where k: "b = i * ?T + k" "k < span al bm i"
        by (metis add_less_cancel_left le_iff_add)
      have "b < block_cnt bm" "b < Suc i * ?T" using k s(1,2) by simp_all
      then show ?thesis
        using k s(1) used_in_block [OF ok, of k i]
        by (auto simp: free_from_def free_set_def clear_bits_def)
    next
      case False
      have "b \<notin> ?A" using False by (auto simp: clear_bits_def)
      moreover have "i * ?T \<le> b \<and> b < block_cnt bm \<longleftrightarrow> Suc i * ?T \<le> b \<and> b < block_cnt bm"
        using False s(1,3,4) by (cases "Suc i < bitmap_block_cnt al") auto
      ultimately show ?thesis by (auto simp: free_from_def free_set_def)
    qed
  qed
  moreover have "?A \<inter> free_from al bm (Suc i * ?T) = {}"
    using s(1) by (auto simp: free_from_def clear_bits_def)
  moreover have "card ?A = card (clear_bits ?d (span al bm i))"
    by (rule card_image) simp
  ultimately show ?thesis by (simp add: card_Un_disjoint)
qed

lemma card_free_set_le: "card (free_set al bm) \<le> block_cnt bm"
  using card_mono [of "{..<block_cnt bm}" "free_set al bm"] by (auto simp: free_set_def)

lemma free_cnt_loop_ok:
  "alloc_ok al bm \<Longrightarrow> i + n = bitmap_block_cnt al \<Longrightarrow>
   acc + card (free_from al bm (i * bpb bm)) < 2 ^ 32 \<Longrightarrow>
   free_cnt_loop al i n acc bm = Inr (acc + card (free_from al bm (i * bpb bm)), bm)"
proof (induction n arbitrary: i acc)
  case 0
  then have "block_cnt bm \<le> i * bpb bm" by (simp add: alloc_ok_def)
  then have "free_from al bm (i * bpb bm) = {}" by (auto simp: free_from_def free_set_def)
  then show ?case by simp
next
  case (Suc n)
  let ?d = "blk bm (bitmap_block_id al + i)" and ?c = "card (clear_bits (blk bm (bitmap_block_id al + i)) (span al bm i))"
  have i: "i < bitmap_block_cnt al" using Suc.prems by simp
  note ok = Suc.prems(1)
  note r = bitmap_block_range [OF ok i]
  note split = free_from_split [OF ok i]
  have bok: "bitmap_ok (bitmap_on bm ?d)" using ok r by (intro bitmap_on_ok) simp_all
  have rd: "read_block (wrap64 (i + bitmap_block_id al)) (fresh_buffer bm) bm = Inr ((Ok (), ?d), bm)"
    using ok r by (simp add: read_block_ok)
  have cnt: "(if i = bitmap_block_cnt al - 1
              then count_zeros_to_bound (bitmap_on bm ?d) (last_block_num al)
              else count_zeros (bitmap_on bm ?d)) = Inr ?c"
    using span_le(1) [OF ok i] bok
    by (auto simp: span_def count_zeros_to_bound_ok count_zeros_ok split: if_splits)
  have w: "wrap32 (acc + ?c) = acc + ?c" using Suc.prems(3) split by simp
  have "free_cnt_loop al i (Suc n) acc bm = free_cnt_loop al (Suc i) n (acc + ?c) bm"
    using rd cnt w by (simp add: chain_def)
  also have "\<dots> = Inr (acc + ?c + card (free_from al bm (Suc i * bpb bm)), bm)"
    using Suc.prems split by (intro Suc.IH) simp_all
  finally show ?case using split by simp
qed

lemma free_block_cnt_eq [chfs_exec]:
  assumes "alloc_ok al bm"
  shows "free_block_cnt al bm = Inr (card (free_set al bm), bm)"
proof -
  have "card (free_set al bm) < 2 ^ 32"
    using card_free_set_le [of al bm] assms by (simp add: alloc_ok_def wf_bm_def)
  then show ?thesis
    using free_cnt_loop_ok [OF assms, of 0 "bitmap_block_cnt al" 0]
    by (simp add: free_block_cnt_def free_from_def)
qed

subsection \<open>Construction\<close>

lemma zero_blocks_ok:
  "wf_bm bm \<Longrightarrow> base + i + n \<le> block_cnt bm \<Longrightarrow>
   \<exists>bm'. zero_blocks base i n bm = Inr ((), bm') \<and> wf_bm bm' \<and> block_sz bm' = block_sz bm
     \<and> block_cnt bm' = block_cnt bm \<and> in_memory bm' = in_memory bm
     \<and> (\<forall>c < block_cnt bm. blk bm' c = (if base + i \<le> c \<and> c < base + i + n
                                      then replicate (block_sz bm) 0 else blk bm c))"
proof (induction n arbitrary: i bm)
  case (Suc n)
  let ?b = "base + i" and ?z = "replicate (block_sz bm) 0"
  let ?bm1 = "upd_blk ?b ?z bm"
  have b: "?b < block_cnt bm" using Suc.prems by simp
  have w: "wrap64 (i + base) = ?b" using b Suc.prems(1) by (simp add: wf_bm_def)
  have 1: "wf_bm ?bm1" using Suc.prems(1) b by simp
  have 2: "base + Suc i + n \<le> block_cnt ?bm1" using Suc.prems by simp
  from Suc.IH [OF 1 2] obtain bm' where bm': "zero_blocks base (Suc i) n ?bm1 = Inr ((), bm')"
      "wf_bm bm'" "block_sz bm' = block_sz bm" "block_cnt bm' = block_cnt bm"
      "in_memory bm' = in_memory bm"
      "\<forall>c < block_cnt bm. blk bm' c = (if base + Suc i \<le> c \<and> c < base + Suc i + n
                                     then ?z else blk ?bm1 c)"
    by auto
  have "zero_blocks base i (Suc n) bm = Inr ((), bm')"
    using bm'(1) w b Suc.prems(1) by (simp add: chain_def zero_block_ok)
  moreover have "blk bm' c = (if ?b \<le> c \<and> c < ?b + Suc n then ?z else blk bm c)"
    if c: "c < block_cnt bm" for c
  proof (cases "c = ?b")
    case True
    then show ?thesis using bm'(6) c blk_upd_blk [OF Suc.prems(1) b c, of ?z] by simp
  next
    case False
    then have "Suc ?b \<le> c \<longleftrightarrow> ?b \<le> c" by linarith
    then show ?thesis using bm'(6) c False blk_upd_blk [OF Suc.prems(1) b c, of ?z] by simp
  qed
  ultimately show ?case using bm'(2-5) by blast
qed auto

text \<open>
  The marking loop at round \<open>i\<close>: the bitmap blocks before the current one are full, the
  buffer holds the bits below \<open>i\<close> of the current one, the blocks from it on are still clear.
\<close>

definition init_inv ::
    "nat \<Rightarrow> nat \<Rightarrow> nat \<Rightarrow> nat \<Rightarrow> byte list \<Rightarrow> block_manager \<Rightarrow> bool" where
  "init_inv base m i cur buffer bm \<longleftrightarrow>
     wf_bm bm \<and> bpb bm < 2 ^ 32 \<and> base + m \<le> block_cnt bm
     \<and> cur = base + (i - 1) div bpb bm \<and> length buffer = block_sz bm
     \<and> (\<forall>k < bpb bm. bit_at buffer k \<longleftrightarrow> (cur - base) * bpb bm + k < i)
     \<and> (\<forall>c. base \<le> c \<and> c < cur \<longrightarrow> (\<forall>k < bpb bm. bit_at (blk bm c) k))
     \<and> (\<forall>c. cur < c \<and> c < base + m \<longrightarrow> (\<forall>k < bpb bm. \<not> bit_at (blk bm c) k))"

lemma init_inv_cur:
  assumes "init_inv base m i cur buffer bm" and "i \<le> m * bpb bm" and "0 < m"
  shows "cur < base + m" and "cur < block_cnt bm" and "cur < 2 ^ 32"
proof -
  have inv: "wf_bm bm" "base + m \<le> block_cnt bm" "cur = base + (i - 1) div bpb bm"
    using assms(1) by (simp_all add: init_inv_def)
  have "i - 1 < m * bpb bm"
  proof (cases i)
    case 0
    then show ?thesis using inv(1) assms(3) by simp
  qed (use assms(2) in simp)
  then have "(i - 1) div bpb bm < m" by (rule less_mult_imp_div_less)
  then show "cur < base + m" using inv(3) by simp
  then show "cur < block_cnt bm" using inv(2) by simp
  then show "cur < 2 ^ 32" using inv(1) by (simp add: wf_bm_def)
qed

lemma bitmap_zeroed_on:
  "length buffer = block_sz bm \<Longrightarrow>
   bitmap_zeroed (bitmap_on bm buffer) = Inr (bitmap_on bm (replicate (block_sz bm) 0))"
  by (simp add: bitmap_zeroed_def store_full)

lemma init_step_new:
  assumes inv: "init_inv base m i cur buffer bm" and i: "i < m * bpb bm"
    and new: "base + i div bpb bm \<noteq> cur"
  shows "init_inv base m (Suc i) (base + i div bpb bm)
           (set_bit_at True (replicate (block_sz bm) 0) (i mod bpb bm)) (upd_blk cur buffer bm)"
proof -
  let ?T = "bpb bm" and ?q = "i div bpb bm" and ?bm = "upd_blk cur buffer bm"
  have wf: "wf_bm bm" and cur: "cur = base + (i - 1) div ?T" and len: "length buffer = block_sz bm"
    and le: "base + m \<le> block_cnt bm"
    and buf: "\<And>k. k < ?T \<Longrightarrow> bit_at buffer k \<longleftrightarrow> (cur - base) * ?T + k < i"
    and full: "\<And>c k. base \<le> c \<Longrightarrow> c < cur \<Longrightarrow> k < ?T \<Longrightarrow> bit_at (blk bm c) k"
    and clear: "\<And>c k. cur < c \<Longrightarrow> c < base + m \<Longrightarrow> k < ?T \<Longrightarrow> \<not> bit_at (blk bm c) k"
    using inv by (simp_all add: init_inv_def)
  have T: "0 < ?T" using wf by simp
  have m: "0 < m" using i by (cases m) simp_all
  have "(i - 1) div ?T \<noteq> ?q" using new cur by simp
  then have "i mod ?T = 0 \<and> ?q = Suc ((i - 1) div ?T)"
    using T by (cases i) (auto simp: div_Suc mod_Suc split: if_splits)
  then have i0: "i mod ?T = 0" and q: "?q = Suc ((i - 1) div ?T)" by simp_all
  have qi: "?q * ?T = i" using i0 by (metis add.right_neutral div_mult_mod_eq)
  have curT: "(cur - base) * ?T + ?T = i" using cur q qi by simp
  have cl: "cur < base + m" "cur < block_cnt bm"
    using init_inv_cur [OF inv _ m] i by simp_all
  have blk: "blk ?bm c = (if c = cur then buffer else blk bm c)" if "c < base + m" for c
    using that le wf cl len by (intro blk_upd_blk) simp_all
  have "bit_at (set_bit_at True (replicate (block_sz bm) 0) (i mod ?T)) k \<longleftrightarrow> ?q * ?T + k < Suc i"
    if k: "k < ?T" for k
    using k T i0 qi by (auto simp: bit_set_bit_at bit_at_replicate0)
  moreover have "bit_at (blk ?bm c) k" if "base \<le> c" "c < base + ?q" "k < ?T" for c k
  proof (cases "c = cur")
    case True
    then show ?thesis using that buf curT blk [of c] cl by simp
  next
    case False
    then have "c < cur" using that cur q by simp
    then show ?thesis using that full blk [of c] cl by simp
  qed
  moreover have "\<not> bit_at (blk ?bm c) k" if "base + ?q < c" "c < base + m" "k < ?T" for c k
    using that clear [of c k] blk [of c] cur q by simp
  ultimately show ?thesis
    using wf len cl le inv by (simp add: init_inv_def)
qed

lemma init_step_same:
  assumes inv: "init_inv base m i cur buffer bm" and same: "base + i div bpb bm = cur"
  shows "init_inv base m (Suc i) cur (set_bit_at True buffer (i mod bpb bm)) bm"
proof -
  let ?T = "bpb bm"
  have T: "0 < ?T" and len: "length buffer = block_sz bm"
    using inv by (simp_all add: init_inv_def)
  have q: "cur - base = i div ?T" using same by simp
  have lt: "i mod ?T < ?T" using T by (rule mod_less_divisor)
  have i: "i div ?T * ?T + i mod ?T = i" by (rule div_mult_mod_eq)
  have "bit_at (set_bit_at True buffer (i mod ?T)) k \<longleftrightarrow> (cur - base) * ?T + k < Suc i"
    if k: "k < ?T" for k
  proof -
    have "bit_at buffer k \<longleftrightarrow> (cur - base) * ?T + k < i"
      using inv k by (simp add: init_inv_def)
    moreover have "k = i mod ?T \<longleftrightarrow> i div ?T * ?T + k = i" using i by linarith
    ultimately show ?thesis using k lt len q by (auto simp: bit_set_bit_at)
  qed
  then show ?thesis using inv same by (simp add: init_inv_def)
qed

text \<open>What the constructor leaves behind: bit \<open>j * T + k\<close> is set exactly below \<open>r\<close>.\<close>

definition init_done :: "nat \<Rightarrow> nat \<Rightarrow> nat \<Rightarrow> block_manager \<Rightarrow> block_manager \<Rightarrow> bool" where
  "init_done base m r bm bm' \<longleftrightarrow>
     wf_bm bm' \<and> block_sz bm' = block_sz bm \<and> block_cnt bm' = block_cnt bm
     \<and> in_memory bm' = in_memory bm
     \<and> (\<forall>c < block_cnt bm. c < base \<or> base + m \<le> c \<longrightarrow> blk bm' c = blk bm c)
     \<and> (\<forall>j < m. \<forall>k < bpb bm. bit_at (blk bm' (base + j)) k \<longleftrightarrow> j * bpb bm + k < r)"

lemma init_done_flush:
  assumes inv: "init_inv base m i cur buffer bm" and "i \<le> m * bpb bm" and "0 < m" and i0: "0 < i"
  shows "init_done base m i bm (upd_blk cur buffer bm)"
proof -
  let ?T = "bpb bm" and ?bm = "upd_blk cur buffer bm"
  note cl = init_inv_cur [OF assms(1-3)]
  have I: "wf_bm bm" "length buffer = block_sz bm" "base + m \<le> block_cnt bm"
      "cur = base + (i - 1) div ?T"
    using inv by (simp_all add: init_inv_def)
  have blk: "blk ?bm c = (if c = cur then buffer else blk bm c)" if "c < block_cnt bm" for c
    using that I cl by (simp add: blk_upd_blk)
  have T: "0 < ?T" using I(1) by simp
  let ?q = "(i - 1) div ?T"
  have lo: "?q * ?T < i" and hi: "i \<le> Suc ?q * ?T"
  proof -
    show "?q * ?T < i" using i0 by (metis Suc_pred' div_times_less_eq_dividend le_imp_less_Suc)
    have "i - 1 < Suc ?q * ?T"
      using dividend_less_div_times [OF T, of "i - 1"] by (simp add: add.commute)
    then show "i \<le> Suc ?q * ?T" by linarith
  qed
  have "bit_at (blk ?bm (base + j)) k \<longleftrightarrow> j * ?T + k < i" if j: "j < m" and k: "k < ?T" for j k
  proof (cases "base + j" cur rule: linorder_cases)
    case less
    then have "Suc j \<le> ?q" using I(4) by simp
    then have "Suc j * ?T \<le> ?q * ?T" by (rule mult_le_mono1)
    moreover have "bit_at (blk bm (base + j)) k" using inv less k by (simp add: init_inv_def)
    ultimately show ?thesis using less k lo blk [of "base + j"] cl by simp
  next
    case equal
    then show ?thesis using inv k blk [of "base + j"] cl I(4) by (simp add: init_inv_def)
  next
    case greater
    then have "Suc ?q \<le> j" using I(4) by simp
    then have "Suc ?q * ?T \<le> j * ?T" by (rule mult_le_mono1)
    moreover have "\<not> bit_at (blk bm (base + j)) k" using inv greater j k by (simp add: init_inv_def)
    ultimately show ?thesis using greater hi blk [of "base + j"] I(3) j by simp
  qed
  moreover have "blk ?bm c = blk bm c" if "c < block_cnt bm" "c < base \<or> base + m \<le> c" for c
    using that blk [of c] cl(1) I(4) by auto
  ultimately show ?thesis using I cl by (simp add: init_done_def)
qed

lemma mark_initial_ok:
  "init_inv base m i cur buffer bm \<Longrightarrow> i + n \<le> m * bpb bm \<Longrightarrow> 0 < m \<Longrightarrow> 0 < i + n \<Longrightarrow>
   \<exists>bm'. mark_initial base i n cur buffer bm = Inr ((), bm') \<and> init_done base m (i + n) bm bm'"
proof (induction n arbitrary: i cur buffer bm)
  case 0
  have I: "wf_bm bm" "length buffer = block_sz bm" using "0.prems" by (simp_all add: init_inv_def)
  show ?case
    using init_done_flush [of base m i cur buffer bm] init_inv_cur [of base m i cur buffer bm] "0.prems" I
    by (simp add: chain_def write_block_ok)
next
  case (Suc n)
  let ?T = "bpb bm" and ?h = "base + i div bpb bm"
  have I: "wf_bm bm" "length buffer = block_sz bm" "?T < 2 ^ 32" "base + m \<le> block_cnt bm"
    using Suc.prems(1) by (simp_all add: init_inv_def)
  have im: "i < m * ?T" using Suc.prems(2) by simp
  then have h: "?h < base + m" using less_mult_imp_div_less [OF im] by simp
  then have hb: "?h < block_cnt bm" using I(4) by simp
  have w: "wrap64 (i div ?T + base) = ?h" using hb I(1) by (simp add: wf_bm_def)
  have T: "0 < ?T" using I(1) by simp
  have x: "i mod ?T < ?T" using T by (rule mod_less_divisor)
  have wx: "wrap32 (i mod ?T) = i mod ?T" using less_trans [OF x I(3)] by (rule wrap32_id)
  have tb: "total_bits_per_block bm = ?T"
    using I(3) by (simp add: total_bits_per_block_def block_size_def KBitsPerByte_def mult.commute)
  have bok: "bitmap_ok (bitmap_on bm d)" if "length d = block_sz bm" for d
    using that I(3) by (simp add: bitmap_ok_def bitmap_on_def block_size_def)
  have set: "bitmap_set (bitmap_on bm d) (wrap32 (i mod ?T)) = Inr (bitmap_on bm (set_bit_at True d (i mod ?T)))"
    if "length d = block_sz bm" for d
    using that bok [OF that] x wx by (simp add: bitmap_set_ok)
  show ?case
  proof (cases "?h = cur")
    case True
    have "mark_initial base i (Suc n) cur buffer bm
          = mark_initial base (Suc i) n cur (set_bit_at True buffer (i mod ?T)) bm"
      using True w tb set [OF I(2)] by (simp add: Let_def)
    moreover have "init_inv base m (Suc i) cur (set_bit_at True buffer (i mod ?T)) bm"
      using Suc.prems(1) True by (rule init_step_same)
    ultimately show ?thesis using Suc.IH [of "Suc i"] Suc.prems by simp
  next
    case False
    let ?bm1 = "upd_blk cur buffer bm"
    note cl = init_inv_cur [OF Suc.prems(1) less_imp_le [OF im] Suc.prems(3)]
    note inv1 = init_step_new [OF Suc.prems(1) im False]
    have "mark_initial base i (Suc n) cur buffer bm
          = mark_initial base (Suc i) n ?h (set_bit_at True (replicate (block_sz bm) 0) (i mod ?T)) ?bm1"
      using False w tb cl I set [of "replicate (block_sz bm) 0"]
      by (simp add: Let_def chain_def write_block_ok bitmap_zeroed_on)
    moreover obtain bm' where bm': "mark_initial base (Suc i) n ?h
          (set_bit_at True (replicate (block_sz bm) 0) (i mod ?T)) ?bm1 = Inr ((), bm')"
        "init_done base m (Suc i + n) ?bm1 bm'"
      using Suc.IH [OF inv1] Suc.prems by auto
    moreover have "init_done base m (i + Suc n) bm bm'"
    proof -
      have "blk ?bm1 c = blk bm c" if "c < block_cnt bm" "c < base \<or> base + m \<le> c" for c
        using that cl(1,2) I(1,2) Suc.prems(1) by (auto simp: blk_upd_blk init_inv_def)
      then show ?thesis using bm'(2) by (simp add: init_done_def)
    qed
    ultimately show ?thesis by (intro exI [of _ bm']) simp
  qed
qed

text \<open>The geometry of an allocator for a device, as the constructor computes it.\<close>

definition bitmap_blocks :: "block_manager \<Rightarrow> nat" where
  "bitmap_blocks bm = block_cnt bm div bpb bm + (if block_cnt bm mod bpb bm \<noteq> 0 then 1 else 0)"

definition allocator_for :: "nat \<Rightarrow> block_manager \<Rightarrow> block_allocator" where
  "allocator_for base bm =
     \<lparr>bitmap_block_id = base, bitmap_block_cnt = bitmap_blocks bm,
      last_block_num = block_cnt bm - (bitmap_blocks bm - 1) * bpb bm\<rparr>"

lemma bitmap_blocks_bounds:
  assumes "wf_bm bm" and "0 < block_cnt bm"
  shows "0 < bitmap_blocks bm" and "(bitmap_blocks bm - 1) * bpb bm < block_cnt bm"
    and "block_cnt bm \<le> bitmap_blocks bm * bpb bm"
proof -
  let ?T = "bpb bm" and ?n = "block_cnt bm"
  have T: "0 < ?T" using assms(1) by simp
  have eq: "?n div ?T * ?T + ?n mod ?T = ?n" by (rule div_mult_mod_eq)
  have x: "?n mod ?T < ?T" using T by (rule mod_less_divisor)
  have "0 < bitmap_blocks bm \<and> (bitmap_blocks bm - 1) * ?T < ?n \<and> ?n \<le> bitmap_blocks bm * ?T"
  proof (cases "?n mod ?T = 0")
    case False
    then have m: "bitmap_blocks bm = Suc (?n div ?T)" by (simp add: bitmap_blocks_def)
    have "?n div ?T * ?T < ?n" using eq False by linarith
    moreover have "?n \<le> Suc (?n div ?T) * ?T" using eq x by simp
    ultimately show ?thesis by (simp add: m)
  next
    case True
    then have m: "bitmap_blocks bm = ?n div ?T" by (simp add: bitmap_blocks_def)
    have e: "?n div ?T * ?T = ?n" using eq True by linarith
    then obtain k where k: "?n div ?T = Suc k" using assms(2) by (cases "?n div ?T") simp_all
    then have "k * ?T + ?T = ?n" using e by simp
    then have "k * ?T < ?n" using T by linarith
    then show ?thesis using e k m by simp
  qed
  then show "0 < bitmap_blocks bm" "(bitmap_blocks bm - 1) * bpb bm < block_cnt bm"
    "block_cnt bm \<le> bitmap_blocks bm * bpb bm" by simp_all
qed

lemma alloc_ok_for:
  assumes "wf_bm bm" and "bpb bm < 2 ^ 32" and "0 < block_cnt bm"
    and "base + bitmap_blocks bm \<le> block_cnt bm"
  shows "alloc_ok (allocator_for base bm) bm"
  using assms bitmap_blocks_bounds [OF assms(1,3)] by (simp add: alloc_ok_def allocator_for_def)

lemma new_block_allocator_geometry:
  assumes wf: "wf_bm bm" and T: "bpb bm < 2 ^ 32" and n: "0 < block_cnt bm"
    and fits: "base + bitmap_blocks bm \<le> block_cnt bm"
  shows "new_block_allocator base init bm =
    (if init then chain (zero_blocks base 0 (bitmap_blocks bm)) (\<lambda>_.
                  chain (mark_initial base 0 (base + bitmap_blocks bm) base (replicate (block_sz bm) 0))
                    (\<lambda>_. give (allocator_for base bm))) bm
     else Inr (allocator_for base bm, bm))"
proof -
  let ?m = "bitmap_blocks bm"
  note b = bitmap_blocks_bounds [OF wf n]
  have T0: "0 < bpb bm" using wf by simp
  have tb: "total_bits_per_block bm = bpb bm"
    using T by (simp add: total_bits_per_block_def block_size_def KBitsPerByte_def mult.commute)
  have cnt: "block_cnt bm < 2 ^ 32" using wf by (simp add: wf_bm_def)
  have w: "wrap64 (?m + base) = base + ?m" using fits cnt by simp
  have x: "block_cnt bm mod bpb bm < bpb bm" using T0 by (rule mod_less_divisor)
  have "?m * bpb bm < block_cnt bm + bpb bm"
    using b(1,2) by (cases ?m) simp_all
  then have wm: "wrap64 (?m * bpb bm) = ?m * bpb bm" using cnt T by simp
  have eq: "block_cnt bm div bpb bm * bpb bm + block_cnt bm mod bpb bm = block_cnt bm"
    by (rule div_mult_mod_eq)
  have last: "(if ?m * bpb bm = block_cnt bm then bpb bm else block_cnt bm mod bpb bm)
              = block_cnt bm - (?m - 1) * bpb bm"
  proof (cases "?m * bpb bm = block_cnt bm")
    case True
    then have "block_cnt bm = (?m - 1) * bpb bm + bpb bm" using b(1) by (cases ?m) simp_all
    then show ?thesis using True by simp
  next
    case False
    have "block_cnt bm mod bpb bm \<noteq> 0"
    proof
      assume z: "block_cnt bm mod bpb bm = 0"
      then have "?m = block_cnt bm div bpb bm" by (simp add: bitmap_blocks_def)
      with False eq z show False by simp
    qed
    then have "?m - 1 = block_cnt bm div bpb bm" by (simp add: bitmap_blocks_def)
    then show ?thesis using False eq by simp
  qed
  have le: "(if ?m * bpb bm = block_cnt bm then bpb bm else block_cnt bm mod bpb bm) \<le> bpb bm"
    using x by simp
  have m: "total_blocks bm div bpb bm + (if total_blocks bm mod bpb bm \<noteq> 0 then 1 else 0) = ?m"
    by (simp add: bitmap_blocks_def total_blocks_def)
  show ?thesis
    unfolding new_block_allocator_def Let_def tb m
    unfolding total_blocks_def w wm
    using T0 b(1) fits le last
    by (simp add: allocator_for_def bitmap_zeroed_on fresh_buffer_def block_size_def)
qed

theorem new_block_allocator_ok:
  assumes wf: "wf_bm bm" and T: "bpb bm < 2 ^ 32" and n: "0 < block_cnt bm"
    and fits: "base + bitmap_blocks bm \<le> block_cnt bm"
  shows "\<exists>bm'. new_block_allocator base True bm = Inr (allocator_for base bm, bm')
    \<and> alloc_ok (allocator_for base bm) bm'
    \<and> block_sz bm' = block_sz bm \<and> block_cnt bm' = block_cnt bm
    \<and> (\<forall>c < block_cnt bm. c < base \<or> base + bitmap_blocks bm \<le> c \<longrightarrow> blk bm' c = blk bm c)
    \<and> (\<forall>b < block_cnt bm. used (allocator_for base bm) bm' b \<longleftrightarrow> b < base + bitmap_blocks bm)"
proof -
  let ?m = "bitmap_blocks bm" and ?al = "allocator_for base bm"
  note b = bitmap_blocks_bounds [OF wf n]
  from zero_blocks_ok [OF wf, of base 0 ?m] fits obtain bm1 where bm1:
      "zero_blocks base 0 ?m bm = Inr ((), bm1)" "wf_bm bm1" "block_sz bm1 = block_sz bm"
      "block_cnt bm1 = block_cnt bm" "in_memory bm1 = in_memory bm"
      "\<forall>c < block_cnt bm. blk bm1 c = (if base \<le> c \<and> c < base + ?m
         then replicate (block_sz bm) 0 else blk bm c)"
    by auto
  have inv: "init_inv base ?m 0 base (replicate (block_sz bm) 0) bm1"
    using bm1 T fits by (auto simp: init_inv_def bit_at_replicate0)
  have le: "0 + (base + ?m) \<le> ?m * bpb bm1" using fits b(3) bm1(3) by simp
  from mark_initial_ok [OF inv le b(1)] b(1) obtain bm' where bm':
      "mark_initial base 0 (base + ?m) base (replicate (block_sz bm) 0) bm1 = Inr ((), bm')"
      "init_done base ?m (base + ?m) bm1 bm'"
    by auto
  have D: "wf_bm bm'" "block_sz bm' = block_sz bm" "block_cnt bm' = block_cnt bm"
    using bm'(2) bm1 by (simp_all add: init_done_def)
  have for': "allocator_for base bm' = ?al" using D by (simp add: allocator_for_def bitmap_blocks_def)
  have mb: "bitmap_blocks bm' = ?m" using D by (simp add: bitmap_blocks_def)
  have ok: "alloc_ok ?al bm'"
    using alloc_ok_for [OF D(1), of base] D T n fits by (simp add: for' mb)
  have "new_block_allocator base True bm = Inr (?al, bm')"
    using new_block_allocator_geometry [OF assms, of True] bm1(1) bm'(1) by (simp add: chain_def)
  moreover have "blk bm' c = blk bm c" if "c < block_cnt bm" "c < base \<or> base + ?m \<le> c" for c
    using that bm'(2) bm1 by (auto simp: init_done_def)
  moreover have "used ?al bm' c \<longleftrightarrow> c < base + ?m" if c: "c < block_cnt bm" for c
  proof -
    have c': "c < block_cnt bm'" using c D by simp
    note r = bm_home_range [OF ok c']
    have "c div bpb bm < ?m" "c mod bpb bm < bpb bm"
      using r(1,3) D by (simp_all add: allocator_for_def)
    then have "bit_at (blk bm' (base + c div bpb bm)) (c mod bpb bm) \<longleftrightarrow>
        c div bpb bm * bpb bm + c mod bpb bm < base + ?m"
      using bm'(2) bm1(3) by (simp only: init_done_def)
    moreover have "c div bpb bm * bpb bm + c mod bpb bm = c" by (rule div_mult_mod_eq)
    ultimately show ?thesis by (simp add: used_def bm_home_def allocator_for_def D)
  qed
  ultimately show ?thesis using ok D by blast
qed

subsection \<open>The contract of an allocator\<close>

text \<open>
  What a client may rely on: a set of free ids below a bound; allocation takes the least one
  or reports exhaustion without changing anything; release gives back one that is in use and
  refuses anything else; the count is the size of the set.
\<close>

locale block_store =
  fixes inv :: "'s \<Rightarrow> bool"
    and limit :: "'s \<Rightarrow> nat"
    and free :: "'s \<Rightarrow> nat set"
    and acquire :: "('s, nat chfs_result) exec"
    and release :: "nat \<Rightarrow> ('s, unit chfs_result) exec"
    and count :: "('s, nat) exec"
  assumes free_bound: "inv s \<Longrightarrow> free s \<subseteq> {..<limit s}"
    and acquire_full: "inv s \<Longrightarrow> free s = {} \<Longrightarrow> acquire s = Inr (Err OUT_OF_RESOURCE, s)"
    and acquire_least: "inv s \<Longrightarrow> free s \<noteq> {} \<Longrightarrow>
      \<exists>s'. acquire s = Inr (Ok (Min (free s)), s') \<and> inv s' \<and> limit s' = limit s
           \<and> free s' = free s - {Min (free s)}
           \<and> release (Min (free s)) s' = Inr (Ok (), s)"
    and release_used: "inv s \<Longrightarrow> b < limit s \<Longrightarrow> b \<notin> free s \<Longrightarrow>
      \<exists>s'. release b s = Inr (Ok (), s') \<and> inv s' \<and> limit s' = limit s \<and> free s' = insert b (free s)"
    and release_bad: "inv s \<Longrightarrow> b \<in> free s \<or> limit s \<le> b \<Longrightarrow> release b s = Inr (Err INVALID_ARG, s)"
    and count_free: "inv s \<Longrightarrow> count s = Inr (card (free s), s)"
begin

lemma finite_free: "inv s \<Longrightarrow> finite (free s)"
  using free_bound by (meson finite_lessThan finite_subset)

fun acquire_many :: "nat \<Rightarrow> ('s, nat list chfs_result) exec" where
  "acquire_many 0 = give (Ok [])"
| "acquire_many (Suc n) = chain acquire (\<lambda>r. on_ok r (\<lambda>b.
     chain (acquire_many n) (\<lambda>r'. on_ok r' (\<lambda>bs. give (Ok (b # bs))))))"

fun release_all :: "nat list \<Rightarrow> ('s, unit chfs_result) exec" where
  "release_all [] = give (Ok ())"
| "release_all (b # bs) = chain (release b) (\<lambda>r. on_ok r (\<lambda>_. release_all bs))"

lemma acquire_many_ok:
  "inv s \<Longrightarrow> n \<le> card (free s) \<Longrightarrow>
   \<exists>bs s'. acquire_many n s = Inr (Ok bs, s') \<and> inv s' \<and> limit s' = limit s \<and> length bs = n
     \<and> sorted_wrt (<) bs \<and> set bs \<subseteq> free s \<and> free s' = free s - set bs"
proof (induction n arbitrary: s)
  case (Suc n)
  have fin: "finite (free s)" using Suc.prems(1) by (rule finite_free)
  have ne: "free s \<noteq> {}" using Suc.prems(2) by auto
  from acquire_least [OF Suc.prems(1) ne] obtain s1 where s1:
      "acquire s = Inr (Ok (Min (free s)), s1)" "inv s1" "limit s1 = limit s"
      "free s1 = free s - {Min (free s)}" by blast
  let ?b = "Min (free s)"
  have b: "?b \<in> free s" using fin ne by simp
  have "n \<le> card (free s1)" using Suc.prems(2) s1(4) b fin by simp
  from Suc.IH [OF s1(2) this] obtain bs s' where r:
      "acquire_many n s1 = Inr (Ok bs, s')" "inv s'" "limit s' = limit s1" "length bs = n"
      "sorted_wrt (<) bs" "set bs \<subseteq> free s1" "free s' = free s1 - set bs" by blast
  have "?b < c" if "c \<in> set bs" for c
    using that r(6) s1(4) Min_le [OF fin, of c] by (auto simp: order_less_le)
  then show ?case
    using r s1 b by (intro exI [of _ "?b # bs"] exI [of _ s']) (auto simp: chain_def)
qed simp

lemma release_all_ok:
  "inv s \<Longrightarrow> distinct bs \<Longrightarrow> set bs \<subseteq> {..<limit s} - free s \<Longrightarrow>
   \<exists>s'. release_all bs s = Inr (Ok (), s') \<and> inv s' \<and> limit s' = limit s \<and> free s' = free s \<union> set bs"
proof (induction bs arbitrary: s)
  case (Cons b bs)
  from release_used [OF Cons.prems(1), of b] Cons.prems(3) obtain s1 where s1:
      "release b s = Inr (Ok (), s1)" "inv s1" "limit s1 = limit s" "free s1 = insert b (free s)"
    by auto
  have "set bs \<subseteq> {..<limit s1} - free s1" using Cons.prems(2,3) s1(3,4) by auto
  from Cons.IH [OF s1(2) _ this] Cons.prems(2) obtain s' where
      "release_all bs s1 = Inr (Ok (), s')" "inv s'" "limit s' = limit s1" "free s' = free s1 \<union> set bs"
    by auto
  then show ?case using s1 by (auto simp: chain_def)
qed simp

lemma count_after_acquire:
  assumes "inv s" and "n \<le> card (free s)"
  shows "\<exists>bs s'. acquire_many n s = Inr (Ok bs, s') \<and> count s' = Inr (card (free s) - n, s')"
proof -
  from acquire_many_ok [OF assms] obtain bs s' where r:
      "acquire_many n s = Inr (Ok bs, s')" "inv s'" "length bs = n" "sorted_wrt (<) bs"
      "set bs \<subseteq> free s" "free s' = free s - set bs" by blast
  have "distinct bs" using r(4) by (simp add: strict_sorted_iff)
  then have "card (free s') = card (free s) - n"
    using r(3,5,6) finite_free [OF assms(1)] by (simp add: card_Diff_subset distinct_card)
  then show ?thesis using r(1) count_free [OF r(2)] by auto
qed

end

interpretation ba: block_store "alloc_ok al" block_cnt "free_set al" "allocate al" "deallocate al"
    "free_block_cnt al" for al
proof
  show "free_set al s \<subseteq> {..<block_cnt s}" for al s by (auto simp: free_set_def)
  show "allocate al s = Inr (Err OUT_OF_RESOURCE, s)" if "alloc_ok al s" "free_set al s = {}" for al s
    using that by (rule allocate_full)
  show "\<exists>s'. allocate al s = Inr (Ok (Min (free_set al s)), s') \<and> alloc_ok al s' \<and> block_cnt s' = block_cnt s
      \<and> free_set al s' = free_set al s - {Min (free_set al s)}
      \<and> deallocate al (Min (free_set al s)) s' = Inr (Ok (), s)"
    if ok: "alloc_ok al s" and ne: "free_set al s \<noteq> {}" for al s
  proof -
    define b where "b = Min (free_set al s)"
    have "b \<in> free_set al s" using ne by (simp add: b_def)
    then have "b < block_cnt s" "\<not> used al s b" by (simp_all add: free_set_def)
    then show ?thesis
      using ok allocate_free [OF ok ne] unfolding b_def [symmetric]
      by (simp add: alloc_ok_mark free_set_mark deallocate_eq used_mark mark_undo)
  qed
  show "\<exists>s'. deallocate al b s = Inr (Ok (), s') \<and> alloc_ok al s' \<and> block_cnt s' = block_cnt s
      \<and> free_set al s' = insert b (free_set al s)"
    if "alloc_ok al s" "b < block_cnt s" "b \<notin> free_set al s" for al s b
    using that by (auto simp: deallocate_eq alloc_ok_mark free_set_mark) (simp add: free_set_def)
  show "deallocate al b s = Inr (Err INVALID_ARG, s)"
    if "alloc_ok al s" "b \<in> free_set al s \<or> block_cnt s \<le> b" for al s b
    using that by (auto simp: deallocate_eq free_set_def)
  show "free_block_cnt al s = Inr (card (free_set al s), s)" if "alloc_ok al s" for al s
    using that by (rule free_block_cnt_eq)
qed

text \<open>The bitmap of blocks in use is an indexed store of truth values.\<close>

interpretation use_bits: indexed_store "alloc_ok al" block_cnt "\<lambda>_ _. True" "used al" "\<lambda>b v. mark al v b" for al
  by unfold_locales (auto simp: alloc_ok_mark used_mark)

end
