(* ===== verification/Inode_Manager.thy ===== *)
theory Inode_Manager
  imports Inode Block_Iterator Allocator_Laws
begin

text \<open>
  The inode manager (src/src/include/metadata/manager.h, src/src/metadata/manager.cc). It owns
  the inode table (blocks 1 to \<open>n_table_blocks\<close>, one block id per inode) and, behind it, the
  inode bitmap. Logical inode ids are table indexes plus one.

  Block 0 is the super block. The sizes of the record are fixed at construction; everything
  else is on the device. The heap buffer in which \<open>allocate_inode\<close> builds the inode is not
  initialised: its bytes are the argument \<open>junk\<close>; \<open>now\<close> is \<open>time(0)\<close>.
\<close>

record inode_manager =
  max_inode_supported :: nat
  n_table_blocks :: nat
  n_bitmap_blocks :: nat

definition KInvalidInodeID :: nat where "KInvalidInodeID = 0"

definition RAW_2_LOGIC :: "nat \<Rightarrow> nat" where "RAW_2_LOGIC i = wrap64 (i + 1)"

definition LOGIC_2_RAW :: "nat \<Rightarrow> nat" where "LOGIC_2_RAW i = sub64 i 1"

definition inode_per_block :: "block_manager \<Rightarrow> nat" where
  "inode_per_block bm = block_size bm div 8"

definition table_blocks_for :: "nat \<Rightarrow> nat \<Rightarrow> nat" where
  "table_blocks_for max_inode per_block =
     (let t = max_inode div per_block in if wrap64 (t * per_block) < max_inode then wrap64 (t + 1) else t)"

definition new_inode_manager :: "nat \<Rightarrow> (block_manager, inode_manager) exec" where
  "new_inode_manager max_inode bm =
     (let bits = total_bits_per_block bm;
          ipb = inode_per_block bm
      in if bits = 0 \<or> ipb = 0 then Inl DivByZero
         else let needed0 = max_inode div bits;
                  needed = (if wrap64 (needed0 * bits) < max_inode then wrap64 (needed0 + 1) else needed0);
                  max' = wrap64 (wrap64 (needed * KBitsPerByte) * block_size bm);
                  tables = table_blocks_for max' ipb;
                  im = \<lparr>max_inode_supported = max', n_table_blocks = tables, n_bitmap_blocks = needed\<rparr>
              in chain (zero_blocks 1 0 tables) (\<lambda>_.
                 chain (zero_blocks (1 + tables) 0 needed) (\<lambda>_. give im)) bm)"

definition create_from_block_manager ::
    "nat \<Rightarrow> block_manager \<Rightarrow> inode_manager chfs_result run" where
  "create_from_block_manager max_inode bm =
     (let bits = total_bits_per_block bm;
          ipb = inode_per_block bm
      in if bits = 0 then Inl DivByZero
         else let nb = max_inode div bits
              in if wrap64 (nb * bits) \<noteq> max_inode then Inl VerifyAborted
                 else if ipb = 0 then Inl DivByZero
                 else Inr (Ok \<lparr>max_inode_supported = max_inode,
                             n_table_blocks = table_blocks_for max_inode ipb,
                             n_bitmap_blocks = nb\<rparr>))"

definition get_max_inode_supported :: "inode_manager \<Rightarrow> nat" where
  "get_max_inode_supported im = max_inode_supported im"

definition get_reserved_blocks :: "inode_manager \<Rightarrow> nat" where
  "get_reserved_blocks im = wrap32 (1 + n_table_blocks im + n_bitmap_blocks im)"

subsection \<open>The table\<close>

definition set_table :: "nat \<Rightarrow> nat \<Rightarrow> (block_manager, unit chfs_result) exec" where
  "set_table idx bid bm =
     (let ipb = inode_per_block bm
      in if ipb = 0 then Inl DivByZero
         else chain (write_partial_block (wrap64 (1 + idx div ipb)) (le_bytes 8 bid)
                       (wrap32 ((idx mod ipb) * 8)) 8) (\<lambda>_. give (Ok ())) bm)"

definition im_get :: "nat \<Rightarrow> (block_manager, nat chfs_result) exec" where
  "im_get ino bm =
     (let ipb = inode_per_block bm; raw_id = LOGIC_2_RAW ino
      in if ipb = 0 then Inl DivByZero
         else chain (read_block (wrap64 (1 + raw_id div ipb)) (fresh_buffer bm)) (\<lambda>(_, buffer).
              chain (lift_run (load_checked buffer (8 * (raw_id mod ipb)) 8)) (\<lambda>d.
              give (Ok (le_nat d)))) bm)"

subsection \<open>Allocation and release of inodes\<close>

definition bitmap_range_start :: "inode_manager \<Rightarrow> nat" where
  "bitmap_range_start im = wrap64 (1 + n_table_blocks im)"

definition bitmap_range_end :: "inode_manager \<Rightarrow> nat" where
  "bitmap_range_end im = wrap64 (1 + n_table_blocks im + n_bitmap_blocks im)"

text \<open>The body of \<open>if (free_idx)\<close>: bit \<open>r\<close> of the current bitmap block is free.\<close>

definition take_free_inode ::
    "inode_type \<Rightarrow> nat \<Rightarrow> nat \<Rightarrow> (nat \<Rightarrow> byte) \<Rightarrow> nat \<Rightarrow> block_iterator \<Rightarrow> nat
     \<Rightarrow> (block_manager, nat chfs_result) exec" where
  "take_free_inode t bid now junk count it r bm =
     (let bitmap = bitmap_on bm (value_window it bm)
      in chain (lift_run (bitmap_set bitmap (wrap32 r))) (\<lambda>b.
         chain (flush_cur_block (set_value_window it (bits b) bm)) (\<lambda>res. on_ok res (\<lambda>_.
         chain (lift_run (new_inode t (block_size bm) now)) (\<lambda>h.
         chain (lift_run (flush_to_buffer h (map junk [0..<block_size bm]))) (\<lambda>buffer.
         chain (write_block bid buffer) (\<lambda>_.
         let idx = wrap64 (wrap64 (wrap64 (count * block_size bm) * KBitsPerByte) + r) in
         chain (set_table idx bid) (\<lambda>_. give (Ok (RAW_2_LOGIC idx))))))))) bm)"

text \<open>
  The loop \<open>for (iter; iter.has_next(); iter.next(block_size).unwrap(), count++)\<close>. The fuel is
  one more than the number of bitmap blocks; \<open>NoReturn\<close> is reached only without it.
\<close>

fun allocate_inode_loop ::
    "inode_type \<Rightarrow> nat \<Rightarrow> nat \<Rightarrow> (nat \<Rightarrow> byte) \<Rightarrow> nat \<Rightarrow> nat \<Rightarrow> block_iterator
     \<Rightarrow> (block_manager, nat chfs_result) exec" where
  "allocate_inode_loop t bid now junk 0 count it = crash_with NoReturn"
| "allocate_inode_loop t bid now junk (Suc fuel) count it = chain (reads (\<lambda>bm. bm)) (\<lambda>bm.
     if \<not> has_next it bm then give (Err OUT_OF_RESOURCE)
     else chain (lift_run (find_first_free (bitmap_on bm (value_window it bm)))) (\<lambda>free_idx.
       case free_idx of
         Some r \<Rightarrow> take_free_inode t bid now junk count it r
       | None \<Rightarrow>
           chain (iterator_next (block_size bm) it) (\<lambda>(res, it').
           chain (lift_run (unwrap res)) (\<lambda>_.
           allocate_inode_loop t bid now junk fuel (wrap64 (count + 1)) it'))))"

definition allocate_inode ::
    "inode_manager \<Rightarrow> inode_type \<Rightarrow> nat \<Rightarrow> nat \<Rightarrow> (nat \<Rightarrow> byte)
     \<Rightarrow> (block_manager, nat chfs_result) exec" where
  "allocate_inode im t bid now junk =
     chain (iterator_create (bitmap_range_start im) (bitmap_range_end im)) (\<lambda>iter_res.
     on_ok iter_res (allocate_inode_loop t bid now junk (Suc (n_bitmap_blocks im)) 0))"

fun free_inode_cnt_loop ::
    "nat \<Rightarrow> nat \<Rightarrow> block_iterator \<Rightarrow> (block_manager, nat chfs_result) exec" where
  "free_inode_cnt_loop 0 count it = crash_with NoReturn"
| "free_inode_cnt_loop (Suc fuel) count it = chain (reads (\<lambda>bm. bm)) (\<lambda>bm.
     if \<not> has_next it bm then give (Ok count)
     else chain (lift_run (count_zeros (bitmap_on bm (value_window it bm)))) (\<lambda>n.
          chain (iterator_next (block_size bm) it) (\<lambda>(res, it').
          on_ok res (\<lambda>_. free_inode_cnt_loop fuel (wrap64 (count + n)) it'))))"

definition free_inode_cnt :: "inode_manager \<Rightarrow> (block_manager, nat chfs_result) exec" where
  "free_inode_cnt im =
     chain (iterator_create (bitmap_range_start im) (bitmap_range_end im)) (\<lambda>iter_res.
     on_ok iter_res (free_inode_cnt_loop (Suc (n_bitmap_blocks im)) 0))"

text \<open>\<open>read_inode\<close> fills the caller's buffer and returns the block id of the inode.\<close>

definition read_inode ::
    "inode_manager \<Rightarrow> nat \<Rightarrow> byte list \<Rightarrow> (block_manager, nat chfs_result \<times> byte list) exec" where
  "read_inode im ino buffer =
     (if ino \<ge> sub64 (max_inode_supported im) 1 then give (Err INVALID_ARG, buffer)
      else chain (im_get ino) (\<lambda>block_id. case block_id of
             Err e \<Rightarrow> give (Err e, buffer)
           | Ok b \<Rightarrow>
               if b = KInvalidBlockID then give (Err INVALID_ARG, buffer)
               else chain (read_block b buffer) (\<lambda>(res, buffer'). case res of
                      Err e \<Rightarrow> give (Err e, buffer') | Ok _ \<Rightarrow> give (Ok b, buffer'))))"

text \<open>The cast of a buffer to an inode; a buffer shorter than the header cannot be used as one.\<close>

definition as_inode :: "byte list \<Rightarrow> ('s, 'a) exec \<Rightarrow> ('s, 'a) exec" where
  "as_inode buf k = (if length buf < sizeof_Inode then crash_with OutOfBounds else k)"

definition im_get_attr :: "inode_manager \<Rightarrow> nat \<Rightarrow> (block_manager, file_attr chfs_result) exec" where
  "im_get_attr im ino = chain (reads fresh_buffer) (\<lambda>buffer.
     chain (read_inode im ino buffer) (\<lambda>(res, buf). on_ok res (\<lambda>_.
     as_inode buf (give (Ok (get_attr_of buf))))))"

definition im_get_type :: "inode_manager \<Rightarrow> nat \<Rightarrow> (block_manager, nat chfs_result) exec" where
  "im_get_type im ino = chain (reads fresh_buffer) (\<lambda>buffer.
     chain (read_inode im ino buffer) (\<lambda>(res, buf). on_ok res (\<lambda>_.
     as_inode buf (give (Ok (get_type_code buf))))))"

definition im_get_type_attr ::
    "inode_manager \<Rightarrow> nat \<Rightarrow> (block_manager, (nat \<times> file_attr) chfs_result) exec" where
  "im_get_type_attr im ino = chain (reads fresh_buffer) (\<lambda>buffer.
     chain (read_inode im ino buffer) (\<lambda>(res, buf). on_ok res (\<lambda>_.
     as_inode buf (give (Ok (get_type_code buf, get_attr_of buf))))))"

definition free_inode :: "inode_manager \<Rightarrow> nat \<Rightarrow> (block_manager, unit chfs_result) exec" where
  "free_inode im ino bm =
     (if ino \<ge> sub64 (max_inode_supported im) 1 then Inr (Err INVALID_ARG, bm)
      else let raw_id = LOGIC_2_RAW ino;
               bits_per = total_bits_per_block bm;
               bitmap_id = wrap64 (1 + n_table_blocks im + raw_id div bits_per)
           in chain (set_table raw_id KInvalidBlockID) (\<lambda>_.
              if bits_per = 0 then crash_with DivByZero
              else chain (read_block bitmap_id (fresh_buffer bm)) (\<lambda>(_, buffer).
                   chain (lift_run (bitmap_clear (bitmap_on bm buffer) (wrap32 (raw_id mod bits_per)))) (\<lambda>b.
                   chain (write_block bitmap_id (bits b)) (\<lambda>_. give (Ok ()))))) bm)"

subsection \<open>The abstract table and bitmap\<close>

abbreviation ipb :: "block_manager \<Rightarrow> nat" where
  "ipb bm \<equiv> block_sz bm div 8"

definition table :: "block_manager \<Rightarrow> nat \<Rightarrow> nat" where
  "table bm i = get_le (blk bm (1 + i div ipb bm)) (8 * (i mod ipb bm)) 8"

definition upd_table :: "nat \<Rightarrow> nat \<Rightarrow> block_manager \<Rightarrow> block_manager" where
  "upd_table i bid bm = upd_blk (1 + i div ipb bm)
     (put_le (blk bm (1 + i div ipb bm)) (8 * (i mod ipb bm)) 8 bid) bm"

definition ibit_home :: "inode_manager \<Rightarrow> block_manager \<Rightarrow> nat \<Rightarrow> nat" where
  "ibit_home im bm i = 1 + n_table_blocks im + i div bpb bm"

definition ibit :: "inode_manager \<Rightarrow> block_manager \<Rightarrow> nat \<Rightarrow> bool" where
  "ibit im bm i = bit_at (blk bm (ibit_home im bm i)) (i mod bpb bm)"

definition mark_ino :: "inode_manager \<Rightarrow> bool \<Rightarrow> nat \<Rightarrow> block_manager \<Rightarrow> block_manager" where
  "mark_ino im v i bm =
     upd_blk (ibit_home im bm i) (set_bit_at v (blk bm (ibit_home im bm i)) (i mod bpb bm)) bm"

definition im_end :: "inode_manager \<Rightarrow> nat" where
  "im_end im = 1 + n_table_blocks im + n_bitmap_blocks im"

definition im_ok :: "inode_manager \<Rightarrow> block_manager \<Rightarrow> bool" where
  "im_ok im bm \<longleftrightarrow> wf_bm bm \<and> 52 \<le> block_sz bm \<and> bpb bm < 2 ^ 32 \<and> 0 < n_bitmap_blocks im
     \<and> max_inode_supported im = n_bitmap_blocks im * bpb bm
     \<and> max_inode_supported im \<le> n_table_blocks im * ipb bm
     \<and> im_end im < block_cnt bm"

lemma im_ok_wf [simp]: "im_ok im bm \<Longrightarrow> wf_bm bm"
  by (simp add: im_ok_def)

lemma im_geometry:
  assumes "im_ok im bm"
  shows "0 < ipb bm" and "8 * ipb bm \<le> block_sz bm" and "block_cnt bm < 2 ^ 32"
    and "8 < max_inode_supported im" and "max_inode_supported im < 2 ^ 64"
proof -
  show "0 < ipb bm" "8 * ipb bm \<le> block_sz bm" "block_cnt bm < 2 ^ 32"
    using assms by (simp_all add: im_ok_def wf_bm_def div_greater_zero_iff)
  have a: "0 < n_bitmap_blocks im" "max_inode_supported im = n_bitmap_blocks im * bpb bm" "52 \<le> block_sz bm"
      "n_bitmap_blocks im < block_cnt bm" "bpb bm < 2 ^ 32"
    using assms by (simp_all add: im_ok_def im_end_def)
  have "1 * bpb bm \<le> n_bitmap_blocks im * bpb bm" using a(1) by (intro mult_le_mono1) simp
  then show "8 < max_inode_supported im" using a by linarith
  have "n_bitmap_blocks im * bpb bm < 2 ^ 32 * 2 ^ 32"
    using a \<open>block_cnt bm < 2 ^ 32\<close> by (intro mult_strict_mono) simp_all
  then show "max_inode_supported im < 2 ^ 64" using a(2) by simp
qed

lemma table_home:
  assumes "im_ok im bm" and "i < max_inode_supported im"
  shows "1 + i div ipb bm \<le> n_table_blocks im" and "1 + i div ipb bm < block_cnt bm"
    and "i mod ipb bm < ipb bm" and "8 * (i mod ipb bm) + 8 \<le> block_sz bm"
proof -
  note g = im_geometry [OF assms(1)]
  have "i < n_table_blocks im * ipb bm" using assms by (simp add: im_ok_def)
  then have "i div ipb bm < n_table_blocks im" by (rule less_mult_imp_div_less)
  then show h: "1 + i div ipb bm \<le> n_table_blocks im" by simp
  then show "1 + i div ipb bm < block_cnt bm" using assms(1) by (simp add: im_ok_def im_end_def)
  show m: "i mod ipb bm < ipb bm" using g(1) by (rule mod_less_divisor)
  then show "8 * (i mod ipb bm) + 8 \<le> block_sz bm" using g(2) by linarith
qed

lemma ibit_home_range:
  assumes "im_ok im bm" and "i < max_inode_supported im"
  shows "n_table_blocks im < ibit_home im bm i" and "ibit_home im bm i < im_end im"
    and "ibit_home im bm i < block_cnt bm" and "i mod bpb bm < bpb bm"
proof -
  have T: "0 < bpb bm" using assms(1) by simp
  have "i < n_bitmap_blocks im * bpb bm" using assms by (simp add: im_ok_def)
  then have "i div bpb bm < n_bitmap_blocks im" by (rule less_mult_imp_div_less)
  then show "n_table_blocks im < ibit_home im bm i" "ibit_home im bm i < im_end im"
    by (simp_all add: ibit_home_def im_end_def)
  then show "ibit_home im bm i < block_cnt bm" using assms(1) by (simp add: im_ok_def)
  show "i mod bpb bm < bpb bm" using T by (rule mod_less_divisor)
qed

end
