(* ===== verification/Inode_Table.thy ===== *)
theory Inode_Table
  imports Inode_Manager
begin

text \<open>
  The operations of the inode manager on its abstract table and bitmap (theory Inode_Manager):
  \<open>set_table\<close> and \<open>get\<close> are update and lookup of \<open>table\<close>, \<open>allocate_inode\<close> takes the least
  clear bit of the inode bitmap, \<open>free_inode\<close> clears entry and bit, and the two constructors
  agree on the layout. Table and bitmap are
  instances of the locale \<open>indexed_store\<close>.
\<close>

subsection \<open>Frames\<close>

lemma upd_table_geometry [simp]:
  "block_sz (upd_table i b bm) = block_sz bm" "block_cnt (upd_table i b bm) = block_cnt bm"
  "in_memory (upd_table i b bm) = in_memory bm"
  by (simp_all add: upd_table_def)

lemma mark_ino_geometry [simp]:
  "block_sz (mark_ino im v i bm) = block_sz bm" "block_cnt (mark_ino im v i bm) = block_cnt bm"
  "in_memory (mark_ino im v i bm) = in_memory bm"
  by (simp_all add: mark_ino_def)

lemma im_ok_cong:
  "im_ok im bm \<Longrightarrow> wf_bm bm' \<Longrightarrow> block_sz bm' = block_sz bm \<Longrightarrow> block_cnt bm' = block_cnt bm \<Longrightarrow>
   im_ok im bm'"
  by (simp add: im_ok_def)

lemma table_cong:
  "im_ok im bm \<Longrightarrow> i < max_inode_supported im \<Longrightarrow> block_sz bm' = block_sz bm \<Longrightarrow>
   (\<And>c. c < im_end im \<Longrightarrow> blk bm' c = blk bm c) \<Longrightarrow> table bm' i = table bm i"
  using table_home(1) [of im bm i] by (simp add: table_def im_end_def)

lemma ibit_cong:
  "im_ok im bm \<Longrightarrow> i < max_inode_supported im \<Longrightarrow> block_sz bm' = block_sz bm \<Longrightarrow>
   (\<And>c. c < im_end im \<Longrightarrow> blk bm' c = blk bm c) \<Longrightarrow> ibit im bm' i = ibit im bm i"
  using ibit_home_range(2) [of im bm i] by (simp add: ibit_def ibit_home_def)

lemma wf_upd_table [chfs_wf]:
  "im_ok im bm \<Longrightarrow> i < max_inode_supported im \<Longrightarrow> wf_bm (upd_table i b bm)"
  using table_home [of im bm i] by (simp add: upd_table_def)

lemma im_ok_upd_table [chfs_wf]:
  "im_ok im bm \<Longrightarrow> i < max_inode_supported im \<Longrightarrow> im_ok im (upd_table i b bm)"
  by (rule im_ok_cong) (simp_all add: wf_upd_table)

lemma wf_mark_ino [chfs_wf]:
  "im_ok im bm \<Longrightarrow> i < max_inode_supported im \<Longrightarrow> wf_bm (mark_ino im v i bm)"
  using ibit_home_range [of im bm i] by (simp add: mark_ino_def)

lemma im_ok_mark_ino [chfs_wf]:
  "im_ok im bm \<Longrightarrow> i < max_inode_supported im \<Longrightarrow> im_ok im (mark_ino im v i bm)"
  by (rule im_ok_cong) (simp_all add: wf_mark_ino)

lemma blk_upd_table:
  "im_ok im bm \<Longrightarrow> i < max_inode_supported im \<Longrightarrow> c < block_cnt bm \<Longrightarrow>
   blk (upd_table i b bm) c = (if c = 1 + i div ipb bm
     then put_le (blk bm c) (8 * (i mod ipb bm)) 8 b else blk bm c)"
  using table_home [of im bm i] by (auto simp: upd_table_def blk_upd_blk)

lemma blk_upd_table_outside:
  "im_ok im bm \<Longrightarrow> i < max_inode_supported im \<Longrightarrow> c < block_cnt bm \<Longrightarrow>
   c = 0 \<or> n_table_blocks im < c \<Longrightarrow> blk (upd_table i b bm) c = blk bm c"
  using table_home(1) [of im bm i] by (auto simp: blk_upd_table)

lemma blk_mark_ino:
  "im_ok im bm \<Longrightarrow> i < max_inode_supported im \<Longrightarrow> c < block_cnt bm \<Longrightarrow>
   blk (mark_ino im v i bm) c = (if c = ibit_home im bm i
     then set_bit_at v (blk bm c) (i mod bpb bm) else blk bm c)"
  using ibit_home_range [of im bm i] by (auto simp: mark_ino_def blk_upd_blk)

lemma blk_mark_ino_outside:
  "im_ok im bm \<Longrightarrow> i < max_inode_supported im \<Longrightarrow> c < block_cnt bm \<Longrightarrow>
   c \<le> n_table_blocks im \<or> im_end im \<le> c \<Longrightarrow> blk (mark_ino im v i bm) c = blk bm c"
  using ibit_home_range(1,2) [of im bm i] by (auto simp: blk_mark_ino)

lemma table_upd_table [chfs_mem]:
  assumes ok: "im_ok im bm" and i: "i < max_inode_supported im" and j: "j < max_inode_supported im"
    and b: "b < 2 ^ 64"
  shows "table (upd_table i b bm) j = (if j = i then b else table bm j)"
proof (cases "j div ipb bm = i div ipb bm")
  case False
  then have "j \<noteq> i" by auto
  with False show ?thesis
    using blk_upd_table [OF ok i] table_home(2) [OF ok j] by (simp add: table_def)
next
  case True
  then have eq: "j = i \<longleftrightarrow> j mod ipb bm = i mod ipb bm" by (metis div_mult_mod_eq)
  have home: "blk (upd_table i b bm) (1 + i div ipb bm)
      = put_le (blk bm (1 + i div ipb bm)) (8 * (i mod ipb bm)) 8 b"
    using blk_upd_table [OF ok i] table_home(2) [OF ok i] by simp
  have len: "length (blk bm (1 + i div ipb bm)) = block_sz bm"
    using ok table_home(2) [OF ok i] by simp
  show ?thesis
  proof (cases "j = i")
    case True
    then show ?thesis
      using home len table_home(4) [OF ok i] b by (simp add: table_def get_put_same)
  next
    case False
    then have "8 * (j mod ipb bm) + 8 \<le> 8 * (i mod ipb bm) \<or> 8 * (i mod ipb bm) + 8 \<le> 8 * (j mod ipb bm)"
      using eq by linarith
    then show ?thesis
      using home len True False table_home(4) [OF ok i] table_home(4) [OF ok j]
      by (simp add: table_def get_put_other)
  qed
qed

lemma ibit_upd_table [chfs_mem]:
  assumes ok: "im_ok im bm" and "i < max_inode_supported im" and j: "j < max_inode_supported im"
  shows "ibit im (upd_table i b bm) j = ibit im bm j"
  using ibit_home_range [OF ok j] blk_upd_table_outside [OF assms(1,2)]
  by (simp add: ibit_def ibit_home_def)

lemma table_mark_ino [chfs_mem]:
  assumes ok: "im_ok im bm" and "i < max_inode_supported im" and j: "j < max_inode_supported im"
  shows "table (mark_ino im v i bm) j = table bm j"
  using table_home [OF ok j] blk_mark_ino_outside [OF assms(1,2)] by (simp add: table_def)

lemma ibit_mark_ino [chfs_mem]:
  assumes ok: "im_ok im bm" and i: "i < max_inode_supported im" and j: "j < max_inode_supported im"
  shows "ibit im (mark_ino im v i bm) j = (if j = i then v else ibit im bm j)"
proof (cases "j div bpb bm = i div bpb bm")
  case False
  then have "j \<noteq> i" by auto
  with False show ?thesis
    using blk_mark_ino [OF ok i] ibit_home_range(3) [OF ok j] by (simp add: ibit_def ibit_home_def)
next
  case True
  then have eq: "j = i \<longleftrightarrow> j mod bpb bm = i mod bpb bm" by (metis div_mult_mod_eq)
  have home: "ibit_home im bm j = ibit_home im bm i" using True by (simp add: ibit_home_def)
  have len: "length (blk bm (ibit_home im bm i)) = block_sz bm"
    using ok ibit_home_range(3) [OF ok i] by simp
  have "ibit_home im (mark_ino im v i bm) j = ibit_home im bm i"
    using home by (simp add: ibit_home_def)
  then show ?thesis
    using home len eq blk_mark_ino [OF ok i] ibit_home_range [OF ok i] ibit_home_range [OF ok j]
    by (simp add: ibit_def bit_set_bit_at)
qed

lemma table_less: "im_ok im bm \<Longrightarrow> i < max_inode_supported im \<Longrightarrow> table bm i < 2 ^ 64"
  unfolding table_def using table_home [of im bm i] by (intro get_le8_less) simp

subsection \<open>Update and lookup\<close>

lemma inode_per_block_eq [simp]: "inode_per_block bm = ipb bm"
  by (simp add: inode_per_block_def block_size_def)

lemma im_tbpb: "im_ok im bm \<Longrightarrow> total_bits_per_block bm = bpb bm"
  by (simp add: im_ok_def total_bits_per_block_def block_size_def KBitsPerByte_def mult.commute)

lemma im_bitmap_on: "im_ok im bm \<Longrightarrow> length d = block_sz bm \<Longrightarrow> bitmap_ok (bitmap_on bm d)"
  by (simp add: im_ok_def bitmap_ok_def bitmap_on_def block_size_def)

lemma set_table_ok [chfs_exec]:
  assumes ok: "im_ok im bm" and i: "i < max_inode_supported im"
  shows "set_table i b bm = Inr (Ok (), upd_table i b bm)"
proof -
  note h = table_home [OF ok i] and g = im_geometry [OF ok]
  have "1 + i div ipb bm < 2 ^ 64" using h(2) g(3) by simp
  moreover have "wrap32 (8 * (i mod ipb bm)) = 8 * (i mod ipb bm)"
    using h(4) ok by (simp add: im_ok_def)
  moreover have "write_partial_block (1 + i div ipb bm) (le_bytes 8 b) (8 * (i mod ipb bm)) 8 bm
      = Inr (Ok (), upd_table i b bm)"
    using ok h(2,4) by (subst write_partial_block_ok) (simp_all add: upd_table_def put_le_def)
  ultimately show ?thesis
    using g(1) unfolding set_table_def Let_def by (simp add: chain_def mult.commute)
qed

lemma raw_id: "0 < ino \<Longrightarrow> ino < 2 ^ 64 \<Longrightarrow> LOGIC_2_RAW ino = ino - 1"
  by (simp add: LOGIC_2_RAW_def sub64_id)

lemma im_get_ok [chfs_exec]:
  assumes ok: "im_ok im bm" and "0 < ino" and "ino \<le> max_inode_supported im"
  shows "im_get ino bm = Inr (Ok (table bm (ino - 1)), bm)"
proof -
  have i: "ino - 1 < max_inode_supported im" using assms by linarith
  note h = table_home [OF ok i] and g = im_geometry [OF ok]
  have "ino < 2 ^ 64" using assms(3) g(5) by simp
  with assms(2) have r: "LOGIC_2_RAW ino = ino - 1" by (rule raw_id)
  have "wrap64 (1 + (ino - 1) div ipb bm) = 1 + (ino - 1) div ipb bm"
    using h(2) g(3) by simp
  then show ?thesis
    using g(1) h(2,4) ok unfolding im_get_def Let_def r
    by (simp add: chain_def read_block_ok table_def get_le_def)
qed

subsection \<open>Reading an inode\<close>

lemma readable_id: "im_ok im bm \<Longrightarrow> ino < sub64 (max_inode_supported im) 1 \<longleftrightarrow> ino < max_inode_supported im - 1"
  using im_geometry [of im bm] by (simp add: sub64_id)

lemma read_inode_rejects:
  "im_ok im bm \<Longrightarrow> max_inode_supported im - 1 \<le> ino \<Longrightarrow> read_inode im ino buffer bm = Inr ((Err INVALID_ARG, buffer), bm)"
  using readable_id [of im bm ino] by (simp add: read_inode_def)

lemma read_inode_ok [chfs_exec]:
  assumes ok: "im_ok im bm" and "0 < ino" and "ino < max_inode_supported im - 1"
    and "length buffer = block_sz bm"
    and "table bm (ino - 1) < block_cnt bm"
  shows "read_inode im ino buffer bm =
    (if table bm (ino - 1) = 0 then Inr ((Err INVALID_ARG, buffer), bm)
     else Inr ((Ok (table bm (ino - 1)), blk bm (table bm (ino - 1))), bm))"
  using readable_id [OF ok, of ino] assms
  by (simp add: read_inode_def chain_def im_get_ok read_block_ok KInvalidBlockID_def)

lemma read_inode_unallocated:
  assumes ok: "im_ok im bm" and "0 < ino" and "ino < max_inode_supported im - 1"
    and "table bm (ino - 1) = 0"
  shows "read_inode im ino buffer bm = Inr ((Err INVALID_ARG, buffer), bm)"
  using readable_id [OF ok, of ino] assms
  by (simp add: read_inode_def chain_def im_get_ok KInvalidBlockID_def)

subsection \<open>Allocation\<close>

definition ino_free :: "inode_manager \<Rightarrow> block_manager \<Rightarrow> nat set" where
  "ino_free im bm = {i. i < max_inode_supported im \<and> \<not> ibit im bm i}"

lemma finite_ino_free [simp]: "finite (ino_free im bm)"
  by (simp add: ino_free_def)

text \<open>The device after an inode buffer went to block \<open>bid\<close> and slot \<open>i\<close> of table and bitmap.\<close>

definition put_inode :: "inode_manager \<Rightarrow> nat \<Rightarrow> nat \<Rightarrow> byte list \<Rightarrow> block_manager \<Rightarrow> block_manager" where
  "put_inode im i bid buf bm = upd_table i bid (upd_blk bid buf (mark_ino im True i bm))"

definition fresh_inode :: "nat \<Rightarrow> inode_type \<Rightarrow> nat \<Rightarrow> byte list \<Rightarrow> bool" where
  "fresh_inode bs t now buf \<longleftrightarrow> ino_ok bs buf \<and> get_type_code buf = type_code t
     \<and> get_attr_of buf = \<lparr>atime = now, mtime = now, ctime = now, fsize = 0\<rparr>
     \<and> (\<forall>j < nslots bs. slot buf j = 0)"

lemma find_shift:
  assumes "\<And>k. k < n \<Longrightarrow> P (a + k) = bit_at d k"
  shows "find (\<lambda>i. \<not> P i) [a..<a + n] = map_option (\<lambda>k. a + k) (first_clear d 0 n)"
proof -
  have "[a..<a + n] = map (\<lambda>k. a + k) [0..<n]" by (rule nth_equalityI) simp_all
  moreover have "find ((\<lambda>i. \<not> P i) \<circ> (\<lambda>k. a + k)) [0..<n] = find (\<lambda>k. \<not> bit_at d k) [0..<n]"
    by (rule find_cong_set) (simp add: assms)
  ultimately show ?thesis by (simp add: find_map first_clear_def)
qed

lemma im_range:
  assumes "im_ok im bm"
  shows "bitmap_range_start im = 1 + n_table_blocks im" and "bitmap_range_end im = im_end im"
    and "bitmap_range_start im \<le> im_end im" and "im_end im < block_cnt bm"
proof -
  have "im_end im < 2 ^ 64" using assms by (simp add: im_ok_def wf_bm_def)
  then show "bitmap_range_start im = 1 + n_table_blocks im" "bitmap_range_end im = im_end im"
    "bitmap_range_start im \<le> im_end im"
    by (simp_all add: bitmap_range_start_def bitmap_range_end_def im_end_def)
  show "im_end im < block_cnt bm" using assms by (simp add: im_ok_def)
qed

lemma ibit_in_block:
  "k < bpb bm \<Longrightarrow> ibit im bm (c * bpb bm + k) = bit_at (blk bm (1 + n_table_blocks im + c)) k"
  by (simp add: ibit_def ibit_home_def)

lemma inode_bits_split:
  assumes "im_ok im bm" and "c + Suc n = n_bitmap_blocks im"
  shows "[c * bpb bm..<max_inode_supported im]
       = [c * bpb bm..<c * bpb bm + bpb bm] @ [Suc c * bpb bm..<max_inode_supported im]"
proof -
  have "Suc c * bpb bm \<le> n_bitmap_blocks im * bpb bm" using assms(2) by (intro mult_le_mono1) simp
  then have le: "c * bpb bm + bpb bm \<le> max_inode_supported im"
    using assms(1) by (simp add: im_ok_def add.commute)
  then obtain r where "max_inode_supported im = (c * bpb bm + bpb bm) + r" by (auto simp: le_iff_add)
  then show ?thesis
    using upt_add_eq_append [of "c * bpb bm" "c * bpb bm + bpb bm" r] by (simp add: add.commute)
qed

lemma at_block_window:
  "wf_bm bm \<Longrightarrow> at_block it s e k bm \<Longrightarrow> value_window it bm = blk bm (s + k)"
  "wf_bm bm \<Longrightarrow> at_block it s e k bm \<Longrightarrow> length d = block_sz bm \<Longrightarrow> s + k < e \<Longrightarrow>
   flush_cur_block (set_value_window it d bm) bm = Inr (Ok (), upd_blk (s + k) d bm)"
  using at_block_range [of bm it s e k]
  by (simp_all add: at_block_def value_window_def set_value_window_def flush_cur_block_def
      write_block_ok wf_bm_def)

text \<open>One successful round of the loop.\<close>

lemma allocate_inode_hit:
  assumes ok: "im_ok im bm" and at: "at_block it (1 + n_table_blocks im) (im_end im) c bm"
    and c: "c < n_bitmap_blocks im" and r: "r < bpb bm" and i_def: "i = c * bpb bm + r"
    and bid: "bid < block_cnt bm" and now: "now < 2 ^ 64"
  shows "\<exists>buf. fresh_inode (block_sz bm) t now buf
    \<and> take_free_inode t bid now junk c it r bm
       = Inr (Ok (i + 1), put_inode im i bid buf bm)"
proof -
  let ?d = "blk bm (1 + n_table_blocks im + c)" and ?bs = "block_sz bm"
  have wf: "wf_bm bm" and bs: "52 \<le> ?bs" "8 * ?bs < 2 ^ 32" and T: "0 < bpb bm"
    using ok by (simp_all add: im_ok_def)
  note rg = im_range [OF ok] and g = im_geometry [OF ok]
  have ce: "1 + n_table_blocks im + c < im_end im" using c by (simp add: im_end_def)
  have "Suc c * bpb bm \<le> n_bitmap_blocks im * bpb bm" using c by (intro mult_le_mono1) simp
  then have i: "i < max_inode_supported im" using r ok by (simp add: im_ok_def i_def)
  have "i div bpb bm = c" and im: "i mod bpb bm = r" using r T unfolding i_def by simp_all
  then have home: "ibit_home im bm i = 1 + n_table_blocks im + c" by (simp add: ibit_home_def)
  have w: "value_window it bm = ?d" using at_block_window(1) [OF wf at] by simp
  have len: "length ?d = ?bs" using wf rg(4) ce by simp
  have r32: "wrap32 r = r" using r bs by simp
  have set: "bitmap_set (bitmap_on bm ?d) r = Inr (bitmap_on bm (set_bit_at True ?d r))"
    using bitmap_set_ok [OF im_bitmap_on [OF ok len]] r by simp
  have "mark_ino im True i bm = upd_blk (1 + n_table_blocks im + c) (set_bit_at True ?d r) bm"
    unfolding mark_ino_def home im ..
  then have flush: "flush_cur_block (set_value_window it (set_bit_at True ?d r) bm) bm
      = Inr (Ok (), mark_ino im True i bm)"
    using at_block_window(2) [OF wf at, of "set_bit_at True ?d r"] len ce by simp
  let ?bm = "mark_ino im True i bm"
  have wf1: "wf_bm ?bm" using ok i by (rule wf_mark_ino)
  from new_inode_ok [OF bs now, of "map junk [0..<?bs]" t] obtain h buf where buf:
      "new_inode t ?bs now = Inr h" "flush_to_buffer h (map junk [0..<?bs]) = Inr buf"
      "fresh_inode ?bs t now buf" by (auto simp: fresh_inode_def)
  have lbuf: "length buf = ?bs" using buf(3) by (simp add: fresh_inode_def ino_ok_def)
  have wr: "write_block bid buf ?bm = Inr (Ok (), upd_blk bid buf ?bm)"
    using wf1 bid lbuf by (simp add: write_block_ok)
  have ok2: "im_ok im (upd_blk bid buf ?bm)"
    by (rule im_ok_cong [OF ok]) (use wf1 bid lbuf in simp_all)
  have "c * ?bs * 8 \<le> i" by (simp add: ac_simps i_def)
  then have "wrap64 (wrap64 (wrap64 (c * ?bs) * 8) + r) = c * ?bs * 8 + r"
    using i g(5) i_def by (simp add: ac_simps)
  then have idx: "wrap64 (wrap64 (wrap64 (c * ?bs) * KBitsPerByte) + r) = i"
    by (simp add: KBitsPerByte_def i_def ac_simps)
  have i1: "RAW_2_LOGIC i = i + 1" using i g(5) by (simp add: RAW_2_LOGIC_def)
  have st: "set_table i bid (upd_blk bid buf ?bm) = Inr (Ok (), put_inode im i bid buf bm)"
    using set_table_ok [OF ok2 i, of bid] by (simp add: put_inode_def)
  show ?thesis
    unfolding take_free_inode_def
    by (intro exI [of _ buf] conjI buf(3))
      (simp only: w r32 block_size_def chain_simps chain_def set flush buf(1,2) wr st idx i1 Let_def
        bitmap_on_sel on_ok_simps exec_simps sum.case prod.case)
qed

definition alloc_inode_spec ::
    "inode_manager \<Rightarrow> inode_type \<Rightarrow> nat \<Rightarrow> nat \<Rightarrow> block_manager \<Rightarrow> nat option
     \<Rightarrow> (nat chfs_result \<times> block_manager) run \<Rightarrow> bool" where
  "alloc_inode_spec im t bid now bm found out = (case found of
     None \<Rightarrow> out = Inr (Err OUT_OF_RESOURCE, bm)
   | Some i \<Rightarrow> \<exists>buf. fresh_inode (block_sz bm) t now buf
       \<and> out = Inr (Ok (i + 1), put_inode im i bid buf bm))"

lemma allocate_inode_loop_ok:
  assumes ok: "im_ok im bm" and bid: "bid < block_cnt bm" and now: "now < 2 ^ 64"
  shows "c + n = n_bitmap_blocks im \<Longrightarrow> at_block it (1 + n_table_blocks im) (im_end im) c bm \<Longrightarrow>
    alloc_inode_spec im t bid now bm (find (\<lambda>i. \<not> ibit im bm i) [c * bpb bm..<max_inode_supported im])
      (allocate_inode_loop t bid now junk (Suc n) c it bm)"
proof (induction n arbitrary: c it)
  case 0
  have "\<not> has_next it bm" using has_next_iff [OF _ "0.prems"(2)] ok "0.prems"(1) by (simp add: im_end_def)
  moreover have "max_inode_supported im = c * bpb bm" using ok "0.prems"(1) by (simp add: im_ok_def)
  ultimately show ?case by (simp add: alloc_inode_spec_def)
next
  case (Suc n)
  let ?d = "blk bm (1 + n_table_blocks im + c)"
  have wf: "wf_bm bm" using ok by simp
  have c: "c < n_bitmap_blocks im" "1 + n_table_blocks im + c < im_end im"
    using Suc.prems(1) by (simp_all add: im_end_def)
  have hn: "has_next it bm" using has_next_iff [OF wf Suc.prems(2)] c by simp
  have w: "value_window it bm = ?d" using at_block_window(1) [OF wf Suc.prems(2)] by simp
  have len: "length ?d = block_sz bm" using wf im_range(4) [OF ok] c by simp
  have search: "find_first_free (bitmap_on bm ?d) = Inr (first_clear ?d 0 (bpb bm))"
    using find_first_free_ok [OF im_bitmap_on [OF ok len]] by simp
  have fnd: "find (\<lambda>i. \<not> ibit im bm i) [c * bpb bm..<c * bpb bm + bpb bm]
      = map_option (\<lambda>k. c * bpb bm + k) (first_clear ?d 0 (bpb bm))"
    by (rule find_shift) (rule ibit_in_block)
  note split = inode_bits_split [OF ok Suc.prems(1)]
  show ?case
  proof (cases "first_clear ?d 0 (bpb bm)")
    case None
    from iterator_next_ok [OF wf Suc.prems(2) c(2)] obtain it' where it':
        "iterator_next (block_sz bm) it bm = Inr ((Ok (), it'), bm)"
        "at_block it' (1 + n_table_blocks im) (im_end im) (Suc c) bm" by blast
    have "c < 2 ^ 32" using c im_range(4) [OF ok] im_geometry(3) [OF ok] by simp
    then have "wrap64 (c + 1) = Suc c" by simp
    then have "allocate_inode_loop t bid now junk (Suc (Suc n)) c it bm
        = allocate_inode_loop t bid now junk (Suc n) (Suc c) it' bm"
      using hn w search None it'(1) 
      by (subst allocate_inode_loop.simps) (simp add: chain_def block_size_def del: allocate_inode_loop.simps)
    moreover have "Suc c + n = n_bitmap_blocks im" using Suc.prems(1) by simp
    ultimately show ?thesis
      using Suc.IH [of "Suc c" it'] it'(2) None
      by (simp only: split find_append fnd) simp
  next
    case (Some r)
    then have r: "r < bpb bm" by (simp add: first_clear_Some_iff)
    show ?thesis
      using allocate_inode_hit [OF ok Suc.prems(2) c(1) r refl bid now, of t junk] hn search Some w
      unfolding split find_append fnd
      by (simp add: alloc_inode_spec_def)
  qed
qed

lemma allocate_inode_eq:
  assumes ok: "im_ok im bm" and bid: "bid < block_cnt bm" and now: "now < 2 ^ 64"
  shows "alloc_inode_spec im t bid now bm (find (\<lambda>i. \<not> ibit im bm i) [0..<max_inode_supported im])
    (allocate_inode im t bid now junk bm)"
proof -
  note rg = im_range [OF ok]
  have wf: "wf_bm bm" using ok by simp
  from iterator_create_ok [OF wf rg(3,4)] obtain it where it:
      "iterator_create (bitmap_range_start im) (im_end im) bm = Inr (Ok it, bm)"
      "at_block it (1 + n_table_blocks im) (im_end im) 0 bm" using rg(1) by auto
  then show ?thesis
    using allocate_inode_loop_ok [OF assms, of 0 "n_bitmap_blocks im" it t junk]
    by (simp add: allocate_inode_def rg(2) chain_def del: allocate_inode_loop.simps)
qed

lemma ino_free_find:
  "find (\<lambda>i. \<not> ibit im bm i) [0..<max_inode_supported im]
   = (if ino_free im bm = {} then None else Some (Min (ino_free im bm)))"
proof (cases "ino_free im bm = {}")
  case True
  then have "find (\<lambda>i. \<not> ibit im bm i) [0..<max_inode_supported im] = None"
    by (auto simp: find_None_iff ino_free_def)
  then show ?thesis using True by simp
next
  case False
  define m where "m = Min (ino_free im bm)"
  have m: "m \<in> ino_free im bm" using False by (simp add: m_def)
  have least: "m \<le> j" if "j \<in> ino_free im bm" for j using that by (simp add: m_def)
  have "ibit im bm j" if "j < m" for j
    using least [of j] m that by (auto simp: ino_free_def)
  then have "find (\<lambda>i. \<not> ibit im bm i) [0..<max_inode_supported im] = Some m"
    using m unfolding find_upt_least by (simp add: ino_free_def)
  then show ?thesis using False by (simp add: m_def)
qed

lemma allocate_inode_cases:
  assumes "im_ok im bm" and "bid < block_cnt bm" and "now < 2 ^ 64"
  obtains (full) "ino_free im bm = {}"
      and "allocate_inode im t bid now junk bm = Inr (Err OUT_OF_RESOURCE, bm)"
  | (found) i buf where "i \<in> ino_free im bm" and "\<And>j. j \<in> ino_free im bm \<Longrightarrow> i \<le> j"
      and "fresh_inode (block_sz bm) t now buf"
      and "allocate_inode im t bid now junk bm = Inr (Ok (i + 1), put_inode im i bid buf bm)"
proof (cases "ino_free im bm = {}")
  case True
  then show ?thesis
    using allocate_inode_eq [OF assms, of t junk] full by (simp add: ino_free_find alloc_inode_spec_def)
next
  case False
  define m where "m = Min (ino_free im bm)"
  have "m \<in> ino_free im bm" "\<And>j. j \<in> ino_free im bm \<Longrightarrow> m \<le> j" using False by (simp_all add: m_def)
  moreover have "alloc_inode_spec im t bid now bm (Some m) (allocate_inode im t bid now junk bm)"
    using allocate_inode_eq [OF assms, of t junk] False by (simp add: ino_free_find m_def)
  ultimately show ?thesis using found by (auto simp: alloc_inode_spec_def)
qed

lemma put_inode_geometry [simp]:
  "block_sz (put_inode im i bid buf bm) = block_sz bm" "block_cnt (put_inode im i bid buf bm) = block_cnt bm"
  "in_memory (put_inode im i bid buf bm) = in_memory bm"
  by (simp_all add: put_inode_def)

lemma im_ok_upd_blk [chfs_wf]:
  "im_ok im bm \<Longrightarrow> b < block_cnt bm \<Longrightarrow> length d = block_sz bm \<Longrightarrow> im_ok im (upd_blk b d bm)"
  by (rule im_ok_cong [of im bm]) simp_all

lemma outside_tables [chfs_mem]:
  assumes ok: "im_ok im bm" and j: "j < max_inode_supported im" and b: "im_end im \<le> b" "b < block_cnt bm"
    and d: "length d = block_sz bm"
  shows "table (upd_blk b d bm) j = table bm j" and "ibit im (upd_blk b d bm) j = ibit im bm j"
proof -
  have "blk (upd_blk b d bm) c = blk bm c" if "c < im_end im" for c
    using that ok b d im_range(4) [OF ok] by (simp add: blk_upd_blk)
  then show "table (upd_blk b d bm) j = table bm j" "ibit im (upd_blk b d bm) j = ibit im bm j"
    using table_cong [OF ok j, of "upd_blk b d bm"] ibit_cong [OF ok j, of "upd_blk b d bm"] by simp_all
qed

lemma put_inode_ok:
  assumes ok: "im_ok im bm" and i: "i < max_inode_supported im" and bid: "im_end im \<le> bid" "bid < block_cnt bm"
    and buf: "length buf = block_sz bm"
  shows "im_ok im (put_inode im i bid buf bm)"
    and "c < block_cnt bm \<Longrightarrow> im_end im \<le> c \<or> c = 0 \<Longrightarrow>
         blk (put_inode im i bid buf bm) c = (if c = bid then buf else blk bm c)"
    and "j < max_inode_supported im \<Longrightarrow>
         table (put_inode im i bid buf bm) j = (if j = i then bid else table bm j)"
    and "j < max_inode_supported im \<Longrightarrow>
         ibit im (put_inode im i bid buf bm) j = (if j = i then True else ibit im bm j)"
proof -
  let ?m = "mark_ino im True i bm" and ?w = "upd_blk bid buf (mark_ino im True i bm)"
  have m: "im_ok im ?m" using ok i by (rule im_ok_mark_ino)
  have w: "im_ok im ?w" using m bid buf by (simp add: im_ok_upd_blk)
  have b64: "bid < 2 ^ 64" using bid(2) im_geometry(3) [OF ok] by simp
  show "im_ok im (put_inode im i bid buf bm)" using w i by (simp add: put_inode_def im_ok_upd_table)
  show "blk (put_inode im i bid buf bm) c = (if c = bid then buf else blk bm c)"
    if "c < block_cnt bm" "im_end im \<le> c \<or> c = 0"
  proof -
    have "blk (put_inode im i bid buf bm) c = blk ?w c"
      using that blk_upd_table_outside [OF w i, of c] by (auto simp: put_inode_def im_end_def)
    also have "\<dots> = (if c = bid then buf else blk ?m c)"
      using that bid buf m by (simp add: blk_upd_blk)
    also have "blk ?m c = blk bm c" using that blk_mark_ino_outside [OF ok i] by auto
    finally show ?thesis .
  qed
  show "table (put_inode im i bid buf bm) j = (if j = i then bid else table bm j)"
    if j: "j < max_inode_supported im"
    using table_upd_table [OF w i j b64] outside_tables(1) [OF m j bid(1)] table_mark_ino [OF ok i j] bid buf
    by (simp add: put_inode_def)
  show "ibit im (put_inode im i bid buf bm) j = (if j = i then True else ibit im bm j)"
    if j: "j < max_inode_supported im"
    using ibit_upd_table [OF w i j] outside_tables(2) [OF m j bid(1)] ibit_mark_ino [OF ok i j] bid buf
    by (simp add: put_inode_def)
qed

subsection \<open>Release\<close>

definition drop_inode :: "inode_manager \<Rightarrow> nat \<Rightarrow> block_manager \<Rightarrow> block_manager" where
  "drop_inode im i bm = mark_ino im False i (upd_table i 0 bm)"

lemma free_inode_ok [chfs_exec]:
  assumes ok: "im_ok im bm" and "0 < ino" and "ino < max_inode_supported im - 1"
  shows "free_inode im ino bm = Inr (Ok (), drop_inode im (ino - 1) bm)"
proof -
  define i where "i = ino - 1"
  let ?bm = "upd_table i 0 bm"
  have i: "i < max_inode_supported im" using assms unfolding i_def by linarith
  note g = im_geometry [OF ok]
  have "ino < 2 ^ 64" using assms(3) g(5) by simp
  with assms(2) have r: "LOGIC_2_RAW ino = i" unfolding i_def by (rule raw_id)
  have id: "\<not> sub64 (max_inode_supported im) 1 \<le> ino"
    using readable_id [OF ok, of ino] assms(3) by simp
  have ok1: "im_ok im ?bm" using ok i by (rule im_ok_upd_table)
  note h = ibit_home_range [OF ok1 i]
  have home: "wrap64 (1 + n_table_blocks im + i div bpb bm) = ibit_home im ?bm i"
    using h(3) g(3) by (simp add: ibit_home_def)
  have T: "0 < bpb bm" using ok by simp
  have len: "length (blk ?bm (ibit_home im ?bm i)) = block_sz bm" using ok1 h(3) by simp
  have m: "i mod bpb bm < bpb bm" using T by (rule mod_less_divisor)
  moreover have "bpb bm < 2 ^ 32" using ok unfolding im_ok_def by blast
  ultimately have m32: "wrap32 (i mod bpb bm) = i mod bpb bm" by (intro wrap32_id) linarith
  have st: "set_table i KInvalidBlockID bm = Inr (Ok (), ?bm)"
    using set_table_ok [OF ok i] by (simp add: KInvalidBlockID_def)
  have clr: "bitmap_clear (bitmap_on bm (blk ?bm (ibit_home im ?bm i))) (i mod bpb bm)
      = Inr (bitmap_on bm (set_bit_at False (blk ?bm (ibit_home im ?bm i)) (i mod bpb bm)))"
    using bitmap_clear_ok [OF im_bitmap_on [OF ok len]] m by simp
  have wf1: "wf_bm ?bm" using ok1 by simp
  have rd: "read_block (ibit_home im ?bm i) (fresh_buffer bm) ?bm
      = Inr ((Ok (), blk ?bm (ibit_home im ?bm i)), ?bm)"
    using wf1 h(3) by (simp add: read_block_ok)
  have wr: "write_block (ibit_home im ?bm i) (set_bit_at False (blk ?bm (ibit_home im ?bm i)) (i mod bpb bm)) ?bm
      = Inr (Ok (), drop_inode im i bm)"
    using wf1 h(3) len by (simp add: write_block_ok drop_inode_def mark_ino_def)
  show ?thesis
    using id T
    unfolding free_inode_def Let_def r i_def [symmetric] im_tbpb [OF ok] home
    by (simp add: chain_def st rd m32 clr wr)
qed

lemma free_inode_rejects:
  "im_ok im bm \<Longrightarrow> max_inode_supported im - 1 \<le> ino \<Longrightarrow> free_inode im ino bm = Inr (Err INVALID_ARG, bm)"
  using readable_id [of im bm ino] by (simp add: free_inode_def)

lemma drop_inode_geometry [simp]:
  "block_sz (drop_inode im i bm) = block_sz bm" "block_cnt (drop_inode im i bm) = block_cnt bm"
  "in_memory (drop_inode im i bm) = in_memory bm"
  by (simp_all add: drop_inode_def)

lemma drop_inode_ok:
  assumes ok: "im_ok im bm" and i: "i < max_inode_supported im"
  shows "im_ok im (drop_inode im i bm)"
    and "c < block_cnt bm \<Longrightarrow> im_end im \<le> c \<or> c = 0 \<Longrightarrow> blk (drop_inode im i bm) c = blk bm c"
    and "j < max_inode_supported im \<Longrightarrow> table (drop_inode im i bm) j = (if j = i then 0 else table bm j)"
    and "j < max_inode_supported im \<Longrightarrow> ibit im (drop_inode im i bm) j = (if j = i then False else ibit im bm j)"
proof -
  have t: "im_ok im (upd_table i 0 bm)" using ok i by (rule im_ok_upd_table)
  show "im_ok im (drop_inode im i bm)" using t i by (simp add: drop_inode_def im_ok_mark_ino)
  show "blk (drop_inode im i bm) c = blk bm c" if "c < block_cnt bm" "im_end im \<le> c \<or> c = 0"
    using that blk_mark_ino_outside [OF t i, of c False] blk_upd_table_outside [OF ok i, of c 0]
    by (auto simp: drop_inode_def im_end_def)
  show "table (drop_inode im i bm) j = (if j = i then 0 else table bm j)" if j: "j < max_inode_supported im"
    using table_mark_ino [OF t i j] table_upd_table [OF ok i j, of 0] by (simp add: drop_inode_def)
  show "ibit im (drop_inode im i bm) j = (if j = i then False else ibit im bm j)"
    if j: "j < max_inode_supported im"
    using ibit_mark_ino [OF t i j, of False] ibit_upd_table [OF ok i j, of 0] by (simp add: drop_inode_def)
qed

subsection \<open>Counting\<close>

lemma clear_bits_shift:
  assumes "\<And>k. k < n \<Longrightarrow> P (a + k) = bit_at d k"
  shows "card {i. a \<le> i \<and> i < a + n \<and> \<not> P i} = card (clear_bits d n)"
proof -
  have "{i. a \<le> i \<and> i < a + n \<and> \<not> P i} = (\<lambda>k. a + k) ` clear_bits d n"
  proof (intro set_eqI iffI)
    fix i assume "i \<in> {i. a \<le> i \<and> i < a + n \<and> \<not> P i}"
    then have "i = a + (i - a)" "i - a < n" "\<not> P i" by auto
    then have "i - a \<in> clear_bits d n" using assms [of "i - a"] by (simp add: clear_bits_def)
    with \<open>i = a + (i - a)\<close> show "i \<in> (\<lambda>k. a + k) ` clear_bits d n" by (rule image_eqI)
  qed (auto simp: clear_bits_def assms)
  then show ?thesis by (simp add: card_image)
qed

lemma free_inode_cnt_loop_ok:
  assumes ok: "im_ok im bm"
  shows "c + n = n_bitmap_blocks im \<Longrightarrow> at_block it (1 + n_table_blocks im) (im_end im) c bm \<Longrightarrow>
    free_inode_cnt_loop (Suc n) (card {i. i < c * bpb bm \<and> \<not> ibit im bm i}) it bm
    = Inr (Ok (card (ino_free im bm)), bm)"
proof (induction n arbitrary: c it)
  case 0
  have "\<not> has_next it bm" using has_next_iff [OF _ "0.prems"(2)] ok "0.prems"(1) by (simp add: im_end_def)
  moreover have "max_inode_supported im = c * bpb bm" using ok "0.prems"(1) by (simp add: im_ok_def)
  ultimately show ?case by (simp add: ino_free_def)
next
  case (Suc n)
  let ?d = "blk bm (1 + n_table_blocks im + c)" and ?F = "\<lambda>c. {i. i < c * bpb bm \<and> \<not> ibit im bm i}"
  let ?N = "{i. c * bpb bm \<le> i \<and> i < c * bpb bm + bpb bm \<and> \<not> ibit im bm i}"
  have wf: "wf_bm bm" using ok by simp
  have c: "c < n_bitmap_blocks im" "1 + n_table_blocks im + c < im_end im"
    using Suc.prems(1) by (simp_all add: im_end_def)
  have hn: "has_next it bm" using has_next_iff [OF wf Suc.prems(2)] c by simp
  have w: "value_window it bm = ?d" using at_block_window(1) [OF wf Suc.prems(2)] by simp
  have len: "length ?d = block_sz bm" using wf im_range(4) [OF ok] c by simp
  have cz: "count_zeros (bitmap_on bm ?d) = Inr (card (clear_bits ?d (bpb bm)))"
    using count_zeros_ok [OF im_bitmap_on [OF ok len]] by simp
  have N: "card ?N = card (clear_bits ?d (bpb bm))"
    by (rule clear_bits_shift) (rule ibit_in_block)
  have "?F (Suc c) = ?F c \<union> ?N" "?F c \<inter> ?N = {}" by auto
  then have F: "card (?F (Suc c)) = card (?F c) + card (clear_bits ?d (bpb bm))"
    by (simp only: N [symmetric]) (rule card_Un_disjoint, simp_all)
  have "card (?F (Suc c)) \<le> card {..<Suc c * bpb bm}" by (rule card_mono) auto
  moreover have "Suc c * bpb bm \<le> n_bitmap_blocks im * bpb bm" using c(1) by (intro mult_le_mono1) simp
  moreover have "n_bitmap_blocks im * bpb bm < 2 ^ 64"
    using im_geometry(5) [OF ok] ok unfolding im_ok_def by metis
  ultimately have "card (?F (Suc c)) < 2 ^ 64" unfolding card_lessThan by linarith
  then have sum: "wrap64 (card (?F c) + card (clear_bits ?d (bpb bm))) = card (?F (Suc c))"
    by (simp only: F wrap64_id)
  from iterator_next_ok [OF wf Suc.prems(2) c(2)] obtain it' where it':
      "iterator_next (block_sz bm) it bm = Inr ((Ok (), it'), bm)"
      "at_block it' (1 + n_table_blocks im) (im_end im) (Suc c) bm" by blast
  have "free_inode_cnt_loop (Suc (Suc n)) (card (?F c)) it bm
      = free_inode_cnt_loop (Suc n) (card (?F (Suc c))) it' bm"
    using hn w it'(1) cz sum
    by (subst free_inode_cnt_loop.simps)
      (simp add: chain_def block_size_def del: free_inode_cnt_loop.simps mult_Suc)
  moreover have "Suc c + n = n_bitmap_blocks im" using Suc.prems(1) by simp
  ultimately show ?case using Suc.IH [OF _ it'(2)] by simp
qed

lemma free_inode_cnt_ok [chfs_exec]:
  assumes ok: "im_ok im bm"
  shows "free_inode_cnt im bm = Inr (Ok (card (ino_free im bm)), bm)"
proof -
  note rg = im_range [OF ok]
  have wf: "wf_bm bm" using ok by simp
  from iterator_create_ok [OF wf rg(3,4)] obtain it where it:
      "iterator_create (bitmap_range_start im) (im_end im) bm = Inr (Ok it, bm)"
      "at_block it (1 + n_table_blocks im) (im_end im) 0 bm" using rg(1) by auto
  then show ?thesis
    using free_inode_cnt_loop_ok [OF ok, of 0 "n_bitmap_blocks im" it]
    by (simp add: free_inode_cnt_def rg(2) chain_def del: free_inode_cnt_loop.simps)
qed

subsection \<open>The table, the inode bitmap and the pointers of an inode as indexed stores\<close>

interpretation tbl: indexed_store "im_ok im" "\<lambda>_. max_inode_supported im" "\<lambda>_. fits_u64" table upd_table for im
  by unfold_locales (auto simp: im_ok_upd_table table_upd_table fits_u64_def)

interpretation ino_bits: indexed_store "im_ok im" "\<lambda>_. max_inode_supported im" "\<lambda>_ _. True" "ibit im"
    "\<lambda>i v. mark_ino im v i" for im
  by unfold_locales (auto simp: im_ok_mark_ino ibit_mark_ino)

subsection \<open>A sequence of table entries\<close>

fun set_entries :: "(nat \<times> nat) list \<Rightarrow> (block_manager, unit chfs_result) exec" where
  "set_entries [] = give (Ok ())"
| "set_entries ((i, b) # ws) = chain (set_table i b) (\<lambda>res. on_ok res (\<lambda>_. set_entries ws))"

lemma set_entries_eq [chfs_exec]:
  "im_ok im bm \<Longrightarrow> tbl.puts_fit im bm ws \<Longrightarrow> set_entries ws bm = Inr (Ok (), tbl.put_all ws bm)"
  by (induction ws arbitrary: bm)
    (auto simp: chain_def set_table_ok tbl.puts_fit_put im_ok_upd_table)

end
