(* ===== verification/Inode_Setup.thy ===== *)
theory Inode_Setup
  imports Inode_Table
begin

text \<open>
  Construction of the inode manager. \<open>manager_for bm n\<close> is the layout for \<open>n\<close> requested inodes:
  \<open>new_inode_manager\<close> computes it and leaves an empty table and bitmap, and
  \<open>create_from_block_manager\<close> computes it again from the rounded number of inodes. At the end
  the lookup of inode id 0.
\<close>

definition bitmap_blocks_for :: "block_manager \<Rightarrow> nat \<Rightarrow> nat" where
  "bitmap_blocks_for bm n = n div bpb bm + (if n div bpb bm * bpb bm < n then 1 else 0)"

definition manager_for :: "block_manager \<Rightarrow> nat \<Rightarrow> inode_manager" where
  "manager_for bm n =
     (let nb = bitmap_blocks_for bm n; m = nb * bpb bm
      in \<lparr>max_inode_supported = m,
          n_table_blocks = m div ipb bm + (if m div ipb bm * ipb bm < m then 1 else 0),
          n_bitmap_blocks = nb\<rparr>)"

lemma round_up:
  assumes "0 < (k::nat)"
  shows "n \<le> (n div k + (if n div k * k < n then 1 else 0)) * k"
    and "0 < n \<Longrightarrow> 0 < n div k + (if n div k * k < n then 1 else 0)"
proof -
  have eq: "n div k * k + n mod k = n" by (rule div_mult_mod_eq)
  have m: "n mod k < k" using assms by (rule mod_less_divisor)
  show "n \<le> (n div k + (if n div k * k < n then 1 else 0)) * k" 
  proof (cases "n div k * k < n")
    case True
    have "n < n div k * k + k" using eq m by linarith
    then show ?thesis using True by simp
  next
    case False
    then show ?thesis by simp
  qed
  show "0 < n div k + (if n div k * k < n then 1 else 0)" if "0 < n"
    using eq that by (cases "n div k = 0") auto
qed

lemma manager_for_sel [simp]:
  "n_bitmap_blocks (manager_for bm n) = bitmap_blocks_for bm n"
  "max_inode_supported (manager_for bm n) = bitmap_blocks_for bm n * bpb bm"
  by (simp_all add: manager_for_def Let_def)

lemma manager_for_ok:
  assumes "wf_bm bm" and "52 \<le> block_sz bm" and "bpb bm < 2 ^ 32" and "0 < n"
    and "im_end (manager_for bm n) < block_cnt bm"
  shows "im_ok (manager_for bm n) bm" and "n \<le> max_inode_supported (manager_for bm n)"
proof -
  have T: "0 < bpb bm" and P: "0 < ipb bm" using assms(1,2) by (simp_all add: div_greater_zero_iff)
  show "im_ok (manager_for bm n) bm"
    using assms round_up(2) [OF T assms(4)] round_up(1) [OF P]
    unfolding im_ok_def manager_for_sel
    by (simp add: manager_for_def Let_def bitmap_blocks_for_def)
  show "n \<le> max_inode_supported (manager_for bm n)"
    using round_up(1) [OF T, of n] by (simp only: manager_for_sel bitmap_blocks_for_def)
qed

lemma table_blocks_for_eq:
  assumes "0 < p" and "m < 2 ^ 63"
  shows "table_blocks_for m p = m div p + (if m div p * p < m then 1 else 0)"
proof -
  have "m div p * p \<le> m" "m div p \<le> m" by (simp_all add: div_le_dividend)
  moreover have "m div p + 1 \<le> 2 ^ 63" using calculation(2) assms(2) by linarith
  ultimately have "m div p * p < 2 ^ 64" "m div p + 1 < 2 ^ 64"
    using assms(2) by (meson below_63, simp)
  then show ?thesis by (simp add: table_blocks_for_def Let_def)
qed

lemma max_inodes_less:
  assumes ok: "im_ok im bm"
  shows "max_inode_supported im < 2 ^ 63"
proof -
  have bs: "8 * ipb bm \<le> block_sz bm" "bpb bm < 2 ^ 32" using im_geometry(2) [OF ok] ok
    by (simp_all add: im_ok_def)
  have "max_inode_supported im \<le> n_table_blocks im * ipb bm" "n_table_blocks im < 2 ^ 32"
    using ok by (simp_all add: im_ok_def im_end_def wf_bm_def)
  moreover have "n_table_blocks im * ipb bm \<le> 2 ^ 32 * 2 ^ 30"
    using bs calculation(2) by (intro mult_le_mono) simp_all
  ultimately show ?thesis by simp
qed

lemma new_inode_manager_geometry:
  assumes "wf_bm bm" and "52 \<le> block_sz bm" and "bpb bm < 2 ^ 32" and "0 < n" and "n < 2 ^ 64"
    and "im_end (manager_for bm n) < block_cnt bm"
  shows "new_inode_manager n bm =
    chain (zero_blocks 1 0 (n_table_blocks (manager_for bm n))) (\<lambda>_.
    chain (zero_blocks (1 + n_table_blocks (manager_for bm n)) 0 (n_bitmap_blocks (manager_for bm n)))
      (\<lambda>_. give (manager_for bm n))) bm"
proof -
  let ?im = "manager_for bm n" and ?nb = "bitmap_blocks_for bm n"
  have ok: "im_ok ?im bm" using assms(1-4,6) by (rule manager_for_ok)
  have T: "0 < bpb bm" and P: "0 < ipb bm" using assms(1,2) by (simp_all add: div_greater_zero_iff)
  have "?nb < 2 ^ 32" using ok by (simp add: im_ok_def im_end_def wf_bm_def)
  then have "n div bpb bm + 1 < 2 ^ 64" by (simp add: bitmap_blocks_for_def)
  moreover have "n div bpb bm * bpb bm < 2 ^ 64"
    using div_times_less_eq_dividend [of n "bpb bm"] assms(5) by linarith
  ultimately have nb: "(if wrap64 (n div bpb bm * bpb bm) < n then wrap64 (n div bpb bm + 1) else n div bpb bm) = ?nb"
    unfolding bitmap_blocks_for_def by (simp only: wrap64_id) auto
  have m63: "?nb * bpb bm < 2 ^ 63" using max_inodes_less [OF ok] by simp
  moreover have "?nb * 8 \<le> ?nb * bpb bm" using assms(2) by (intro mult_le_mono2) simp
  ultimately have "?nb * 8 < 2 ^ 64" by (meson below_63)
  then have m: "wrap64 (wrap64 (?nb * KBitsPerByte) * block_size bm) = ?nb * bpb bm"
    using m63 by (simp add: KBitsPerByte_def block_size_def mult.assoc)
  have t: "table_blocks_for (?nb * bpb bm) (ipb bm) = n_table_blocks ?im"
    using table_blocks_for_eq [OF P m63] by (simp add: manager_for_def Let_def)
  have im: "\<lparr>max_inode_supported = ?nb * bpb bm, n_table_blocks = n_table_blocks ?im, n_bitmap_blocks = ?nb\<rparr> = ?im"
    by (simp add: manager_for_def Let_def)
  have ne: "\<not> (bpb bm = 0 \<or> ipb bm = 0)" using T P by simp
  show ?thesis
    unfolding new_inode_manager_def Let_def inode_per_block_eq im_tbpb [OF ok] if_not_P [OF ne] nb m t im
      manager_for_sel ..
qed

lemma new_inode_manager_ok:
  assumes wf: "wf_bm bm" and bs: "52 \<le> block_sz bm" and T: "bpb bm < 2 ^ 32" and n: "0 < n" "n < 2 ^ 64"
    and fits: "im_end (manager_for bm n) < block_cnt bm"
  shows "\<exists>bm'. new_inode_manager n bm = Inr (manager_for bm n, bm') \<and> im_ok (manager_for bm n) bm'
    \<and> block_sz bm' = block_sz bm \<and> block_cnt bm' = block_cnt bm \<and> in_memory bm' = in_memory bm
    \<and> (\<forall>i < max_inode_supported (manager_for bm n). table bm' i = 0 \<and> \<not> ibit (manager_for bm n) bm' i)
    \<and> (\<forall>c < block_cnt bm. c = 0 \<or> im_end (manager_for bm n) \<le> c \<longrightarrow> blk bm' c = blk bm c)"
proof -
  let ?im = "manager_for bm n"
  let ?t = "n_table_blocks ?im" and ?nb = "n_bitmap_blocks ?im" and ?z = "replicate (block_sz bm) (0::byte)"
  have e: "1 + ?t + ?nb < block_cnt bm" using fits by (simp only: im_end_def)
  from zero_blocks_ok [OF wf, of 1 0 ?t] e obtain bm1 where b1:
      "zero_blocks 1 0 ?t bm = Inr ((), bm1)" "wf_bm bm1" "block_sz bm1 = block_sz bm"
      "block_cnt bm1 = block_cnt bm" "in_memory bm1 = in_memory bm"
      "\<And>c. c < block_cnt bm \<Longrightarrow> blk bm1 c = (if 1 \<le> c \<and> c < 1 + ?t then ?z else blk bm c)"
    by auto
  from zero_blocks_ok [OF b1(2), of "1 + ?t" 0 ?nb] e b1(4) obtain bm' where b2:
      "zero_blocks (1 + ?t) 0 ?nb bm1 = Inr ((), bm')" "wf_bm bm'" "block_sz bm' = block_sz bm"
      "block_cnt bm' = block_cnt bm" "in_memory bm' = in_memory bm"
      "\<And>c. c < block_cnt bm \<Longrightarrow> blk bm' c = (if 1 + ?t \<le> c \<and> c < 1 + ?t + ?nb then ?z else blk bm1 c)"
    using b1(3-5) by auto
  have ok: "im_ok ?im bm" using wf bs T n(1) fits by (rule manager_for_ok)
  then have ok': "im_ok ?im bm'" using b2(2-4) by (rule im_ok_cong)
  have zero: "blk bm' c = ?z" if "1 \<le> c" "c < 1 + ?t + ?nb" for c
    using that e b1(6) b2(6) by auto
  have "table bm' i = 0 \<and> \<not> ibit ?im bm' i" if i: "i < max_inode_supported ?im" for i
  proof
    note h = table_home [OF ok' i] and g = ibit_home_range [OF ok' i]
    have "blk bm' (1 + i div ipb bm') = ?z" using h(1) by (intro zero) simp_all
    moreover have "get_le ?z off 8 = 0" for off by (simp add: get_le_def load_def)
    ultimately show "table bm' i = 0" by (simp add: table_def)
    have "blk bm' (ibit_home ?im bm' i) = ?z" using g(1,2) by (intro zero) (simp_all add: im_end_def)
    then show "\<not> ibit ?im bm' i" using g(4) b2(3) by (simp add: ibit_def bit_at_replicate0)
  qed
  moreover have "blk bm' c = blk bm c" if "c < block_cnt bm" "c = 0 \<or> im_end ?im \<le> c" for c
    using that b1(6) b2(6) by (auto simp: im_end_def)
  moreover have "new_inode_manager n bm = Inr (?im, bm')"
    using new_inode_manager_geometry [OF wf bs T n fits] b1(1) b2(1) by (simp add: chain_def)
  ultimately show ?thesis using ok' b2 by blast
qed

text \<open>Opening an existing system computes the layout the constructor chose.\<close>

lemma create_from_block_manager_ok:
  assumes ok: "im_ok (manager_for bm n) bm"
  shows "create_from_block_manager (max_inode_supported (manager_for bm n)) bm = Inr (Ok (manager_for bm n))"
proof -
  let ?nb = "bitmap_blocks_for bm n"
  have T: "0 < bpb bm" using ok by simp
  have P: "0 < ipb bm" using im_geometry(1) [OF ok] .
  have m63: "?nb * bpb bm < 2 ^ 63" using max_inodes_less [OF ok] by simp
  have d: "?nb * bpb bm div bpb bm = ?nb" using T by simp
  have t: "table_blocks_for (?nb * bpb bm) (ipb bm) = n_table_blocks (manager_for bm n)"
    using table_blocks_for_eq [OF P m63] by (simp add: manager_for_def Let_def)
  have w: "wrap64 (?nb * bpb bm) = ?nb * bpb bm" using m63 by simp
  show ?thesis
    unfolding create_from_block_manager_def Let_def im_tbpb [OF ok] inode_per_block_eq manager_for_sel d t w
    using T P by (simp add: manager_for_def Let_def)
qed

lemma create_from_block_manager_rejects:
  assumes "wf_bm bm" and "bpb bm < 2 ^ 32" and "n < 2 ^ 64" and "n mod bpb bm \<noteq> 0"
  shows "create_from_block_manager n bm = Inl VerifyAborted"
proof -
  have tb: "total_bits_per_block bm = bpb bm"
    using assms(2) by (simp add: total_bits_per_block_def block_size_def KBitsPerByte_def mult.commute)
  have "n div bpb bm * bpb bm < 2 ^ 64"
    using div_times_less_eq_dividend [of n "bpb bm"] assms(3) by (rule le_less_trans)
  then have "wrap64 (n div bpb bm * bpb bm) = n div bpb bm * bpb bm" by (rule wrap64_id)
  moreover have "n div bpb bm * bpb bm \<noteq> n" using assms(4) by (metis mod_mult_self2_is_0 mult.commute)
  moreover have "bpb bm \<noteq> 0" using assms(1) by (simp add: wf_bm_def)
  ultimately show ?thesis
    unfolding create_from_block_manager_def Let_def tb by simp
qed

subsection \<open>Inode id 0\<close>

text \<open>
  \<open>LOGIC_2_RAW(0)\<close> is the largest 64-bit number. With a power of two as block size its table
  block is a multiple of 2^64 bytes away: the lookup of id 0 reads the super block.
\<close>

lemma im_get_zero:
  assumes wf: "wf_bm bm" and cnt: "0 < block_cnt bm" and p: "block_sz bm = 2 ^ k" and k: "6 \<le> k"
  shows "im_get 0 bm = Inr (Ok (get_le (blk bm 0) (block_sz bm - 8) 8), bm)"
proof -
  have "(2::nat) ^ k < 2 ^ 32" using wf p by (simp only: wf_bm_def)
  then have k32: "k < 32" by (rule power_less_imp_less_exp [rotated]) simp
  define j where "j = k - 3"
  have j: "k = Suc (Suc (Suc j))" "3 \<le> j" using k by (simp_all add: j_def)
  have ip: "ipb bm = 2 ^ j" using p j(1) by simp
  have j61: "j \<le> 61" using j k32 by simp
  have raw: "LOGIC_2_RAW 0 = 2 ^ 64 - 1" by (simp add: LOGIC_2_RAW_def sub64_def wrap64_def)
  have pow: "(2::nat) ^ 64 = 2 ^ (64 - j) * 2 ^ j" using j61 by (simp add: power_add [symmetric])
  have one: "1 \<le> (2::nat) ^ j" by simp
  have top: "(2::nat) ^ 64 - 1 = (2 ^ (64 - j) - 1) * 2 ^ j + (2 ^ j - 1)"
  proof -
    have "a * b - 1 = (a - 1) * b + (b - 1)" if "1 \<le> a" "1 \<le> b" for a b :: nat
      using that by (cases a; cases b) simp_all
    from this [of "2 ^ (64 - j)" "2 ^ j"] show ?thesis unfolding pow by simp
  qed
  then have d: "((2::nat) ^ 64 - 1) div 2 ^ j = 2 ^ (64 - j) - 1" and m: "((2::nat) ^ 64 - 1) mod 2 ^ j = 2 ^ j - 1"
  proof -
    have "(a * b + (b - 1)) div b = a \<and> (a * b + (b - 1)) mod b = b - 1" if "0 < b" for a b :: nat
    proof -
      define c where "c = b - 1"
      then have "c < b" using that by simp
      then show ?thesis unfolding c_def [symmetric] by simp
    qed
    then show "((2::nat) ^ 64 - 1) div 2 ^ j = 2 ^ (64 - j) - 1" "((2::nat) ^ 64 - 1) mod 2 ^ j = 2 ^ j - 1"
      unfolding top by simp_all
  qed
  have "(2::nat) ^ (64 - j) < 2 ^ 64" using j(2) j61 by (intro power_strict_increasing) simp_all
  then have b: "wrap64 (1 + (2 ^ 64 - 1) div 2 ^ j) = 2 ^ (64 - j)" by (simp only: d) simp
  have "(2::nat) ^ (64 - j) * 2 ^ k = 2 ^ 64 * 8"
    using j j61 by (simp add: pow power_add [symmetric])
  then have "block_addr bm (2 ^ (64 - j)) = block_addr bm 0"
    by (simp add: block_addr_def p wrap64_def)
  then have rd: "read_block (2 ^ (64 - j)) (fresh_buffer bm) bm = Inr ((Ok (), blk bm 0), bm)"
    using block_id_alias [of bm "2 ^ (64 - j)" 0] read_block_ok [OF wf cnt] by simp
  have "8 * (2 ^ j - 1) = block_sz bm - (8::nat)" using p j(1) by (simp add: diff_mult_distrib2)
  then have off: "8 * (2 ^ j - 1) = block_sz bm - 8" .
  have bs: "8 \<le> block_sz bm" using p j(1) by simp
  have ld: "load_checked (blk bm 0) (block_sz bm - 8) 8 = Inr (load (blk bm 0) (block_sz bm - 8) 8)"
    using wf cnt bs by simp
  have ne: "(2::nat) ^ j \<noteq> 0" by simp
  show ?thesis
    unfolding im_get_def Let_def inode_per_block_eq ip raw b m off if_not_P [OF ne]
    by (simp add: chain_def rd ld get_le_def)
qed

end
