(* ===== verification/Super_Block.thy ===== *)
theory Super_Block
  imports Inode_Setup
begin

text \<open>
  The super block (src/src/include/metadata/superblock.h, src/src/metadata/superblock.cc), a C
  struct of 32 bytes: \<open>u32 block_size\<close> at 0, four bytes of padding, \<open>u64 nblocks\<close> at 8,
  \<open>u64 ninodes\<close> at 16, \<open>u64 file_system_size\<close> at 24. The constructor sets neither the padding
  nor \<open>file_system_size\<close>; what they hold is the argument \<open>junk\<close>.
\<close>

record super_block =
  sb_block_size :: nat
  sb_padding :: "byte list"
  sb_nblocks :: nat
  sb_ninodes :: nat
  sb_file_system_size :: "byte list"

definition sizeof_SuperBlockInternal :: nat where "sizeof_SuperBlockInternal = 32"

definition new_super_block :: "block_manager \<Rightarrow> nat \<Rightarrow> (nat \<Rightarrow> byte) \<Rightarrow> super_block run" where
  "new_super_block bm ninodes junk =
     (let sb = \<lparr>sb_block_size = block_size bm, sb_padding = map junk [0..<4],
                sb_nblocks = total_blocks bm, sb_ninodes = ninodes,
                sb_file_system_size = map junk [4..<12]\<rparr>
      in if sb_block_size sb \<ge> sizeof_SuperBlockInternal then Inr sb else Inl VerifyAborted)"

definition get_file_system_size :: "super_block \<Rightarrow> nat" where
  "get_file_system_size sb = le_nat (sb_file_system_size sb)"

definition sb_get_block_size :: "super_block \<Rightarrow> nat" where
  "sb_get_block_size sb = sb_block_size sb"

definition sb_get_nblocks :: "super_block \<Rightarrow> nat" where
  "sb_get_nblocks sb = sb_nblocks sb"

definition get_ninodes :: "super_block \<Rightarrow> nat" where
  "get_ninodes sb = sb_ninodes sb"

definition encode_super_block :: "super_block \<Rightarrow> byte list" where
  "encode_super_block sb = le_bytes 4 (sb_block_size sb) @ sb_padding sb @ le_bytes 8 (sb_nblocks sb)
     @ le_bytes 8 (sb_ninodes sb) @ sb_file_system_size sb"

definition decode_super_block :: "byte list \<Rightarrow> super_block" where
  "decode_super_block d = \<lparr>sb_block_size = get_le d 0 4, sb_padding = load d 4 4,
     sb_nblocks = get_le d 8 8, sb_ninodes = get_le d 16 8, sb_file_system_size = load d 24 8\<rparr>"

definition flush_super_block :: "super_block \<Rightarrow> nat \<Rightarrow> (block_manager, unit chfs_result) exec" where
  "flush_super_block sb b =
     write_partial_block b (encode_super_block sb) 0 sizeof_SuperBlockInternal"

definition create_from_existing :: "nat \<Rightarrow> (block_manager, super_block chfs_result) exec" where
  "create_from_existing b bm =
     chain (read_block b (fresh_buffer bm)) (\<lambda>(res, buffer). on_ok res (\<lambda>_.
     chain (lift_run (load_checked buffer 0 sizeof_SuperBlockInternal)) (\<lambda>d.
     give (Ok (decode_super_block d))))) bm"

lemma super_block_roundtrip:
  assumes "length (sb_padding sb) = 4" and "length (sb_file_system_size sb) = 8"
    and "sb_block_size sb < 2 ^ 32" and "sb_nblocks sb < 2 ^ 64" and "sb_ninodes sb < 2 ^ 64"
  shows "decode_super_block (encode_super_block sb) = sb"
  using assms
  by (simp add: decode_super_block_def encode_super_block_def get_le_def load_def le_nat_le_bytes)

lemma length_encode_super_block:
  "length (sb_padding sb) = 4 \<Longrightarrow> length (sb_file_system_size sb) = 8 \<Longrightarrow>
   length (encode_super_block sb) = 32"
  by (simp add: encode_super_block_def)

text \<open>What the super block in block 0 says.\<close>

definition super_ok :: "inode_manager \<Rightarrow> block_manager \<Rightarrow> bool" where
  "super_ok im bm \<longleftrightarrow> (let sb = decode_super_block (take 32 (blk bm 0)) in
     sb_block_size sb = block_sz bm \<and> sb_nblocks sb = block_cnt bm
     \<and> sb_ninodes sb = max_inode_supported im)"

lemma create_from_existing_ok:
  assumes "wf_bm bm" and "b < block_cnt bm" and "32 \<le> block_sz bm"
  shows "create_from_existing b bm = Inr (Ok (decode_super_block (take 32 (blk bm b))), bm)"
  using assms
  by (simp add: create_from_existing_def chain_def read_block_ok sizeof_SuperBlockInternal_def load_def)

lemma flush_super_block_ok:
  assumes wf: "wf_bm bm" and cnt: "0 < block_cnt bm" and bs: "32 \<le> block_sz bm" and n: "n < 2 ^ 64"
    and im: "max_inode_supported im = n"
  obtains sb d where "new_super_block bm n junk = Inr sb" and "length d = block_sz bm"
    and "flush_super_block sb 0 bm = Inr (Ok (), upd_blk 0 d bm)" and "super_ok im (upd_blk 0 d bm)"
proof -
  let ?sb = "\<lparr>sb_block_size = block_sz bm, sb_padding = map junk [0..<4], sb_nblocks = block_cnt bm,
              sb_ninodes = n, sb_file_system_size = map junk [4..<12]\<rparr>"
  let ?e = "encode_super_block ?sb" and ?d = "store (blk bm 0) 0 (encode_super_block ?sb)"
  have len: "length ?e = 32" by (simp add: length_encode_super_block)
  have new: "new_super_block bm n junk = Inr ?sb"
    using bs by (simp add: new_super_block_def block_size_def total_blocks_def sizeof_SuperBlockInternal_def)
  have dl: "length ?d = block_sz bm" using wf cnt bs len by simp
  have fl: "flush_super_block ?sb 0 bm = Inr (Ok (), upd_blk 0 ?d bm)"
    unfolding flush_super_block_def sizeof_SuperBlockInternal_def
    using wf cnt bs len by (intro write_partial_block_ok) simp_all
  have "block_sz bm < 2 ^ 32" "block_cnt bm < 2 ^ 64" using wf by (simp_all add: wf_bm_def)
  then have "decode_super_block ?e = ?sb" using n by (intro super_block_roundtrip) simp_all
  moreover have "take 32 (blk (upd_blk 0 ?d bm) 0) = ?e"
    using wf cnt dl len by (simp add: blk_upd_blk) (simp add: store_def)
  ultimately have "super_ok im (upd_blk 0 ?d bm)" using im by (simp add: super_ok_def Let_def)
  then show ?thesis using that new dl fl by blast
qed

end
