(* ===== verification/File_Operations.thy ===== *)
theory File_Operations
  imports Super_Block
begin

text \<open>
  \<open>FileOperation\<close> (src/src/include/filesystem/operations.h, src/src/filesystem/control_op.cc and
  data_op.cc): construction and mounting of a file system, and the operations on file data.
  The object's three pointers share one device; the state of every operation is that device,
  the two handles are the record.

  In \<open>write_file\<close> and \<open>read_file\<close> the inode is a local copy of its block and the indirect
  block a second local buffer, empty until it is needed. An error return drops both, a
  property the model keeps by returning them only on success. \<open>now\<close> stands for \<open>time(0)\<close>; the
  two calls in \<open>write_file\<close> get the same value, which is no loss since the second overwrites
  what the first one set.
\<close>

record file_operation =
  inode_manager_of :: inode_manager
  block_allocator_of :: block_allocator

subsection \<open>Construction (control\_op.cc)\<close>

definition new_file_operation ::
    "nat \<Rightarrow> (nat \<Rightarrow> byte) \<Rightarrow> (block_manager, file_operation) exec" where
  "new_file_operation max_inode junk =
     chain (new_inode_manager max_inode) (\<lambda>im.
     chain (new_block_allocator (get_reserved_blocks im) True) (\<lambda>al.
     chain (reads (\<lambda>bm. new_super_block bm (max_inode_supported im) junk)) (\<lambda>sb_run.
     chain (lift_run sb_run) (\<lambda>sb.
     chain (flush_super_block sb 0) (\<lambda>res.
     chain (lift_run (unwrap res)) (\<lambda>_.
     give \<lparr>inode_manager_of = im, block_allocator_of = al\<rparr>))))))"

definition create_from_raw :: "(block_manager, file_operation chfs_result) exec" where
  "create_from_raw =
     chain (create_from_existing 0) (\<lambda>superblock_res. on_ok superblock_res (\<lambda>sb.
     chain (reads (create_from_block_manager (sb_ninodes sb))) (\<lambda>im_run.
     chain (lift_run im_run) (\<lambda>im_res. on_ok im_res (\<lambda>im.
     chain (new_block_allocator (get_reserved_blocks im) False) (\<lambda>al.
     give (Ok \<lparr>inode_manager_of = im, block_allocator_of = al\<rparr>)))))))"

definition get_free_inode_num :: "file_operation \<Rightarrow> (block_manager, nat chfs_result) exec" where
  "get_free_inode_num fs = free_inode_cnt (inode_manager_of fs)"

definition get_free_blocks_num :: "file_operation \<Rightarrow> (block_manager, nat chfs_result) exec" where
  "get_free_blocks_num fs = chain (free_block_cnt (block_allocator_of fs)) (\<lambda>n. give (Ok n))"

subsection \<open>Inodes and attributes (data\_op.cc)\<close>

definition alloc_inode ::
    "file_operation \<Rightarrow> inode_type \<Rightarrow> nat \<Rightarrow> (nat \<Rightarrow> byte) \<Rightarrow> (block_manager, nat chfs_result) exec" where
  "alloc_inode fs t now junk =
     chain (allocate (block_allocator_of fs)) (\<lambda>block_id.
     chain (lift_run (unwrap block_id)) (\<lambda>bid.
     allocate_inode (inode_manager_of fs) t bid now junk))"

definition getattr :: "file_operation \<Rightarrow> nat \<Rightarrow> (block_manager, file_attr chfs_result) exec" where
  "getattr fs ino = im_get_attr (inode_manager_of fs) ino"

definition get_type_attr ::
    "file_operation \<Rightarrow> nat \<Rightarrow> (block_manager, (nat \<times> file_attr) chfs_result) exec" where
  "get_type_attr fs ino = im_get_type_attr (inode_manager_of fs) ino"

definition gettype :: "file_operation \<Rightarrow> nat \<Rightarrow> (block_manager, nat chfs_result) exec" where
  "gettype fs ino = im_get_type (inode_manager_of fs) ino"

definition calculate_block_sz :: "nat \<Rightarrow> nat \<Rightarrow> nat run" where
  "calculate_block_sz file_sz bs =
     (if bs = 0 then Inl DivByZero
      else Inr (if file_sz mod bs \<noteq> 0 then file_sz div bs + 1 else file_sz div bs))"

subsection \<open>The local copies of inode and indirect block\<close>

text \<open>\<open>if (indirect_block.size() == 0) { resize; read\_block(get\_indirect\_block\_id()) }\<close>\<close>

definition load_indirect :: "byte list \<Rightarrow> byte list \<Rightarrow> (block_manager, byte list chfs_result) exec" where
  "load_indirect inode indirect_block bm =
     (if indirect_block = []
      then chain (lift_run (get_indirect_block_id inode)) (\<lambda>b.
           chain (read_block b (fresh_buffer bm)) (\<lambda>(res, buffer). on_ok res (\<lambda>_.
           give (Ok buffer)))) bm
      else Inr (Ok indirect_block, bm))"

definition indirect_get :: "byte list \<Rightarrow> nat \<Rightarrow> nat run" where
  "indirect_get indirect_block k =
     andthen (load_checked indirect_block (8 * k) 8) (\<lambda>d. Inr (le_nat d))"

definition indirect_set :: "byte list \<Rightarrow> nat \<Rightarrow> nat \<Rightarrow> byte list run" where
  "indirect_set indirect_block k b = store_checked indirect_block (8 * k) (le_bytes 8 b)"

subsection \<open>Writing a file\<close>

text \<open>One more block: the body of the loop for \<open>new_block_num > old_block_num\<close>.\<close>

definition grow_step :: "block_allocator \<Rightarrow> nat \<Rightarrow> nat \<Rightarrow> byte list \<times> byte list
    \<Rightarrow> (block_manager, (byte list \<times> byte list) chfs_result) exec" where
  "grow_step al inlined idx = (\<lambda>(inode, indirect_block).
     chain (allocate al) (\<lambda>block_res. on_ok block_res (\<lambda>block_id.
     if is_direct_block inode idx
     then chain (lift_run (blocks_set inode idx block_id)) (\<lambda>inode'. give (Ok (inode', indirect_block)))
     else chain (get_or_insert_indirect_block al inode) (\<lambda>(res, inode'). on_ok res (\<lambda>_.
          chain (load_indirect inode' indirect_block) (\<lambda>r. on_ok r (\<lambda>ib.
          chain (lift_run (indirect_set ib (sub32 idx inlined) block_id)) (\<lambda>ib'.
          give (Ok (inode', ib'))))))))))"

fun grow_loop :: "block_allocator \<Rightarrow> nat \<Rightarrow> nat \<Rightarrow> nat \<Rightarrow> byte list \<times> byte list
    \<Rightarrow> (block_manager, (byte list \<times> byte list) chfs_result) exec" where
  "grow_loop al inlined idx 0 st = give (Ok st)"
| "grow_loop al inlined idx (Suc n) st =
     chain (grow_step al inlined idx st) (\<lambda>r. on_ok r (grow_loop al inlined (Suc idx) n))"

text \<open>One block less, and the indirect block when no index needs it any more.\<close>

definition shrink_step :: "block_allocator \<Rightarrow> nat \<Rightarrow> nat \<Rightarrow> byte list \<times> byte list
    \<Rightarrow> (block_manager, (byte list \<times> byte list) chfs_result) exec" where
  "shrink_step al inlined idx = (\<lambda>(inode, indirect_block).
     if is_direct_block inode idx
     then chain (lift_run (blocks_get inode idx)) (\<lambda>b.
          chain (deallocate al b) (\<lambda>res. on_ok res (\<lambda>_.
          chain (lift_run (blocks_set inode idx KInvalidBlockID)) (\<lambda>inode'.
          give (Ok (inode', indirect_block))))))
     else chain (load_indirect inode indirect_block) (\<lambda>r. on_ok r (\<lambda>ib.
          chain (lift_run (indirect_get ib (sub32 idx inlined))) (\<lambda>b.
          chain (deallocate al b) (\<lambda>res.
          chain (lift_run (indirect_set ib (sub32 idx inlined) KInvalidBlockID)) (\<lambda>ib'.
          on_ok res (\<lambda>_. give (Ok (inode, ib')))))))))"

fun shrink_loop :: "block_allocator \<Rightarrow> nat \<Rightarrow> nat \<Rightarrow> nat \<Rightarrow> byte list \<times> byte list
    \<Rightarrow> (block_manager, (byte list \<times> byte list) chfs_result) exec" where
  "shrink_loop al inlined idx 0 st = give (Ok st)"
| "shrink_loop al inlined idx (Suc n) st =
     chain (shrink_step al inlined idx st) (\<lambda>r. on_ok r (shrink_loop al inlined (Suc idx) n))"

definition drop_indirect :: "block_allocator \<Rightarrow> nat \<Rightarrow> nat \<Rightarrow> nat \<Rightarrow> byte list \<times> byte list
    \<Rightarrow> (block_manager, (byte list \<times> byte list) chfs_result) exec" where
  "drop_indirect al inlined old_num new_num = (\<lambda>(inode, indirect_block).
     if old_num > inlined \<and> new_num \<le> inlined
     then chain (lift_run (get_indirect_block_id inode)) (\<lambda>b.
          chain (deallocate al b) (\<lambda>res. on_ok res (\<lambda>_.
          chain (lift_run (invalid_indirect_block_id inode)) (\<lambda>inode'.
          give (Ok (inode', []))))))
     else give (Ok (inode, indirect_block)))"

text \<open>The \<open>if\<close> that chooses between the two.\<close>

definition resize_blocks :: "block_allocator \<Rightarrow> nat \<Rightarrow> nat \<Rightarrow> nat \<Rightarrow> byte list
    \<Rightarrow> (block_manager, (byte list \<times> byte list) chfs_result) exec" where
  "resize_blocks al inlined old_num new_num inode =
     (if new_num > old_num then grow_loop al inlined old_num (new_num - old_num) (inode, [])
      else chain (shrink_loop al inlined new_num (old_num - new_num) (inode, []))
             (\<lambda>r. on_ok r (drop_indirect al inlined old_num new_num)))"

text \<open>The block that holds piece \<open>block_idx\<close> of the content.\<close>

definition content_block :: "nat \<Rightarrow> nat \<Rightarrow> byte list \<times> byte list
    \<Rightarrow> (block_manager, (nat \<times> byte list) chfs_result) exec" where
  "content_block inlined block_idx = (\<lambda>(inode, indirect_block).
     if is_direct_block inode block_idx
     then chain (lift_run (blocks_get inode block_idx)) (\<lambda>b. give (Ok (b, indirect_block)))
     else chain (load_indirect inode indirect_block) (\<lambda>r. on_ok r (\<lambda>ib.
          chain (lift_run (indirect_get ib (sub32 block_idx inlined))) (\<lambda>b. give (Ok (b, ib))))))"

text \<open>The loop \<open>while (write_sz < content.size())\<close>.\<close>

function write_loop :: "nat \<Rightarrow> nat \<Rightarrow> byte list \<Rightarrow> nat \<Rightarrow> nat \<Rightarrow> byte list \<Rightarrow> byte list
    \<Rightarrow> (block_manager, byte list chfs_result) exec" where
  "write_loop inlined bs content write_sz block_idx inode indirect_block =
     (if \<not> write_sz < length content then give (Ok indirect_block)
      else if bs = 0 then crash_with NoReturn
      else let sz = (if length content - write_sz > bs then bs else length content - write_sz);
               buffer = store (replicate bs 0) 0 (load content write_sz sz)
           in chain (content_block inlined block_idx (inode, indirect_block)) (\<lambda>r. on_ok r (\<lambda>(b, ib).
              chain (write_block b buffer) (\<lambda>res. on_ok res (\<lambda>_.
              write_loop inlined bs content (write_sz + sz) (block_idx + 1) inode ib)))))"
  by pat_completeness auto
termination
  by (relation "measure (\<lambda>(inlined, bs, content, write_sz, block_idx, inode, ib).
        length content - write_sz)") auto

text \<open>The part of \<open>write_file\<close> after the blocks have been provided.\<close>

definition store_content :: "nat \<Rightarrow> nat \<Rightarrow> byte list \<Rightarrow> nat \<Rightarrow> nat \<Rightarrow> byte list \<Rightarrow> byte list
    \<Rightarrow> (block_manager, unit chfs_result) exec" where
  "store_content inlined bs content now inode_block inode1 ib1 =
     (let inode2 = put_attr (set_mtime now (get_attr_of inode1 \<lparr>fsize := length content\<rparr>)) inode1 in
      chain (write_loop inlined bs content 0 0 inode2 ib1) (\<lambda>r. on_ok r (\<lambda>ib2.
      let inode3 = put_attr (set_all_time now (get_attr_of inode2)) inode2 in
      chain (write_block inode_block inode3) (\<lambda>res. on_ok res (\<lambda>_.
      if ib2 \<noteq> [] then write_indirect_block inode3 ib2 else give (Ok ()))))))"

definition write_file ::
    "file_operation \<Rightarrow> nat \<Rightarrow> byte list \<Rightarrow> nat \<Rightarrow> (block_manager, unit chfs_result) exec" where
  "write_file fs ino content now bm =
     (let bs = block_size bm
      in chain (read_inode (inode_manager_of fs) ino (fresh_buffer bm)) (\<lambda>(inode_res, inode).
         on_ok inode_res (\<lambda>inode_block. as_inode inode (
         let inlined = get_direct_block_num inode in
         if length content > max_file_sz_supported inode then give (Err OUT_OF_RESOURCE)
         else chain (lift_run (calculate_block_sz (get_size inode) bs)) (\<lambda>old_sz.
         chain (lift_run (calculate_block_sz (length content) bs)) (\<lambda>new_sz.
         chain (resize_blocks (block_allocator_of fs) inlined (wrap32 old_sz) (wrap32 new_sz) inode) (\<lambda>r.
         on_ok r (\<lambda>(inode1, ib1).
         store_content inlined bs content now inode_block inode1 ib1))))))) bm)"

subsection \<open>Reading a file\<close>

text \<open>The loop \<open>while (read_sz < file_sz)\<close>; \<open>content\<close> is what has been read.\<close>

definition read_piece_block :: "nat \<Rightarrow> nat \<Rightarrow> byte list \<times> byte list
    \<Rightarrow> (block_manager, (nat \<times> byte list) chfs_result) exec" where
  "read_piece_block bs read_sz = (\<lambda>(inode, indirect_block).
     if is_direct_block inode (wrap32 (read_sz div bs))
     then chain (lift_run (blocks_get inode (read_sz div bs))) (\<lambda>b. give (Ok (b, indirect_block)))
     else chain (load_indirect inode indirect_block) (\<lambda>r. on_ok r (\<lambda>ib.
          chain (lift_run (indirect_get ib (sub64 (read_sz div bs) (get_direct_block_num inode)))) (\<lambda>b.
          give (Ok (b, ib))))))"

function read_loop :: "nat \<Rightarrow> nat \<Rightarrow> nat \<Rightarrow> byte list \<Rightarrow> byte list \<Rightarrow> byte list
    \<Rightarrow> (block_manager, byte list chfs_result) exec" where
  "read_loop bs file_sz read_sz content inode indirect_block =
     (if \<not> read_sz < file_sz then give (Ok content)
      else if bs = 0 then crash_with DivByZero
      else let sz = (if file_sz - read_sz > bs then bs else file_sz - read_sz)
           in chain (read_piece_block bs read_sz (inode, indirect_block)) (\<lambda>r. on_ok r (\<lambda>(b, ib).
              chain (read_block b (replicate bs 0)) (\<lambda>(res, buffer). on_ok res (\<lambda>_.
              read_loop bs file_sz (read_sz + sz) (content @ take sz buffer) inode ib)))))"
  by pat_completeness auto
termination
  by (relation "measure (\<lambda>(bs, file_sz, read_sz, content, inode, ib). file_sz - read_sz)") auto

definition read_file :: "file_operation \<Rightarrow> nat \<Rightarrow> (block_manager, byte list chfs_result) exec" where
  "read_file fs ino bm =
     chain (read_inode (inode_manager_of fs) ino (fresh_buffer bm)) (\<lambda>(inode_res, inode).
     on_ok inode_res (\<lambda>_. as_inode inode (
     read_loop (block_size bm) (get_size inode) 0 [] inode []))) bm"

subsection \<open>Operations on a part of a file\<close>

definition resize_to :: "nat \<Rightarrow> byte list \<Rightarrow> byte list" where
  "resize_to n content = take n content @ replicate (n - length content) 0"

definition write_file_w_off ::
    "file_operation \<Rightarrow> nat \<Rightarrow> byte list \<Rightarrow> nat \<Rightarrow> nat \<Rightarrow> nat \<Rightarrow> (block_manager, nat chfs_result) exec" where
  "write_file_w_off fs ino data sz offset now =
     chain (read_file fs ino) (\<lambda>read_res. on_ok read_res (\<lambda>content.
     let content1 = (if wrap64 (offset + sz) > length content
                     then resize_to (wrap64 (offset + sz)) content else content) in
     chain (lift_run (load_checked data 0 sz)) (\<lambda>d.
     chain (lift_run (store_checked content1 offset d)) (\<lambda>content2.
     chain (write_file fs ino content2 now) (\<lambda>write_res. on_ok write_res (\<lambda>_.
     give (Ok sz)))))))"

definition read_file_w_off ::
    "file_operation \<Rightarrow> nat \<Rightarrow> nat \<Rightarrow> nat \<Rightarrow> (block_manager, byte list chfs_result) exec" where
  "read_file_w_off fs ino sz offset =
     chain (read_file fs ino) (\<lambda>res. on_ok res (\<lambda>content.
     chain (lift_run (load_checked content offset sz)) (\<lambda>part. give (Ok part))))"

definition resize_file ::
    "file_operation \<Rightarrow> nat \<Rightarrow> nat \<Rightarrow> nat \<Rightarrow> (block_manager, file_attr chfs_result) exec" where
  "resize_file fs ino sz now =
     chain (getattr fs ino) (\<lambda>attr_res. on_ok attr_res (\<lambda>attr.
     chain (read_file fs ino) (\<lambda>file_content. on_ok file_content (\<lambda>content.
     chain (if length content \<noteq> sz then write_file fs ino (resize_to sz content) now else give (Ok ()))
       (\<lambda>write_res. on_ok write_res (\<lambda>_. give (Ok (attr\<lparr>fsize := sz\<rparr>))))))))"

subsection \<open>Removing a file (control\_op.cc)\<close>

fun collect_direct :: "byte list \<Rightarrow> nat \<Rightarrow> nat \<Rightarrow> nat list run" where
  "collect_direct inode i 0 = Inr []"
| "collect_direct inode i (Suc n) = andthen (blocks_get inode i) (\<lambda>b.
     if b = KInvalidBlockID then Inr []
     else andthen (collect_direct inode (Suc i) n) (\<lambda>bs. Inr (b # bs)))"

fun collect_indirect :: "byte list \<Rightarrow> nat \<Rightarrow> nat \<Rightarrow> nat list run" where
  "collect_indirect block i 0 = Inr []"
| "collect_indirect block i (Suc n) = andthen (indirect_get block i) (\<lambda>b.
     if b = KInvalidBlockID then Inr []
     else andthen (collect_indirect block (Suc i) n) (\<lambda>bs. Inr (b # bs)))"

fun deallocate_all :: "block_allocator \<Rightarrow> nat list \<Rightarrow> (block_manager, unit chfs_result) exec" where
  "deallocate_all al [] = give (Ok ())"
| "deallocate_all al (b # bs) = chain (deallocate al b) (\<lambda>res. on_ok res (\<lambda>_. deallocate_all al bs))"

text \<open>
  The buffer for the indirect block is declared with size 0 and never resized, so the read
  into it goes to memory it does not own.
\<close>

definition remove_file :: "file_operation \<Rightarrow> nat \<Rightarrow> (block_manager, unit chfs_result) exec" where
  "remove_file fs ino bm =
     chain (read_inode (inode_manager_of fs) ino (fresh_buffer bm)) (\<lambda>(inode_res, inode).
     on_ok inode_res (\<lambda>inode_block. as_inode inode (
     chain (lift_run (collect_direct inode 0 (get_direct_block_num inode))) (\<lambda>direct.
     chain (lift_run (blocks_get inode (get_direct_block_num inode))) (\<lambda>ind.
     chain (if ind = KInvalidBlockID then give (Ok [])
            else chain (read_block ind []) (\<lambda>(res, indirect_block). on_ok res (\<lambda>_.
                 chain (lift_run (collect_indirect indirect_block 0 (block_size bm div 8))) (\<lambda>bs.
                 give (Ok bs))))) (\<lambda>r. on_ok r (\<lambda>indirect.
     chain (free_inode (inode_manager_of fs) ino) (\<lambda>res. on_ok res (\<lambda>_.
     deallocate_all (block_allocator_of fs) (direct @ indirect @ [inode_block])))))))))) bm"

end
