(* ===== verification/File_System.thy ===== *)
theory File_System
  imports File_Operations
begin

text \<open>
  When a device holds a file system, and what that file system is. \<open>foot\<close> lists the blocks an
  inode refers to (its indirect block, if it needs one, and its data blocks in order);
  \<open>inode_wf\<close> says an inode block is sound; \<open>fs_ok\<close> says the layout is the one the constructors
  compute, allocated inodes are sound and own disjoint sets of blocks in use. \<open>abs_fs\<close> is the
  abstract content: a partial map from inode ids to type, attributes and bytes.
\<close>

subsection \<open>The blocks of an inode\<close>

definition nblk :: "nat \<Rightarrow> nat \<Rightarrow> nat" where
  "nblk bs sz = (if sz mod bs \<noteq> 0 then sz div bs + 1 else sz div bs)"

definition wblock :: "nat \<Rightarrow> byte list \<Rightarrow> byte list \<Rightarrow> nat \<Rightarrow> nat" where
  "wblock bs buf ib k = (if k < ndirect bs then slot buf k else get_le ib (8 * (k - ndirect bs)) 8)"

definition foot :: "nat \<Rightarrow> byte list \<Rightarrow> byte list \<Rightarrow> nat \<Rightarrow> nat list" where
  "foot bs buf ib n =
     (if ndirect bs < n then [slot buf (ndirect bs)] else []) @ map (wblock bs buf ib) [0..<n]"

definition ind_blk :: "block_manager \<Rightarrow> byte list \<Rightarrow> byte list" where
  "ind_blk bm buf = blk bm (slot buf (ndirect (block_sz bm)))"

definition inode_blks :: "block_manager \<Rightarrow> nat \<Rightarrow> nat" where
  "inode_blks bm b = nblk (block_sz bm) (get_size (blk bm b))"

definition data_ids :: "block_manager \<Rightarrow> nat \<Rightarrow> nat list" where
  "data_ids bm b = map (wblock (block_sz bm) (blk bm b) (ind_blk bm (blk bm b))) [0..<inode_blks bm b]"

definition own :: "block_manager \<Rightarrow> nat \<Rightarrow> nat list" where
  "own bm b = b # foot (block_sz bm) (blk bm b) (ind_blk bm (blk bm b)) (inode_blks bm b)"

definition content_of :: "block_manager \<Rightarrow> nat \<Rightarrow> byte list" where
  "content_of bm b = take (get_size (blk bm b)) (concat (map (blk bm) (data_ids bm b)))"

definition slots_clear :: "nat \<Rightarrow> byte list \<Rightarrow> nat \<Rightarrow> bool" where
  "slots_clear bs buf n \<longleftrightarrow> (\<forall>k \<le> ndirect bs. n \<le> k \<longrightarrow> slot buf k = 0)"

definition data_lo :: "block_allocator \<Rightarrow> nat" where
  "data_lo al = bitmap_block_id al + bitmap_block_cnt al"

definition inode_wf :: "block_allocator \<Rightarrow> block_manager \<Rightarrow> nat \<Rightarrow> bool" where
  "inode_wf al bm b \<longleftrightarrow> ino_ok (block_sz bm) (blk bm b)
     \<and> get_size (blk bm b) \<le> max_size (block_sz bm)
     \<and> slots_clear (block_sz bm) (blk bm b) (inode_blks bm b)
     \<and> distinct (own bm b)
     \<and> (\<forall>x \<in> set (own bm b). data_lo al \<le> x \<and> x < block_cnt bm \<and> used al bm x)"

lemma nblk_bounds:
  assumes "0 < bs"
  shows "sz \<le> nblk bs sz * bs" and "0 < sz \<Longrightarrow> (nblk bs sz - 1) * bs < sz"
    and "sz \<le> m * bs \<Longrightarrow> nblk bs sz \<le> m" and "0 < sz \<longleftrightarrow> 0 < nblk bs sz"
proof -
  have eq: "sz div bs * bs + sz mod bs = sz" by (rule div_mult_mod_eq)
  have m: "sz mod bs < bs" using assms by (rule mod_less_divisor)
  have a: "sz \<le> nblk bs sz * bs \<and> (0 < sz \<longrightarrow> (nblk bs sz - 1) * bs < sz \<and> 0 < nblk bs sz)"
  proof (cases "sz mod bs = 0")
    case True
    then have e: "sz div bs * bs = sz" using eq by linarith
    then have "0 < sz \<Longrightarrow> \<exists>k. sz div bs = Suc k" by (cases "sz div bs") simp_all
    moreover have "k * bs < sz" if "sz div bs = Suc k" for k using e that assms by simp
    ultimately show ?thesis using True e by (auto simp: nblk_def)
  next
    case False
    then have "sz div bs * bs < sz" using eq by linarith
    moreover have "sz < sz div bs * bs + bs" using eq m by linarith
    ultimately show ?thesis using False by (simp add: nblk_def)
  qed
  then show "sz \<le> nblk bs sz * bs" "0 < sz \<Longrightarrow> (nblk bs sz - 1) * bs < sz" by simp_all
  show "0 < sz \<longleftrightarrow> 0 < nblk bs sz"
    using a by (cases "sz = 0") (simp_all add: nblk_def)
  show "nblk bs sz \<le> m" if "sz \<le> m * bs"
  proof (rule ccontr)
    assume "\<not> nblk bs sz \<le> m"
    then have n: "0 < nblk bs sz" "m \<le> nblk bs sz - 1" by simp_all
    then have "m * bs \<le> (nblk bs sz - 1) * bs" by (intro mult_le_mono1) simp
    moreover have "0 < sz" using n(1) by (cases "sz = 0") (simp_all add: nblk_def)
    moreover have "(nblk bs sz - 1) * bs < sz" using a calculation(2) by simp
    ultimately show False using that by linarith
  qed
qed

lemma calculate_block_sz_ok: "0 < bs \<Longrightarrow> calculate_block_sz sz bs = Inr (nblk bs sz)"
  by (simp add: calculate_block_sz_def nblk_def)

lemma nblk_max: "0 < bs \<Longrightarrow> sz \<le> max_size bs \<Longrightarrow> nblk bs sz \<le> bs div 8 + ndirect bs"
  by (rule nblk_bounds(3)) (simp_all add: max_size_def add_mult_distrib)

lemma nblk_less32: "0 < bs \<Longrightarrow> 8 * bs < 2 ^ 32 \<Longrightarrow> sz \<le> max_size bs \<Longrightarrow> nblk bs sz < 2 ^ 31"
proof -
  assume a: "0 < bs" "8 * bs < 2 ^ 32" "sz \<le> max_size bs"
  then have "nblk bs sz \<le> bs div 8 + ndirect bs" by (intro nblk_max)
  moreover have "ndirect bs \<le> bs" by (simp add: ndirect_def nslots_def)
  moreover have "bs div 8 \<le> bs" by simp
  ultimately have "nblk bs sz \<le> 2 * bs" by linarith
  then show ?thesis using a(2) by simp
qed

lemma length_foot: "length (foot bs buf ib n) = n + (if ndirect bs < n then 1 else 0)"
  by (simp add: foot_def)

lemma foot_Suc:
  "foot bs buf ib (Suc k) =
     (if k = ndirect bs then [slot buf (ndirect bs)] else []) @ foot bs buf ib k @ [wblock bs buf ib k]"
  by (auto simp: foot_def)

lemma foot_cong:
  "(\<And>k. k < n \<Longrightarrow> wblock bs buf' ib' k = wblock bs buf ib k) \<Longrightarrow>
   (ndirect bs < n \<Longrightarrow> slot buf' (ndirect bs) = slot buf (ndirect bs)) \<Longrightarrow>
   foot bs buf' ib' n = foot bs buf ib n"
  by (simp add: foot_def)

lemma set_foot:
  "set (foot bs buf ib n) =
     (if ndirect bs < n then {slot buf (ndirect bs)} else {}) \<union> wblock bs buf ib ` {..<n}"
  by (auto simp: foot_def)

lemma own_ids: "set (data_ids bm b) \<subseteq> set (own bm b)" "b \<in> set (own bm b)"
  by (auto simp: own_def foot_def data_ids_def)

text \<open>If the blocks an inode owns are as they were, so is everything about the inode.\<close>

lemma own_unchanged:
  assumes same: "\<And>x. x \<in> set (own bm b) \<Longrightarrow> blk bm' x = blk bm x" and sz: "block_sz bm' = block_sz bm"
  shows "own bm' b = own bm b" and "data_ids bm' b = data_ids bm b"
    and "content_of bm' b = content_of bm b" and "blk bm' b = blk bm b"
    and "inode_blks bm' b = inode_blks bm b"
proof -
  let ?bs = "block_sz bm" and ?n = "inode_blks bm b"
  show b: "blk bm' b = blk bm b" by (intro same own_ids)
  then show n: "inode_blks bm' b = ?n" by (simp add: inode_blks_def sz)
  have ib: "ndirect ?bs < ?n \<Longrightarrow> ind_blk bm' (blk bm b) = ind_blk bm (blk bm b)"
    using same [of "slot (blk bm b) (ndirect ?bs)"] by (simp add: ind_blk_def sz own_def foot_def)
  then have w: "wblock ?bs (blk bm b) (ind_blk bm' (blk bm b)) k = wblock ?bs (blk bm b) (ind_blk bm (blk bm b)) k"
    if "k < ?n" for k using that by (simp add: wblock_def)
  show "own bm' b = own bm b"
    unfolding own_def b n sz using w by (simp add: foot_def)
  show d: "data_ids bm' b = data_ids bm b"
    unfolding data_ids_def b n sz using w by simp
  have m: "map (blk bm') (data_ids bm b) = map (blk bm) (data_ids bm b)"
    using own_ids(1) same by (intro map_cong) auto
  show "content_of bm' b = content_of bm b" unfolding content_of_def d b m ..
qed

lemma inode_wf_frame:
  assumes wf: "inode_wf al bm b" and same: "\<And>x. x \<in> set (own bm b) \<Longrightarrow> blk bm' x = blk bm x"
    and us: "\<And>x. x \<in> set (own bm b) \<Longrightarrow> used al bm' x"
    and sz: "block_sz bm' = block_sz bm" "block_cnt bm' = block_cnt bm"
  shows "inode_wf al bm' b"
proof -
  have eq: "own bm' b = own bm b" "blk bm' b = blk bm b" "inode_blks bm' b = inode_blks bm b"
    by (rule own_unchanged [OF same sz(1)], assumption)+
  show ?thesis using wf us unfolding inode_wf_def eq sz by simp
qed

subsection \<open>The file system\<close>

definition layout_ok :: "file_operation \<Rightarrow> block_manager \<Rightarrow> bool" where
  "layout_ok fs bm \<longleftrightarrow> (let im = inode_manager_of fs; al = block_allocator_of fs in
     im_ok im bm \<and> alloc_ok al bm \<and> im = manager_for bm (max_inode_supported im)
     \<and> al = allocator_for (im_end im) bm
     \<and> (\<forall>c < data_lo al. used al bm c) \<and> super_ok im bm)"

definition max_ino :: "file_operation \<Rightarrow> nat" where
  "max_ino fs = max_inode_supported (inode_manager_of fs)"

abbreviation taken :: "file_operation \<Rightarrow> block_manager \<Rightarrow> nat \<Rightarrow> bool" where
  "taken fs bm i \<equiv> ibit (inode_manager_of fs) bm i"

definition inodes_ok :: "file_operation \<Rightarrow> block_manager \<Rightarrow> bool" where
  "inodes_ok fs bm \<longleftrightarrow>
     (\<forall>i < max_ino fs. if taken fs bm i then inode_wf (block_allocator_of fs) bm (table bm i)
                       else table bm i = 0)
     \<and> (\<forall>i < max_ino fs. \<forall>j < max_ino fs. taken fs bm i \<and> taken fs bm j \<and> i \<noteq> j \<longrightarrow>
          set (own bm (table bm i)) \<inter> set (own bm (table bm j)) = {})"

definition fs_ok :: "file_operation \<Rightarrow> block_manager \<Rightarrow> bool" where
  "fs_ok fs bm \<longleftrightarrow> layout_ok fs bm \<and> inodes_ok fs bm"

record fnode =
  ftype :: nat
  fattr :: file_attr
  fdata :: "byte list"

definition file_at :: "block_manager \<Rightarrow> nat \<Rightarrow> fnode" where
  "file_at bm b = \<lparr>ftype = get_type_code (blk bm b), fattr = get_attr_of (blk bm b), fdata = content_of bm b\<rparr>"

definition abs_fs :: "file_operation \<Rightarrow> block_manager \<Rightarrow> nat \<Rightarrow> fnode option" where
  "abs_fs fs bm ino = (if 0 < ino \<and> ino \<le> max_ino fs \<and> taken fs bm (ino - 1)
                       then Some (file_at bm (table bm (ino - 1))) else None)"

text \<open>The ids the reading operations accept: the last two that can be allocated are refused.\<close>

definition usable :: "file_operation \<Rightarrow> nat \<Rightarrow> bool" where
  "usable fs ino \<longleftrightarrow> 0 < ino \<and> ino < max_ino fs - 1"

lemma fs_ok_im [simp]: "fs_ok fs bm \<Longrightarrow> im_ok (inode_manager_of fs) bm"
  unfolding fs_ok_def layout_ok_def Let_def by blast

lemma fs_ok_al [simp]: "fs_ok fs bm \<Longrightarrow> alloc_ok (block_allocator_of fs) bm"
  unfolding fs_ok_def layout_ok_def Let_def by blast

lemma fs_ok_layout: "fs_ok fs bm \<Longrightarrow> layout_ok fs bm"
  by (simp add: fs_ok_def)

lemma fs_ok_wf [simp]: "fs_ok fs bm \<Longrightarrow> wf_bm bm"
  using fs_ok_al alloc_ok_wf by blast

lemma fs_ok_bs: "fs_ok fs bm \<Longrightarrow> 52 \<le> block_sz bm \<and> 8 * block_sz bm < 2 ^ 32 \<and> 0 < block_sz bm"
  using fs_ok_im [of fs bm] by (auto simp: im_ok_def)

lemma fs_ok_inode:
  "fs_ok fs bm \<Longrightarrow> i < max_ino fs \<Longrightarrow> taken fs bm i \<Longrightarrow> inode_wf (block_allocator_of fs) bm (table bm i)"
  by (auto simp: fs_ok_def inodes_ok_def)

lemma fs_ok_free_entry: "fs_ok fs bm \<Longrightarrow> i < max_ino fs \<Longrightarrow> \<not> taken fs bm i \<Longrightarrow> table bm i = 0"
  by (auto simp: fs_ok_def inodes_ok_def)

lemma fs_ok_disjoint:
  "fs_ok fs bm \<Longrightarrow> i < max_ino fs \<Longrightarrow> j < max_ino fs \<Longrightarrow> taken fs bm i \<Longrightarrow> taken fs bm j \<Longrightarrow> i \<noteq> j \<Longrightarrow>
   x \<in> set (own bm (table bm i)) \<Longrightarrow> x \<notin> set (own bm (table bm j))"
  by (auto simp: fs_ok_def inodes_ok_def)

lemma fs_ok_regions:
  assumes "fs_ok fs bm"
  shows "bitmap_block_id (block_allocator_of fs) = im_end (inode_manager_of fs)"
    and "im_end (inode_manager_of fs) \<le> data_lo (block_allocator_of fs)"
    and "data_lo (block_allocator_of fs) \<le> block_cnt bm"
    and "0 < data_lo (block_allocator_of fs)"
    and "c < data_lo (block_allocator_of fs) \<Longrightarrow> used (block_allocator_of fs) bm c"
proof -
  have l: "layout_ok fs bm" using assms by (rule fs_ok_layout)
  then show "bitmap_block_id (block_allocator_of fs) = im_end (inode_manager_of fs)"
    by (metis allocator_for_def block_allocator.select_convs(1) layout_ok_def)
  then show "im_end (inode_manager_of fs) \<le> data_lo (block_allocator_of fs)" by (simp add: data_lo_def)
  show "data_lo (block_allocator_of fs) \<le> block_cnt bm" "0 < data_lo (block_allocator_of fs)"
    using fs_ok_al [OF assms] by (simp_all add: alloc_ok_def data_lo_def)
  show "c < data_lo (block_allocator_of fs) \<Longrightarrow> used (block_allocator_of fs) bm c"
    using l unfolding layout_ok_def Let_def by blast
qed

lemma own_block:
  assumes "fs_ok fs bm" and "i < max_ino fs" and "taken fs bm i" and "x \<in> set (own bm (table bm i))"
  shows "data_lo (block_allocator_of fs) \<le> x" and "x < block_cnt bm" and "used (block_allocator_of fs) bm x"
    and "0 < x" and "im_end (inode_manager_of fs) \<le> x"
proof -
  show a: "data_lo (block_allocator_of fs) \<le> x" "x < block_cnt bm" "used (block_allocator_of fs) bm x"
    using fs_ok_inode [OF assms(1-3)] assms(4) by (auto simp: inode_wf_def)
  show "0 < x" using a(1) fs_ok_regions(4) [OF assms(1)] by simp
  show "im_end (inode_manager_of fs) \<le> x" using a(1) fs_ok_regions(2) [OF assms(1)] by simp
qed

text \<open>
  The step lemma: everything but inode slot \<open>i\<close> is as it was, and what \<open>i\<close> owns afterwards it
  owned before or was free.
\<close>

lemma manager_for_cong: "block_sz bm' = block_sz bm \<Longrightarrow> manager_for bm' n = manager_for bm n"
  by (simp add: manager_for_def bitmap_blocks_for_def Let_def)

lemma allocator_for_cong:
  "block_sz bm' = block_sz bm \<Longrightarrow> block_cnt bm' = block_cnt bm \<Longrightarrow> allocator_for b bm' = allocator_for b bm"
  by (simp add: allocator_for_def bitmap_blocks_def)

lemma layout_ok_step:
  assumes ok: "layout_ok fs bm" and al: "alloc_ok (block_allocator_of fs) bm'"
    and geo: "block_sz bm' = block_sz bm" "block_cnt bm' = block_cnt bm"
    and zero: "blk bm' 0 = blk bm 0"
    and low: "\<And>c. c < data_lo (block_allocator_of fs) \<Longrightarrow> used (block_allocator_of fs) bm' c"
  shows "layout_ok fs bm'"
proof -
  have l: "im_ok (inode_manager_of fs) bm"
      "inode_manager_of fs = manager_for bm (max_inode_supported (inode_manager_of fs))"
      "block_allocator_of fs = allocator_for (im_end (inode_manager_of fs)) bm"
      "super_ok (inode_manager_of fs) bm"
    using ok by (simp_all add: layout_ok_def Let_def)
  have "im_ok (inode_manager_of fs) bm'" using l(1) alloc_ok_wf [OF al] geo by (rule im_ok_cong)
  moreover have "inode_manager_of fs = manager_for bm' (max_inode_supported (inode_manager_of fs))"
    using l(2) manager_for_cong [OF geo(1)] by simp
  moreover have "block_allocator_of fs = allocator_for (im_end (inode_manager_of fs)) bm'"
    using l(3) allocator_for_cong [OF geo] by simp
  moreover have "super_ok (inode_manager_of fs) bm'" using l(4) by (simp add: super_ok_def zero geo)
  ultimately show ?thesis using al low unfolding layout_ok_def Let_def by blast
qed

lemma fs_ok_step:
  assumes ok: "fs_ok fs bm" and al: "alloc_ok (block_allocator_of fs) bm'"
    and geo: "block_sz bm' = block_sz bm" "block_cnt bm' = block_cnt bm"
    and zero: "blk bm' 0 = blk bm 0"
    and low: "\<And>c. c < data_lo (block_allocator_of fs) \<Longrightarrow> used (block_allocator_of fs) bm' c"
    and tab: "\<And>j. j < max_ino fs \<Longrightarrow> j \<noteq> i \<Longrightarrow> table bm' j = table bm j \<and> taken fs bm' j = taken fs bm j"
    and oth: "\<And>j x. j < max_ino fs \<Longrightarrow> j \<noteq> i \<Longrightarrow> taken fs bm j \<Longrightarrow> x \<in> set (own bm (table bm j)) \<Longrightarrow>
                blk bm' x = blk bm x \<and> used (block_allocator_of fs) bm' x"
    and here: "i < max_ino fs \<Longrightarrow> taken fs bm' i \<Longrightarrow> inode_wf (block_allocator_of fs) bm' (table bm' i)"
    and gone: "i < max_ino fs \<Longrightarrow> \<not> taken fs bm' i \<Longrightarrow> table bm' i = 0"
    and new: "\<And>x. i < max_ino fs \<Longrightarrow> taken fs bm' i \<Longrightarrow> x \<in> set (own bm' (table bm' i)) \<Longrightarrow>
                \<not> used (block_allocator_of fs) bm x \<or> taken fs bm i \<and> x \<in> set (own bm (table bm i))"
  shows "fs_ok fs bm'"
proof -
  have other: "own bm' (table bm' j) = own bm (table bm j) \<and> inode_wf (block_allocator_of fs) bm' (table bm' j)"
    if j: "j < max_ino fs" "j \<noteq> i" "taken fs bm j" for j
    using own_unchanged(1) [of bm "table bm j" bm'] inode_wf_frame [OF fs_ok_inode [OF ok j(1,3)], of bm']
      oth [OF j] tab [OF j(1,2)] geo by auto
  have apart: "x \<notin> set (own bm' (table bm' j))"
    if x: "i < max_ino fs" "taken fs bm' i" "x \<in> set (own bm' (table bm' i))"
      and j: "j < max_ino fs" "j \<noteq> i" "taken fs bm' j" for x j
  proof
    assume "x \<in> set (own bm' (table bm' j))"
    then have xj: "x \<in> set (own bm (table bm j))" "taken fs bm j" using other j tab by auto
    have "used (block_allocator_of fs) bm x" using own_block(3) [OF ok j(1) xj(2,1)] .
    then have "taken fs bm i" "x \<in> set (own bm (table bm i))" using new [OF x] by auto
    then show False using fs_ok_disjoint [OF ok x(1) j(1)] xj j(2) by blast
  qed
  have "inodes_ok fs bm'"
    unfolding inodes_ok_def
  proof (intro conjI allI impI)
    fix j assume j: "j < max_ino fs"
    show "if taken fs bm' j then inode_wf (block_allocator_of fs) bm' (table bm' j) else table bm' j = 0"
    proof (cases "j = i")
      case True
      then show ?thesis using here gone j by simp
    next
      case False
      note t = tab [OF j False]
      show ?thesis
      proof (cases "taken fs bm j")
        case True
        then show ?thesis using other [OF j False] t by simp
      next
        case False
        then show ?thesis using t fs_ok_free_entry [OF ok j] by simp
      qed
    qed
  next
    fix j k assume jk: "j < max_ino fs" "k < max_ino fs" "taken fs bm' j \<and> taken fs bm' k \<and> j \<noteq> k"
    show "set (own bm' (table bm' j)) \<inter> set (own bm' (table bm' k)) = {}"
    proof (cases "j = i \<or> k = i")
      case True
      then show ?thesis using apart [of _ j] apart [of _ k] jk by blast
    next
      case False
      then show ?thesis using other [of j] other [of k] tab [of j] tab [of k] jk fs_ok_disjoint [OF ok] by auto
    qed
  qed
  moreover have "layout_ok fs bm'" using fs_ok_layout [OF ok] al geo zero low by (rule layout_ok_step)
  ultimately show ?thesis by (simp add: fs_ok_def)
qed

lemma abs_fs_step:
  assumes geo: "block_sz bm' = block_sz bm"
    and tab: "\<And>j. j < max_ino fs \<Longrightarrow> j \<noteq> i \<Longrightarrow> table bm' j = table bm j \<and> taken fs bm' j = taken fs bm j"
    and oth: "\<And>j x. j < max_ino fs \<Longrightarrow> j \<noteq> i \<Longrightarrow> taken fs bm j \<Longrightarrow> x \<in> set (own bm (table bm j)) \<Longrightarrow>
                blk bm' x = blk bm x"
    and i: "i < max_ino fs"
  shows "abs_fs fs bm' = (abs_fs fs bm)(Suc i := (if taken fs bm' i then Some (file_at bm' (table bm' i)) else None))"
proof
  fix ino
  have "file_at bm' (table bm j) = file_at bm (table bm j)" if "j < max_ino fs" "j \<noteq> i" "taken fs bm j" for j
    using own_unchanged [of bm "table bm j" bm'] oth [OF that] geo by (simp add: file_at_def)
  then have "abs_fs fs bm' ino = abs_fs fs bm ino" if "ino \<noteq> Suc i"
    using that tab [of "ino - 1"] by (cases ino) (auto simp: abs_fs_def)
  then show "abs_fs fs bm' ino =
      ((abs_fs fs bm)(Suc i := (if taken fs bm' i then Some (file_at bm' (table bm' i)) else None))) ino"
    using i by (auto simp: abs_fs_def)
qed

end
