(* ===== verification/File_Read.thy ===== *)
theory File_Read
  imports File_System
begin

text \<open>
  Reading: the lazily loaded indirect block, the block of a piece of content, and \<open>read_file\<close>
  as the function \<open>content_of\<close>. On a sound file system \<open>read_file\<close> returns the bytes \<open>abs_fs\<close>
  has for the inode and changes nothing; the attribute operations return its type and
  attributes; an id without an inode is refused.
\<close>

definition eff :: "block_manager \<Rightarrow> byte list \<Rightarrow> byte list \<Rightarrow> byte list" where
  "eff bm buf ib = (if ib = [] then ind_blk bm buf else ib)"

definition ib_ok :: "nat \<Rightarrow> byte list \<Rightarrow> bool" where
  "ib_ok bs ib \<longleftrightarrow> ib = [] \<or> length ib = bs"

lemma ib_ok_Nil [simp]: "ib_ok bs []"
  by (simp add: ib_ok_def)

lemma eff_Nil [simp]: "eff bm buf [] = ind_blk bm buf"
  by (simp add: eff_def)

lemma eff_nonempty [simp]: "ib \<noteq> [] \<Longrightarrow> eff bm buf ib = ib"
  by (simp add: eff_def)

lemma load_indirect_ok [chfs_exec]:
  assumes wf: "wf_bm bm" and ino: "ino_ok (block_sz bm) buf" and ib: "ib_ok (block_sz bm) ib"
    and p: "slot buf (ndirect (block_sz bm)) \<noteq> 0" "slot buf (ndirect (block_sz bm)) < block_cnt bm"
  shows "load_indirect buf ib bm = Inr (Ok (eff bm buf ib), bm)" and "length (eff bm buf ib) = block_sz bm"
    and "eff bm buf ib \<noteq> []"
proof -
  have nd: "ndirect (block_sz bm) < nslots (block_sz bm)" using ino by (simp add: ino_ok_def nslots_pos)
  have "get_indirect_block_id buf = Inr (slot buf (ndirect (block_sz bm)))"
    using p(1) blocks_get_ok [OF ino nd]
    by (simp add: get_indirect_block_id_def direct_num_ok [OF ino] KInvalidBlockID_def)
  then show "load_indirect buf ib bm = Inr (Ok (eff bm buf ib), bm)"
    using wf p(2) by (simp add: load_indirect_def eff_def ind_blk_def chain_def read_block_ok)
  show len: "length (eff bm buf ib) = block_sz bm"
    using wf p(2) ib by (auto simp: eff_def ind_blk_def ib_ok_def)
  show "eff bm buf ib \<noteq> []" using len wf by (metis list.size(3) wf_bm_pos less_irrefl)
qed

lemma indirect_room: "k < n div 8 \<Longrightarrow> 8 * k + 8 \<le> (n::nat)"
  by linarith

lemma indirect_get_ok [chfs_exec]: "k < length ib div 8 \<Longrightarrow> indirect_get ib k = Inr (get_le ib (8 * k) 8)"
  using indirect_room [of k "length ib"] by (simp add: indirect_get_def get_le_def)

lemma indirect_set_ok [chfs_exec]: "k < length ib div 8 \<Longrightarrow> indirect_set ib k v = Inr (put_le ib (8 * k) 8 v)"
  using indirect_room [of k "length ib"] by (simp add: indirect_set_def put_le_def)

text \<open>An inode buffer whose first \<open>n\<close> pieces can be located.\<close>

definition locatable :: "block_manager \<Rightarrow> byte list \<Rightarrow> nat \<Rightarrow> bool" where
  "locatable bm buf n \<longleftrightarrow> ino_ok (block_sz bm) buf \<and> n \<le> block_sz bm div 8 + ndirect (block_sz bm)
     \<and> (ndirect (block_sz bm) < n \<longrightarrow> slot buf (ndirect (block_sz bm)) \<noteq> 0
          \<and> slot buf (ndirect (block_sz bm)) < block_cnt bm)"

lemma locatable_less32: "locatable bm buf n \<Longrightarrow> n < 2 ^ 32"
proof -
  assume "locatable bm buf n"
  then have "n \<le> block_sz bm div 8 + ndirect (block_sz bm)" "8 * block_sz bm < 2 ^ 32"
    by (simp_all add: locatable_def ino_ok_def)
  moreover have "ndirect (block_sz bm) \<le> block_sz bm" by (simp add: ndirect_def nslots_def)
  ultimately show "n < 2 ^ 32" by linarith
qed

lemma content_block_ok [chfs_exec]:
  assumes wf: "wf_bm bm" and loc: "locatable bm buf n" and k: "k < n" and ib: "ib_ok (block_sz bm) ib"
  shows "content_block (ndirect (block_sz bm)) k (buf, ib) bm
    = Inr (Ok (wblock (block_sz bm) buf (eff bm buf ib) k,
               if k < ndirect (block_sz bm) then ib else eff bm buf ib), bm)"
proof -
  let ?bs = "block_sz bm"
  have ino: "ino_ok ?bs buf" and n: "n \<le> ?bs div 8 + ndirect ?bs" using loc by (simp_all add: locatable_def)
  have nd: "ndirect ?bs < nslots ?bs" using ino by (simp add: ino_ok_def nslots_pos)
  show ?thesis
  proof (cases "k < ndirect ?bs")
    case True
    then have "blocks_get buf k = Inr (slot buf k)" using nd by (intro blocks_get_ok [OF ino]) linarith
    then show ?thesis using True by (simp add: content_block_def direct_num_ok [OF ino] wblock_def)
  next
    case False
    then have p: "slot buf (ndirect ?bs) \<noteq> 0" "slot buf (ndirect ?bs) < block_cnt bm"
      using loc k by (simp_all add: locatable_def)
    note li = load_indirect_ok [OF wf ino ib p]
    have "k < 2 ^ 32" using locatable_less32 [OF loc] k by simp
    then have "sub32 k (ndirect ?bs) = k - ndirect ?bs" using False by (simp add: sub32_id)
    moreover have "k - ndirect ?bs < length (eff bm buf ib) div 8"
      using li(2) k n False by simp
    ultimately show ?thesis
      using False li(1) by (simp add: content_block_def direct_num_ok [OF ino] wblock_def chain_def indirect_get_ok)
  qed
qed

lemma read_piece_block_eq:
  assumes wf: "wf_bm bm" and loc: "locatable bm buf n" and k: "k < n"
  shows "read_piece_block (block_sz bm) (k * block_sz bm) (buf, ib) bm
       = content_block (ndirect (block_sz bm)) k (buf, ib) bm"
proof -
  let ?bs = "block_sz bm"
  have ino: "ino_ok ?bs buf" using loc by (simp add: locatable_def)
  have d: "k * ?bs div ?bs = k" using wf by (simp add: wf_bm_def)
  have k32: "k < 2 ^ 32" using locatable_less32 [OF loc] k by simp
  then have "\<not> k < ndirect ?bs \<Longrightarrow> sub64 k (ndirect ?bs) = sub32 k (ndirect ?bs)"
    by (simp add: sub64_id sub32_id)
  then show ?thesis
    using k32 by (simp add: read_piece_block_def content_block_def d direct_num_ok [OF ino])
qed

text \<open>Pieces of equal length.\<close>

lemma take_concat_drop:
  assumes "k < length ids" and "length (f (ids ! k)) = bs"
  shows "take m (concat (map f (drop k ids))) = take bs (take m (f (ids ! k))) @ take (m - bs) (concat (map f (drop (Suc k) ids)))"
proof -
  have "drop k ids = ids ! k # drop (Suc k) ids" using assms(1) by (rule Cons_nth_drop_Suc [symmetric])
  moreover have "take bs (take m (f (ids ! k))) = take m (f (ids ! k))" using assms(2) by (intro take_all) simp
  ultimately show ?thesis using assms(2) by simp
qed

declare read_loop.simps [simp del] write_loop.simps [simp del]

lemma read_loop_ok:
  assumes wf: "wf_bm bm" and loc: "locatable bm buf n" and n: "n = nblk (block_sz bm) sz"
    and ids: "ids = map (wblock (block_sz bm) buf (ind_blk bm buf)) [0..<n]"
    and rng: "\<And>k. k < n \<Longrightarrow> wblock (block_sz bm) buf (ind_blk bm buf) k < block_cnt bm"
  shows "k \<le> n \<Longrightarrow> eff bm buf ib = ind_blk bm buf \<Longrightarrow> ib_ok (block_sz bm) ib \<Longrightarrow>
    read_loop (block_sz bm) sz (min (k * block_sz bm) sz) acc buf ib bm
    = Inr (Ok (acc @ take (sz - k * block_sz bm) (concat (map (blk bm) (drop k ids)))), bm)"
proof (induction "n - k" arbitrary: k acc ib)
  case 0
  then have "k = n" by simp
  moreover have "sz \<le> n * block_sz bm" using nblk_bounds(1) [of "block_sz bm" sz] wf n by simp
  ultimately show ?case by (simp add: read_loop.simps min_def)
next
  case (Suc m)
  let ?bs = "block_sz bm"
  have k: "k < n" and bs: "0 < ?bs" using Suc.hyps(2) wf by simp_all
  have "0 < sz" using k n nblk_bounds(4) [OF bs, of sz] by simp
  have "k * ?bs \<le> (n - 1) * ?bs" using k by (intro mult_le_mono1) simp
  moreover have "(n - 1) * ?bs < sz" using nblk_bounds(2) [OF bs \<open>0 < sz\<close>] n by simp
  ultimately have lt: "k * ?bs < sz" by (rule le_less_trans)
  let ?sz = "if sz - k * ?bs > ?bs then ?bs else sz - k * ?bs"
  have next_sz: "k * ?bs + ?sz = min (Suc k * ?bs) sz" using lt by (auto simp: min_def)
  let ?b = "wblock ?bs buf (ind_blk bm buf) k" and ?ib = "if k < ndirect ?bs then ib else eff bm buf ib"
  have b: "?b < block_cnt bm" using rng k .
  have len: "length (blk bm ?b) = ?bs" using wf b by simp
  have pc: "read_piece_block ?bs (k * ?bs) (buf, ib) bm = Inr (Ok (?b, ?ib), bm)"
    using content_block_ok [OF wf loc k Suc.prems(3)] Suc.prems(2) by (simp add: read_piece_block_eq [OF wf loc k])
  have rd: "read_block ?b (replicate ?bs 0) bm = Inr ((Ok (), blk bm ?b), bm)"
    using wf b by (simp add: read_block_ok)
  have m: "min (k * ?bs) sz = k * ?bs" using lt by simp
  have step: "read_loop ?bs sz (k * ?bs) acc buf ib bm
      = read_loop ?bs sz (k * ?bs + ?sz) (acc @ take ?sz (blk bm ?b)) buf ?ib bm"
    using lt bs pc rd by (subst read_loop.simps) (simp add: chain_def Let_def)
  have ib': "eff bm buf ?ib = ind_blk bm buf" "ib_ok ?bs ?ib"
    using Suc.prems(2,3) load_indirect_ok(2) [OF wf _ Suc.prems(3), of buf] loc k
    by (auto simp: eff_def ib_ok_def locatable_def)
  have tl: "take (sz - k * ?bs) (concat (map (blk bm) (drop k ids)))
      = take ?sz (blk bm ?b) @ take (sz - Suc k * ?bs) (concat (map (blk bm) (drop (Suc k) ids)))"
  proof -
    have idk: "k < length ids" "ids ! k = ?b" using k ids by simp_all
    have "take ?bs (take (sz - k * ?bs) (blk bm ?b)) = take ?sz (blk bm ?b)" by (simp add: min_def)
    moreover have "sz - k * ?bs - ?bs = sz - Suc k * ?bs" by simp
    ultimately show ?thesis
      using take_concat_drop [of k ids "blk bm" ?bs "sz - k * ?bs"] idk len by simp
  qed
  have "m = n - Suc k" "Suc k \<le> n" using Suc.hyps(2) k by simp_all
  from Suc.hyps(1) [OF this ib', of "acc @ take ?sz (blk bm ?b)"] show ?case
    unfolding m step next_sz tl by simp
qed

lemma inode_wf_locatable:
  assumes wf: "wf_bm bm" and al: "alloc_ok al bm" and ino: "inode_wf al bm b"
  shows "locatable bm (blk bm b) (inode_blks bm b)"
    and "k < inode_blks bm b \<Longrightarrow> wblock (block_sz bm) (blk bm b) (ind_blk bm (blk bm b)) k < block_cnt bm"
    and "0 < b" and "b < block_cnt bm"
proof -
  let ?bs = "block_sz bm"
  have lo: "0 < data_lo al" using al by (simp add: alloc_ok_def data_lo_def)
  have o: "\<And>x. x \<in> set (own bm b) \<Longrightarrow> data_lo al \<le> x \<and> x < block_cnt bm"
    using ino by (simp add: inode_wf_def)
  have "inode_blks bm b \<le> ?bs div 8 + ndirect ?bs"
    using ino wf by (simp add: inode_blks_def inode_wf_def nblk_max)
  moreover have "slot (blk bm b) (ndirect ?bs) \<noteq> 0 \<and> slot (blk bm b) (ndirect ?bs) < block_cnt bm"
    if "ndirect ?bs < inode_blks bm b"
    using that o [of "slot (blk bm b) (ndirect ?bs)"] lo by (simp add: own_def foot_def)
  ultimately show "locatable bm (blk bm b) (inode_blks bm b)"
    using ino by (simp add: locatable_def inode_wf_def)
  show "k < inode_blks bm b \<Longrightarrow> wblock ?bs (blk bm b) (ind_blk bm (blk bm b)) k < block_cnt bm"
    using o [of "wblock ?bs (blk bm b) (ind_blk bm (blk bm b)) k"] by (auto simp: own_def set_foot)
  show "0 < b" "b < block_cnt bm" using o [of b] lo by (simp_all add: own_ids)
qed

subsection \<open>Reading on a sound file system\<close>

text \<open>What \<open>read_inode\<close> does with an id, in the terms of \<open>abs_fs\<close>.\<close>

lemma fs_read_inode:
  assumes ok: "fs_ok fs bm" and u: "usable fs ino" and t: "taken fs bm (ino - 1)"
    and len: "length buffer = block_sz bm"
  shows "read_inode (inode_manager_of fs) ino buffer bm
       = Inr ((Ok (table bm (ino - 1)), blk bm (table bm (ino - 1))), bm)"
    and "sizeof_Inode \<le> length (blk bm (table bm (ino - 1)))"
    and "ino - 1 < max_ino fs"
proof -
  show i: "ino - 1 < max_ino fs" using u unfolding usable_def by linarith
  note w = fs_ok_inode [OF ok i t]
  note l = inode_wf_locatable [OF fs_ok_wf [OF ok] fs_ok_al [OF ok] w]
  show "read_inode (inode_manager_of fs) ino buffer bm
       = Inr ((Ok (table bm (ino - 1)), blk bm (table bm (ino - 1))), bm)"
    using read_inode_ok [OF fs_ok_im [OF ok], of ino buffer] u len l(3,4)
    by (simp add: usable_def max_ino_def)
  show "sizeof_Inode \<le> length (blk bm (table bm (ino - 1)))"
    using w by (simp add: inode_wf_def ino_ok_def sizeof_Inode_def)
qed

lemma fs_read_inode_none:
  assumes ok: "fs_ok fs bm" and "0 < ino" and none: "abs_fs fs bm ino = None \<or> \<not> usable fs ino"
  shows "read_inode (inode_manager_of fs) ino buffer bm = Inr ((Err INVALID_ARG, buffer), bm)"
proof (cases "usable fs ino")
  case False
  then show ?thesis
    using assms(2) read_inode_rejects [OF fs_ok_im [OF ok]] by (simp add: usable_def max_ino_def)
next
  case True
  then have "\<not> taken fs bm (ino - 1)" "ino - 1 < max_ino fs"
    using none by (auto simp: abs_fs_def usable_def split: if_splits)
  then have "table bm (ino - 1) = 0" using fs_ok_free_entry [OF ok] by simp
  then show ?thesis
    using read_inode_unallocated [OF fs_ok_im [OF ok]] True by (simp add: usable_def max_ino_def)
qed

lemma as_inode_ok [simp]: "sizeof_Inode \<le> length buf \<Longrightarrow> as_inode buf k = k"
  by (simp add: as_inode_def)

lemma abs_fs_taken:
  assumes "abs_fs fs bm ino = Some f"
  shows "taken fs bm (ino - 1)" and "0 < ino" and "ino \<le> max_ino fs" and "f = file_at bm (table bm (ino - 1))"
  using assms by (simp_all add: abs_fs_def split: if_splits)

lemma read_file_ok [chfs_exec]:
  assumes ok: "fs_ok fs bm" and u: "usable fs ino" and f: "abs_fs fs bm ino = Some f"
  shows "read_file fs ino bm = Inr (Ok (fdata f), bm)"
proof -
  let ?b = "table bm (ino - 1)"
  note t = abs_fs_taken [OF f] and wf = fs_ok_wf [OF ok]
  note r = fs_read_inode [OF ok u t(1) fresh_buffer_length]
  note l = inode_wf_locatable [OF wf fs_ok_al [OF ok] fs_ok_inode [OF ok r(3) t(1)]]
  have "read_loop (block_sz bm) (get_size (blk bm ?b)) (min (0 * block_sz bm) (get_size (blk bm ?b))) []
      (blk bm ?b) [] bm = Inr (Ok ([] @ take (get_size (blk bm ?b) - 0 * block_sz bm)
      (concat (map (blk bm) (drop 0 (data_ids bm ?b))))), bm)"
    by (rule read_loop_ok [OF wf l(1) inode_blks_def _ l(2)]) (simp_all add: data_ids_def)
  then show ?thesis
    using r(1,2) t(4) by (simp add: read_file_def chain_def block_size_def file_at_def content_of_def)
qed

lemma read_file_none [chfs_exec]:
  "fs_ok fs bm \<Longrightarrow> 0 < ino \<Longrightarrow> abs_fs fs bm ino = None \<or> \<not> usable fs ino \<Longrightarrow>
   read_file fs ino bm = Inr (Err INVALID_ARG, bm)"
  by (simp add: read_file_def chain_def fs_read_inode_none)

lemma attr_ok [chfs_exec]:
  assumes ok: "fs_ok fs bm" and u: "usable fs ino" and f: "abs_fs fs bm ino = Some f"
  shows "getattr fs ino bm = Inr (Ok (fattr f), bm)" and "gettype fs ino bm = Inr (Ok (ftype f), bm)"
    and "get_type_attr fs ino bm = Inr (Ok (ftype f, fattr f), bm)"
proof -
  note t = abs_fs_taken [OF f]
  note r = fs_read_inode [OF ok u t(1) fresh_buffer_length]
  show "getattr fs ino bm = Inr (Ok (fattr f), bm)" "gettype fs ino bm = Inr (Ok (ftype f), bm)"
    "get_type_attr fs ino bm = Inr (Ok (ftype f, fattr f), bm)"
    using r(1,2) t(4)
    by (simp_all add: getattr_def gettype_def get_type_attr_def im_get_attr_def im_get_type_def
        im_get_type_attr_def chain_def file_at_def)
qed

lemma attr_none [chfs_exec]:
  assumes "fs_ok fs bm" and "0 < ino" and "abs_fs fs bm ino = None \<or> \<not> usable fs ino"
  shows "getattr fs ino bm = Inr (Err INVALID_ARG, bm)" and "gettype fs ino bm = Inr (Err INVALID_ARG, bm)"
    and "get_type_attr fs ino bm = Inr (Err INVALID_ARG, bm)"
  using fs_read_inode_none [OF assms]
  by (simp_all add: getattr_def gettype_def get_type_attr_def im_get_attr_def im_get_type_def
      im_get_type_attr_def chain_def)

end
