(* ===== verification/File_Resize.thy ===== *)
theory File_Resize
  imports File_Read "HOL-Library.Multiset"
begin

text \<open>
  The first half of \<open>write_file\<close>: the loops that give an inode more or fewer blocks. Both work
  on local copies of the inode and its indirect block while the allocator works on the device.
  \<open>resized\<close> says what is true of the copies and the device when \<open>k\<close> blocks are in place; it is
  the invariant of the growing loop and what both loops establish.
\<close>

subsection \<open>Devices that differ in the block bitmap only\<close>

definition same_data :: "block_allocator \<Rightarrow> block_manager \<Rightarrow> block_manager \<Rightarrow> bool" where
  "same_data al bm bm' \<longleftrightarrow> alloc_ok al bm' \<and> block_sz bm' = block_sz bm \<and> block_cnt bm' = block_cnt bm
     \<and> (\<forall>c < block_cnt bm. c < bitmap_block_id al \<or> data_lo al \<le> c \<longrightarrow> blk bm' c = blk bm c)"

lemma same_data_refl: "alloc_ok al bm \<Longrightarrow> same_data al bm bm"
  by (simp add: same_data_def)

lemma same_data_mark: "same_data al bm0 bm \<Longrightarrow> b < block_cnt bm0 \<Longrightarrow> same_data al bm0 (mark al v b bm)"
  using blk_mark_outside [of al bm b _ v] by (auto simp: same_data_def data_lo_def alloc_ok_mark)

lemma same_data_blk:
  "same_data al bm0 bm \<Longrightarrow> data_lo al \<le> c \<Longrightarrow> c < block_cnt bm0 \<Longrightarrow> blk bm c = blk bm0 c"
  by (simp add: same_data_def)

definition leaked :: "block_allocator \<Rightarrow> block_manager \<Rightarrow> block_manager \<Rightarrow> bool" where
  "leaked al bm bm' \<longleftrightarrow> same_data al bm bm' \<and> (\<forall>c < block_cnt bm. used al bm c \<longrightarrow> used al bm' c)"

subsection \<open>The state between the loops\<close>

definition resized :: "block_allocator \<Rightarrow> block_manager \<Rightarrow> byte list \<Rightarrow> nat list \<Rightarrow> nat
    \<Rightarrow> block_manager \<Rightarrow> byte list \<Rightarrow> byte list \<Rightarrow> bool" where
  "resized al bm0 buf0 F0 k bm buf ib \<longleftrightarrow> (let bs = block_sz bm0; F = foot bs buf (eff bm buf ib) k in
     same_data al bm0 bm \<and> ino_ok bs buf \<and> same_header buf0 buf \<and> ib_ok bs ib
     \<and> (k \<le> ndirect bs \<longrightarrow> ib = []) \<and> slots_clear bs buf k
     \<and> distinct F \<and> (\<forall>x \<in> set F. data_lo al \<le> x \<and> x < block_cnt bm0 \<and> used al bm x
                        \<and> (x \<in> set F0 \<or> \<not> used al bm0 x))
     \<and> (\<forall>c < block_cnt bm0. used al bm0 c \<and> c \<notin> set F0 \<longrightarrow> used al bm c)
     \<and> card (free_set al bm) + length F = card (free_set al bm0) + length F0)"

lemma resizedD:
  assumes "resized al bm0 buf0 F0 k bm buf ib"
  shows "same_data al bm0 bm" and "ino_ok (block_sz bm0) buf" and "same_header buf0 buf"
    and "ib_ok (block_sz bm0) ib" and "k \<le> ndirect (block_sz bm0) \<Longrightarrow> ib = []"
    and "slots_clear (block_sz bm0) buf k"
    and "distinct (foot (block_sz bm0) buf (eff bm buf ib) k)"
    and "x \<in> set (foot (block_sz bm0) buf (eff bm buf ib) k) \<Longrightarrow>
         data_lo al \<le> x \<and> x < block_cnt bm0 \<and> used al bm x \<and> (x \<in> set F0 \<or> \<not> used al bm0 x)"
    and "c < block_cnt bm0 \<Longrightarrow> used al bm0 c \<Longrightarrow> c \<notin> set F0 \<Longrightarrow> used al bm c"
    and "card (free_set al bm) + length (foot (block_sz bm0) buf (eff bm buf ib) k)
         = card (free_set al bm0) + length F0"
  using assms unfolding resized_def Let_def by blast+

lemma resized_geometry:
  assumes "resized al bm0 buf0 F0 k bm buf ib"
  shows "block_sz bm = block_sz bm0" and "block_cnt bm = block_cnt bm0" and "alloc_ok al bm"
  using resizedD(1) [OF assms] by (simp_all add: same_data_def)

lemma resized_locatable:
  assumes r: "resized al bm0 buf0 F0 k bm buf ib" and k: "k \<le> block_sz bm0 div 8 + ndirect (block_sz bm0)"
    and lo: "0 < data_lo al"
  shows "locatable bm buf k"
proof -
  have "slot buf (ndirect (block_sz bm0)) \<noteq> 0 \<and> slot buf (ndirect (block_sz bm0)) < block_cnt bm0"
    if "ndirect (block_sz bm0) < k"
    using resizedD(8) [OF r, of "slot buf (ndirect (block_sz bm0))"] that lo by (simp add: foot_def)
  then show ?thesis using k resizedD(2) [OF r] by (simp add: locatable_def resized_geometry [OF r])
qed

text \<open>Adding blocks that were free.\<close>

lemma resized_add:
  assumes r: "resized al bm0 buf0 F0 k bm buf ib" and F0: "set F0 \<subseteq> set (foot (block_sz bm0) buf (eff bm buf ib) k)"
    and new: "distinct new" "set new \<subseteq> free_set al bm" "\<And>x. x \<in> set new \<Longrightarrow> data_lo al \<le> x"
    and sd: "same_data al bm0 bm'"
    and us: "\<And>c. c < block_cnt bm0 \<Longrightarrow> used al bm' c \<longleftrightarrow> used al bm c \<or> c \<in> set new"
    and buf: "ino_ok (block_sz bm0) buf'" "same_header buf buf'" "ib_ok (block_sz bm0) ib'"
      "Suc k \<le> ndirect (block_sz bm0) \<longrightarrow> ib' = []" "slots_clear (block_sz bm0) buf' (Suc k)"
    and ft: "mset (foot (block_sz bm0) buf' (eff bm' buf' ib') (Suc k))
             = mset (foot (block_sz bm0) buf (eff bm buf ib) k) + mset new"
  shows "resized al bm0 buf0 F0 (Suc k) bm' buf' ib'"
    and "set F0 \<subseteq> set (foot (block_sz bm0) buf' (eff bm' buf' ib') (Suc k))"
proof -
  let ?F = "foot (block_sz bm0) buf (eff bm buf ib) k"
  let ?F' = "foot (block_sz bm0) buf' (eff bm' buf' ib') (Suc k)"
  note d = resizedD [OF r] and g = resized_geometry [OF r]
  have m: "mset ?F' = mset (?F @ new)" using ft by simp
  then have set: "set ?F' = set ?F \<union> set new" by (metis mset_eq_setD set_append)
  have len: "length ?F' = length ?F + length new" using m by (metis mset_eq_length length_append)
  have nfree: "x < block_cnt bm0 \<and> \<not> used al bm x" if "x \<in> set new" for x
    using that new(2) g(2) by (auto simp: free_set_def)
  have "set ?F \<inter> set new = {}" using d(8) nfree by blast
  then have "distinct (?F @ new)" using d(7) new(1) by simp
  then have dist: "distinct ?F'" using m mset_eq_imp_distinct_iff by blast
  have nused0: "\<not> used al bm0 x" if "x \<in> set new" for x
  proof
    assume u: "used al bm0 x"
    show False
    proof (cases "x \<in> set F0")
      case True
      then show False using F0 d(8) nfree [OF that] by blast
    next
      case False
      then show False using d(9) u nfree [OF that] by blast
    qed
  qed
  have "free_set al bm' = free_set al bm - set new"
    using us sd g(2) by (auto simp: free_set_def same_data_def)
  then have "card (free_set al bm') + length new = card (free_set al bm)"
    using new(1,2) card_mono [OF _ new(2)] by (simp add: card_Diff_subset distinct_card)
  then have card: "card (free_set al bm') + length ?F' = card (free_set al bm0) + length F0"
    using d(10) len by simp
  have each: "data_lo al \<le> x \<and> x < block_cnt bm0 \<and> used al bm' x \<and> (x \<in> set F0 \<or> \<not> used al bm0 x)"
    if "x \<in> set ?F'" for x
    using that set d(8) [of x] new(3) [of x] nfree [of x] nused0 [of x] us [of x] by blast
  show "set F0 \<subseteq> set ?F'" using F0 set by blast
  show "resized al bm0 buf0 F0 (Suc k) bm' buf' ib'"
    unfolding resized_def Let_def
    using sd buf same_header_trans [OF d(3) buf(2)] dist each card us d(9) by blast
qed

subsection \<open>The growing loop\<close>

text \<open>The slot of the indirect block, as \<open>get_or_insert_indirect_block\<close> leaves it.\<close>

lemma get_or_insert_present:
  assumes "ino_ok bs buf" and "slot buf (ndirect bs) \<noteq> 0"
  shows "get_or_insert_indirect_block al buf bm = Inr ((Ok (slot buf (ndirect bs)), buf), bm)"
proof -
  have "ndirect bs < nslots bs" using assms(1) by (simp add: ino_ok_def nslots_pos)
  then show ?thesis
    using assms by (simp add: get_or_insert_indirect_block_def direct_num_ok blocks_get_ok KInvalidBlockID_def)
qed

lemma get_or_insert_absent:
  assumes "ino_ok bs buf" and "slot buf (ndirect bs) = 0"
  shows "get_or_insert_indirect_block al buf bm = chain (allocate al) (\<lambda>r. case r of
     Err e \<Rightarrow> give (Err e, buf) | Ok b \<Rightarrow> give (Ok b, set_slot buf (ndirect bs) b)) bm"
proof -
  have nd: "ndirect bs < nslots bs" using assms(1) by (simp add: ino_ok_def nslots_pos)
  show ?thesis
    using assms nd
    by (simp add: get_or_insert_indirect_block_def direct_num_ok blocks_get_ok KInvalidBlockID_def
        chain_def blocks_set_ok split: sum.split prod.split chfs_result.split)
qed

text \<open>What one successful step does to the copies.\<close>

lemma foot_grow_direct:
  assumes "ino_ok bs buf" and "k < ndirect bs" and "b < 2 ^ 64"
  shows "foot bs (set_slot buf k b) ib' (Suc k) = foot bs buf ib k @ [b]"
proof -
  have k: "k < nslots (length buf)" using assms(1,2) by (simp add: ino_ok_def ndirect_def)
  have s: "slot (set_slot buf k b) j = (if j = k then b else slot buf j)" if "j \<le> k" for j
    using that k assms(3) by (intro slot_set_slot) simp_all
  have "foot bs (set_slot buf k b) ib' k = foot bs buf ib k"
    using assms(2) s by (intro foot_cong) (simp_all add: wblock_def)
  then show ?thesis using assms(2) s by (simp add: foot_Suc wblock_def)
qed

lemma wblock_put_other:
  assumes "k - ndirect bs < length ib div 8" and "\<not> k < ndirect bs" and "j < k"
  shows "wblock bs buf (put_le ib (8 * (k - ndirect bs)) 8 v) j = wblock bs buf ib j"
proof (cases "j < ndirect bs")
  case False
  have "8 * (k - ndirect bs) + 8 \<le> length ib" using assms(1) by (rule indirect_room)
  then have "get_le (put_le ib (8 * (k - ndirect bs)) 8 v) (8 * (j - ndirect bs)) 8 = get_le ib (8 * (j - ndirect bs)) 8"
    using assms(2,3) False by (intro get_put_other) linarith+
  then show ?thesis using False by (simp add: wblock_def)
qed (simp add: wblock_def)

lemma wblock_put_same:
  assumes "k - ndirect bs < length ib div 8" and "\<not> k < ndirect bs" and "v < 2 ^ 64"
  shows "wblock bs buf (put_le ib (8 * (k - ndirect bs)) 8 v) k = v"
  using indirect_room [OF assms(1)] assms(2,3) by (simp add: wblock_def get_put_same)

lemma foot_grow_indirect:
  assumes "length ib = bs" and "\<not> k < ndirect bs" and "k < bs div 8 + ndirect bs" and "b < 2 ^ 64"
  shows "foot bs buf (put_le ib (8 * (k - ndirect bs)) 8 b) (Suc k) =
    (if k = ndirect bs then [slot buf (ndirect bs)] else []) @ foot bs buf ib k @ [b]"
proof -
  have r: "k - ndirect bs < length ib div 8" using assms(1-3) by simp
  have "foot bs buf (put_le ib (8 * (k - ndirect bs)) 8 b) k = foot bs buf ib k"
    by (rule foot_cong) (simp_all add: wblock_put_other [OF r assms(2)])
  then show ?thesis by (simp only: foot_Suc wblock_put_same [OF r assms(2,4)])
qed

definition total_blks :: "nat \<Rightarrow> nat \<Rightarrow> nat" where
  "total_blks bs n = n + (if ndirect bs < n then 1 else 0)"

lemma total_blks_mono: "m \<le> n \<Longrightarrow> total_blks bs m \<le> total_blks bs n"
  by (simp add: total_blks_def)

lemma length_foot_total: "length (foot bs buf ib n) = total_blks bs n"
  by (simp add: length_foot total_blks_def)

definition grow_outcome where
  "grow_outcome al bm0 buf0 F0 k out \<longleftrightarrow>
     (\<exists>buf ib bm. out = Inr (Ok (buf, ib), bm) \<and> resized al bm0 buf0 F0 k bm buf ib
        \<and> set F0 \<subseteq> set (foot (block_sz bm0) buf (eff bm buf ib) k))
   \<or> (\<exists>bm. out = Inr (Err OUT_OF_RESOURCE, bm) \<and> leaked al bm0 bm
        \<and> card (free_set al bm0) + length F0 < total_blks (block_sz bm0) k \<and> free_set al bm = {})"

text \<open>What holds of the device the whole operation starts from.\<close>

definition start_ok :: "block_allocator \<Rightarrow> block_manager \<Rightarrow> nat list \<Rightarrow> bool" where
  "start_ok al bm0 F0 \<longleftrightarrow> alloc_ok al bm0 \<and> (\<forall>c < data_lo al. used al bm0 c)
     \<and> (\<forall>x \<in> set F0. data_lo al \<le> x \<and> x < block_cnt bm0 \<and> used al bm0 x) \<and> distinct F0"

lemma start_lo: "start_ok al bm0 F0 \<Longrightarrow> 0 < data_lo al"
  by (simp add: start_ok_def alloc_ok_def data_lo_def)

lemma free_block_facts:
  assumes st: "start_ok al bm0 F0" and r: "resized al bm0 buf0 F0 k bm buf ib" and b: "b \<in> free_set al bm"
  shows "b < block_cnt bm0" and "\<not> used al bm b" and "data_lo al \<le> b" and "b < 2 ^ 64"
proof -
  note g = resized_geometry [OF r]
  show 1: "b < block_cnt bm0" "\<not> used al bm b" using b g(2) by (simp_all add: free_set_def)
  then show "b < 2 ^ 64" using st by (simp add: start_ok_def alloc_ok_def wf_bm_def)
  show "data_lo al \<le> b"
  proof (rule ccontr)
    assume n: "\<not> data_lo al \<le> b"
    then have "used al bm0 b" "b \<notin> set F0" using st by (auto simp: start_ok_def)
    then show False using resizedD(9) [OF r] 1 by blast
  qed
qed

lemma leaked_mark:
  assumes r: "resized al bm0 buf0 F0 k bm buf ib" and F0: "set F0 \<subseteq> set (foot (block_sz bm0) buf (eff bm buf ib) k)"
  shows "leaked al bm0 bm" and "b < block_cnt bm0 \<Longrightarrow> leaked al bm0 (mark al True b bm)"
proof -
  note d = resizedD [OF r] and g = resized_geometry [OF r]
  have u: "used al bm c" if "c < block_cnt bm0" "used al bm0 c" for c
    using d(8) [of c] d(9) [of c] that F0 by blast
  then show "leaked al bm0 bm" using d(1) by (simp add: leaked_def)
  show "leaked al bm0 (mark al True b bm)" if "b < block_cnt bm0"
    using same_data_mark [OF d(1) that] u that g by (simp add: leaked_def used_mark)
qed

lemma slots_clear_set:
  assumes "ino_ok bs buf" and "slots_clear bs buf k" and "j < nslots bs" and "j \<le> k" and "k \<le> j \<or> j = ndirect bs"
    and "v < 2 ^ 64" and "ndirect bs \<le> k \<or> j = k"
  shows "slots_clear bs (set_slot buf j v) (Suc k)"
proof -
  have len: "length buf = bs" and nd: "ndirect bs < nslots bs" using assms(1) by (simp_all add: ino_ok_def nslots_pos)
  show ?thesis
    unfolding slots_clear_def
  proof (intro allI impI)
    fix i assume i: "i \<le> ndirect bs" "Suc k \<le> i"
    then have "i \<noteq> j" "i < nslots bs" using assms(4) nd by linarith+
    then show "slot (set_slot buf j v) i = 0"
      using i assms(2,3,6) len by (simp add: slot_set_slot slots_clear_def)
  qed
qed

lemma grow_step_direct:
  assumes st: "start_ok al bm0 F0" and r: "resized al bm0 buf0 F0 k bm buf ib"
    and F0: "set F0 \<subseteq> set (foot (block_sz bm0) buf (eff bm buf ib) k)" and k: "k < ndirect (block_sz bm0)"
    and b: "b \<in> free_set al bm" and a: "allocate al bm = Inr (Ok b, mark al True b bm)"
  shows "grow_outcome al bm0 buf0 F0 (Suc k) (grow_step al (ndirect (block_sz bm0)) k (buf, ib) bm)"
proof -
  let ?bs = "block_sz bm0" and ?bm = "mark al True b bm" and ?buf = "set_slot buf k b"
  note d = resizedD [OF r] and g = resized_geometry [OF r] and f = free_block_facts [OF st r b]
  have kn: "k < nslots ?bs" using k by (simp add: ndirect_def)
  have ib: "ib = []" using d(5) k by simp
  have step: "grow_step al (ndirect ?bs) k (buf, ib) bm = Inr (Ok (?buf, ib), ?bm)"
    using a k d(2) kn by (simp add: grow_step_def chain_def direct_num_ok blocks_set_ok)
  have ft: "mset (foot ?bs ?buf (eff ?bm ?buf ib) (Suc k)) = mset (foot ?bs buf (eff bm buf ib) k) + mset [b]"
    unfolding foot_grow_direct [OF d(2) k f(4), of _ "eff bm buf ib"] by simp
  have us: "used al ?bm c \<longleftrightarrow> used al bm c \<or> c \<in> set [b]" if "c < block_cnt bm0" for c
    using that f(1) g by (simp add: used_mark)
  have clear: "slots_clear ?bs ?buf (Suc k)" using d(2,6) kn k f(4) by (intro slots_clear_set) simp_all
  have "resized al bm0 buf0 F0 (Suc k) ?bm ?buf ib \<and> set F0 \<subseteq> set (foot ?bs ?buf (eff ?bm ?buf ib) (Suc k))"
    by (intro conjI resized_add [OF r F0 _ _ _ same_data_mark [OF d(1) f(1)] us _ _ _ _ clear ft])
      (use b f ib d(2) kn in \<open>simp_all add: ino_ok_set_slot same_header_set_slot\<close>)
  then show ?thesis unfolding grow_outcome_def using step by blast
qed

lemma grow_step_further:
  assumes st: "start_ok al bm0 F0" and r: "resized al bm0 buf0 F0 k bm buf ib"
    and F0: "set F0 \<subseteq> set (foot (block_sz bm0) buf (eff bm buf ib) k)" and k: "ndirect (block_sz bm0) < k"
    and kmax: "k < block_sz bm0 div 8 + ndirect (block_sz bm0)"
    and b: "b \<in> free_set al bm" and a: "allocate al bm = Inr (Ok b, mark al True b bm)"
  shows "grow_outcome al bm0 buf0 F0 (Suc k) (grow_step al (ndirect (block_sz bm0)) k (buf, ib) bm)"
proof -
  let ?bs = "block_sz bm0" and ?bm = "mark al True b bm" and ?p = "slot buf (ndirect (block_sz bm0))"
  let ?e = "eff bm buf ib"
  note d = resizedD [OF r] and g = resized_geometry [OF r] and f = free_block_facts [OF st r b]
  have bmok: "alloc_ok al ?bm" using g f(1) by (simp add: alloc_ok_mark)
  have p: "data_lo al \<le> ?p" "?p < block_cnt bm0" using d(8) [of ?p] k by (simp_all add: foot_def)
  have p0: "?p \<noteq> 0" using p(1) start_lo [OF st] by simp
  have "blk ?bm ?p = blk bm ?p"
    using p g f(1) by (intro blk_mark_outside) (simp_all add: data_lo_def)
  then have e: "eff ?bm buf ib = ?e" by (simp add: eff_def ind_blk_def g)
  have ino: "ino_ok (block_sz ?bm) buf" "ib_ok (block_sz ?bm) ib" using d(2,4) g by simp_all
  note li = load_indirect_ok [OF alloc_ok_wf [OF bmok] ino]
  have li': "load_indirect buf ib ?bm = Inr (Ok ?e, ?bm)" "length ?e = ?bs"
    using li p p0 g by (simp_all add: e)
  have k32: "k < 2 ^ 32"
  proof -
    have "ndirect ?bs \<le> ?bs" "8 * ?bs < 2 ^ 32" using d(2) by (simp_all add: ndirect_def nslots_def ino_ok_def)
    then show ?thesis using kmax by linarith
  qed
  let ?ib = "put_le ?e (8 * (k - ndirect ?bs)) 8 b"
  have room: "k - ndirect ?bs < length ?e div 8" using kmax k li'(2) by simp
  have lib: "length ?ib = ?bs" using indirect_room [OF room] li'(2) by simp
  have step: "grow_step al (ndirect ?bs) k (buf, ib) bm = Inr (Ok (buf, ?ib), ?bm)"
    using a k k32 li'(1) get_or_insert_present [OF d(2) p0] indirect_set_ok [OF room]
    by (simp add: grow_step_def chain_def direct_num_ok [OF d(2)] sub32_id)
  have bs: "0 < ?bs" using d(2) by (simp add: ino_ok_def)
  then have ne: "?ib \<noteq> []" using lib by auto
  have ft: "mset (foot ?bs buf (eff ?bm buf ?ib) (Suc k)) = mset (foot ?bs buf (eff bm buf ib) k) + mset [b]"
    using foot_grow_indirect [OF li'(2) _ kmax f(4), of buf] k ne by simp
  have us: "used al ?bm c \<longleftrightarrow> used al bm c \<or> c \<in> set [b]" if "c < block_cnt bm0" for c
    using that f(1) g by (simp add: used_mark)
  have clear: "slots_clear ?bs buf (Suc k)" using d(6) k by (simp add: slots_clear_def)
  have "resized al bm0 buf0 F0 (Suc k) ?bm buf ?ib \<and> set F0 \<subseteq> set (foot ?bs buf (eff ?bm buf ?ib) (Suc k))"
    by (intro conjI resized_add [OF r F0 _ _ _ same_data_mark [OF d(1) f(1)] us d(2) same_header_refl _ _ clear ft])
      (use b f k lib in \<open>simp_all add: ib_ok_def\<close>)
  then show ?thesis unfolding grow_outcome_def using step by blast
qed

text \<open>The step at which the indirect block itself is needed takes two blocks.\<close>

lemma grow_step_first:
  assumes st: "start_ok al bm0 F0" and r: "resized al bm0 buf0 F0 k bm buf ib"
    and F0: "set F0 \<subseteq> set (foot (block_sz bm0) buf (eff bm buf ib) k)" and k: "k = ndirect (block_sz bm0)"
    and bs8: "8 \<le> block_sz bm0"
    and b: "b \<in> free_set al bm" and a: "allocate al bm = Inr (Ok b, mark al True b bm)"
  shows "grow_outcome al bm0 buf0 F0 (Suc k) (grow_step al (ndirect (block_sz bm0)) k (buf, ib) bm)"
proof -
  let ?bs = "block_sz bm0" and ?bm = "mark al True b bm"
  note d = resizedD [OF r] and g = resized_geometry [OF r] and f = free_block_facts [OF st r b]
  have bmok: "alloc_ok al ?bm" using g f(1) by (simp add: alloc_ok_mark)
  have ib: "ib = []" using d(5) k by simp
  have s0: "slot buf (ndirect ?bs) = 0" using d(6) k by (simp add: slots_clear_def)
  have nd: "ndirect ?bs < nslots ?bs" using d(2) by (simp add: ino_ok_def nslots_pos)
  have nodir: "\<not> is_direct_block buf k" using k by (simp add: direct_num_ok [OF d(2)])
  have fr: "free_set al ?bm = free_set al bm - {b}" using g f(1) by (simp add: free_set_mark)
  from bmok show ?thesis
  proof (cases rule: allocate_cases)
    case 1
    then have "free_set al bm = {b}" using fr b by auto
    then have "card (free_set al bm) = 1" by simp
    then have "card (free_set al bm0) + length F0 < total_blks ?bs (Suc k)"
      using d(10) k by (simp add: length_foot_total total_blks_def)
    moreover have "grow_step al (ndirect ?bs) k (buf, ib) bm = Inr (Err OUT_OF_RESOURCE, ?bm)"
      using a 1(2) nodir by (simp add: grow_step_def chain_def get_or_insert_absent [OF d(2) s0])
    ultimately show ?thesis
      using leaked_mark(2) [OF r F0 f(1)] 1(1) unfolding grow_outcome_def by blast
  next
    case (2 q)
    let ?bm2 = "mark al True q ?bm" and ?buf = "set_slot buf (ndirect ?bs) q"
    have q: "q \<in> free_set al bm" "q \<noteq> b" using 2(1) fr by auto
    note fq = free_block_facts [OF st r q(1)]
    have bm2: "alloc_ok al ?bm2" using bmok fq(1) g by (simp add: alloc_ok_mark)
    have q0: "q \<noteq> 0" using fq(3) start_lo [OF st] by simp
    have sl: "slot ?buf (ndirect ?bs) = q" using nd d(2) fq(4) by (simp add: ino_ok_def slot_set_slot)
    have ino: "ino_ok ?bs ?buf" using d(2) nd by (rule ino_ok_set_slot)
    then have ino2: "ino_ok (block_sz ?bm2) ?buf" using g by simp
    let ?e = "blk ?bm2 q"
    have li: "load_indirect ?buf [] ?bm2 = Inr (Ok ?e, ?bm2)"
      using load_indirect_ok(1) [OF alloc_ok_wf [OF bm2] ino2 ib_ok_Nil] sl q0 fq(1) g
      by (simp add: ind_blk_def)
    have le: "length ?e = ?bs" using alloc_ok_wf [OF bm2] fq(1) g by simp
    let ?ib = "put_le ?e (8 * (k - ndirect ?bs)) 8 b"
    have room: "k - ndirect ?bs < length ?e div 8" using k le bs8 by simp
    have lib: "length ?ib = ?bs" using indirect_room [OF room] le by simp
    have ne: "?ib \<noteq> []" using lib bs8 by auto
    have "ndirect ?bs \<le> ?bs" "8 * ?bs < 2 ^ 32" using d(2) by (simp_all add: ndirect_def nslots_def ino_ok_def)
    then have "k < 2 ^ 32" using k by linarith
    then have "sub32 k (ndirect ?bs) = k - ndirect ?bs" using k by (intro sub32_id) simp_all
    then have step: "grow_step al (ndirect ?bs) k (buf, ib) bm = Inr (Ok (?buf, ?ib), ?bm2)"
      using a 2(3) nodir li indirect_set_ok [OF room] ib
      by (simp add: grow_step_def chain_def get_or_insert_absent [OF d(2) s0])
    have same: "foot ?bs ?buf ?e k = foot ?bs buf (eff bm buf ib) k"
    proof (rule foot_cong)
      fix j assume "j < k"
      then show "wblock ?bs ?buf ?e j = wblock ?bs buf (eff bm buf ib) j"
        using k nd d(2) fq(4) by (simp add: wblock_def slot_set_slot ino_ok_def)
    qed (simp add: k)
    have kmax: "k < ?bs div 8 + ndirect ?bs" using k bs8 by simp
    have "foot ?bs ?buf ?ib (Suc k) = [q] @ foot ?bs buf (eff bm buf ib) k @ [b]"
      using foot_grow_indirect [OF le _ kmax f(4), of ?buf] k by (simp add: sl same [unfolded k])
    then have ft: "mset (foot ?bs ?buf (eff ?bm2 ?buf ?ib) (Suc k)) = mset (foot ?bs buf (eff bm buf ib) k) + mset [q, b]"
      using ne by simp
    have us: "used al ?bm2 c \<longleftrightarrow> used al bm c \<or> c \<in> set [q, b]" if "c < block_cnt bm0" for c
      using that f(1) fq(1) g bmok by (simp add: used_mark)
    have sd: "same_data al bm0 ?bm2" using same_data_mark [OF same_data_mark [OF d(1) f(1)] fq(1)] .
    have clear: "slots_clear ?bs ?buf (Suc k)"
      using d(2,6) nd k fq(4) by (intro slots_clear_set) simp_all
    have "resized al bm0 buf0 F0 (Suc k) ?bm2 ?buf ?ib \<and> set F0 \<subseteq> set (foot ?bs ?buf (eff ?bm2 ?buf ?ib) (Suc k))"
      by (intro conjI resized_add [OF r F0 _ _ _ sd us ino same_header_set_slot [OF d(2) nd] _ _ clear ft])
        (use b q f fq k lib in \<open>auto simp: ib_ok_def\<close>)
    then show ?thesis unfolding grow_outcome_def using step by blast
  qed
qed

lemma grow_step_ok:
  assumes st: "start_ok al bm0 F0" and r: "resized al bm0 buf0 F0 k bm buf ib"
    and F0: "set F0 \<subseteq> set (foot (block_sz bm0) buf (eff bm buf ib) k)"
    and kmax: "k < block_sz bm0 div 8 + ndirect (block_sz bm0)"
  shows "grow_outcome al bm0 buf0 F0 (Suc k) (grow_step al (ndirect (block_sz bm0)) k (buf, ib) bm)"
  using resized_geometry(3) [OF r]
proof (cases rule: allocate_cases)
  case 1
  then have "card (free_set al bm0) + length F0 < total_blks (block_sz bm0) (Suc k)"
    using resizedD(10) [OF r] by (auto simp: length_foot_total total_blks_def split: if_splits)
  moreover have "grow_step al (ndirect (block_sz bm0)) k (buf, ib) bm = Inr (Err OUT_OF_RESOURCE, bm)"
    using 1(2) by (simp add: grow_step_def chain_def)
  ultimately show ?thesis using leaked_mark(1) [OF r F0] 1(1) unfolding grow_outcome_def by blast
next
  case (2 b)
  have "8 \<le> block_sz bm0" using resizedD(2) [OF r] by (simp add: ino_ok_def)
  then show ?thesis
    using grow_step_direct [OF st r F0 _ 2(1,3)] grow_step_first [OF st r F0 _ _ 2(1,3)]
      grow_step_further [OF st r F0 _ kmax 2(1,3)] by (meson linorder_neqE_nat)
qed

lemma grow_loop_ok:
  assumes st: "start_ok al bm0 F0"
  shows "resized al bm0 buf0 F0 k bm buf ib \<Longrightarrow>
    set F0 \<subseteq> set (foot (block_sz bm0) buf (eff bm buf ib) k) \<Longrightarrow>
    k + n \<le> block_sz bm0 div 8 + ndirect (block_sz bm0) \<Longrightarrow>
    grow_outcome al bm0 buf0 F0 (k + n) (grow_loop al (ndirect (block_sz bm0)) k n (buf, ib) bm)"
proof (induction n arbitrary: k bm buf ib)
  case 0
  then show ?case unfolding grow_outcome_def by auto
next
  case (Suc n)
  have "k < block_sz bm0 div 8 + ndirect (block_sz bm0)" using Suc.prems(3) by simp
  from grow_step_ok [OF st Suc.prems(1,2) this]
  consider (ok) buf' ib' bm' where
      "grow_step al (ndirect (block_sz bm0)) k (buf, ib) bm = Inr (Ok (buf', ib'), bm')"
      "resized al bm0 buf0 F0 (Suc k) bm' buf' ib'"
      "set F0 \<subseteq> set (foot (block_sz bm0) buf' (eff bm' buf' ib') (Suc k))"
    | (full) bm' where "grow_step al (ndirect (block_sz bm0)) k (buf, ib) bm = Inr (Err OUT_OF_RESOURCE, bm')"
      "leaked al bm0 bm'" "card (free_set al bm0) + length F0 < total_blks (block_sz bm0) (Suc k)"
      "free_set al bm' = {}"
    unfolding grow_outcome_def by blast
  then show ?case
  proof cases
    case ok
    then show ?thesis using Suc.IH [OF ok(2,3)] Suc.prems(3) by (simp add: chain_def)
  next
    case full
    have "total_blks (block_sz bm0) (Suc k) \<le> total_blks (block_sz bm0) (k + Suc n)"
      by (rule total_blks_mono) simp
    then show ?thesis using full by (auto simp: grow_outcome_def chain_def)
  qed
qed

subsection \<open>The shrinking loop\<close>

text \<open>
  Blocks \<open>n1 \<le> i < k\<close> have been given back, blocks \<open>k \<le> i < n0\<close> are still to go; \<open>w0\<close> are
  the block ids the operation started with.
\<close>

definition shrinking :: "block_allocator \<Rightarrow> block_manager \<Rightarrow> byte list \<Rightarrow> nat \<Rightarrow> nat \<Rightarrow> nat
    \<Rightarrow> block_manager \<Rightarrow> byte list \<Rightarrow> byte list \<Rightarrow> bool" where
  "shrinking al bm0 buf0 n1 n0 k bm buf ib \<longleftrightarrow>
     (let bs = block_sz bm0; w0 = wblock bs buf0 (ind_blk bm0 buf0) in
     same_data al bm0 bm \<and> ino_ok bs buf \<and> same_header buf0 buf \<and> ib_ok bs ib
     \<and> (n0 \<le> ndirect bs \<longrightarrow> ib = []) \<and> slot buf (ndirect bs) = slot buf0 (ndirect bs)
     \<and> (\<forall>i. i < n1 \<or> k \<le> i \<and> i < n0 \<longrightarrow> wblock bs buf (eff bm buf ib) i = w0 i)
     \<and> (\<forall>i < ndirect bs. n1 \<le> i \<and> i < k \<or> n0 \<le> i \<longrightarrow> slot buf i = 0)
     \<and> (\<forall>c < block_cnt bm0. used al bm c \<longleftrightarrow> used al bm0 c \<and> c \<notin> w0 ` {n1..<k})
     \<and> card (free_set al bm) = card (free_set al bm0) + (k - n1))"

lemma shrinkingD:
  assumes "shrinking al bm0 buf0 n1 n0 k bm buf ib"
  shows "same_data al bm0 bm" and "ino_ok (block_sz bm0) buf" and "same_header buf0 buf"
    and "ib_ok (block_sz bm0) ib" and "n0 \<le> ndirect (block_sz bm0) \<Longrightarrow> ib = []"
    and "slot buf (ndirect (block_sz bm0)) = slot buf0 (ndirect (block_sz bm0))"
    and "i < n1 \<or> k \<le> i \<and> i < n0 \<Longrightarrow>
         wblock (block_sz bm0) buf (eff bm buf ib) i = wblock (block_sz bm0) buf0 (ind_blk bm0 buf0) i"
    and "i < ndirect (block_sz bm0) \<Longrightarrow> n1 \<le> i \<and> i < k \<or> n0 \<le> i \<Longrightarrow> slot buf i = 0"
    and "c < block_cnt bm0 \<Longrightarrow> used al bm c \<longleftrightarrow> used al bm0 c \<and> c \<notin> wblock (block_sz bm0) buf0 (ind_blk bm0 buf0) ` {n1..<k}"
    and "card (free_set al bm) = card (free_set al bm0) + (k - n1)"
  using assms unfolding shrinking_def Let_def by blast+

lemma shrinking_geometry:
  assumes "shrinking al bm0 buf0 n1 n0 k bm buf ib"
  shows "block_sz bm = block_sz bm0" and "block_cnt bm = block_cnt bm0" and "alloc_ok al bm"
  using shrinkingD(1) [OF assms] by (simp_all add: same_data_def)

text \<open>The operation starts from an inode whose \<open>n0\<close> blocks are \<open>F0\<close>.\<close>

definition inode_start :: "block_allocator \<Rightarrow> block_manager \<Rightarrow> byte list \<Rightarrow> nat list \<Rightarrow> nat \<Rightarrow> bool" where
  "inode_start al bm0 buf0 F0 n0 \<longleftrightarrow> start_ok al bm0 F0 \<and> ino_ok (block_sz bm0) buf0
     \<and> F0 = foot (block_sz bm0) buf0 (ind_blk bm0 buf0) n0 \<and> slots_clear (block_sz bm0) buf0 n0
     \<and> n0 \<le> block_sz bm0 div 8 + ndirect (block_sz bm0)"

lemma inode_start_foot:
  assumes "inode_start al bm0 buf0 F0 n0" and "i < n0"
  shows "wblock (block_sz bm0) buf0 (ind_blk bm0 buf0) i \<in> set F0"
    and "data_lo al \<le> wblock (block_sz bm0) buf0 (ind_blk bm0 buf0) i"
    and "wblock (block_sz bm0) buf0 (ind_blk bm0 buf0) i < block_cnt bm0"
    and "used al bm0 (wblock (block_sz bm0) buf0 (ind_blk bm0 buf0) i)"
    and "j < n0 \<Longrightarrow> i \<noteq> j \<Longrightarrow> wblock (block_sz bm0) buf0 (ind_blk bm0 buf0) i
           \<noteq> wblock (block_sz bm0) buf0 (ind_blk bm0 buf0) j"
proof -
  let ?w = "wblock (block_sz bm0) buf0 (ind_blk bm0 buf0)"
  have F0: "F0 = foot (block_sz bm0) buf0 (ind_blk bm0 buf0) n0" and st: "start_ok al bm0 F0"
    using assms(1) unfolding inode_start_def by blast+
  show m: "?w i \<in> set F0" using assms(2) by (auto simp: F0 set_foot)
  then show "data_lo al \<le> ?w i" "?w i < block_cnt bm0" "used al bm0 (?w i)"
    using st by (simp_all add: start_ok_def)
  have "distinct (map ?w [0..<n0])" using st F0 by (simp add: start_ok_def foot_def)
  then have "inj_on ?w {0..<n0}" by (simp add: distinct_map)
  then show "?w i \<noteq> ?w j" if "j < n0" "i \<noteq> j"
    using that assms(2) by (auto dest: inj_onD)
qed

lemma inode_start_indirect:
  assumes "inode_start al bm0 buf0 F0 n0" and "ndirect (block_sz bm0) < n0"
  defines "p \<equiv> slot buf0 (ndirect (block_sz bm0))"
  shows "data_lo al \<le> p" and "p < block_cnt bm0" and "p \<noteq> 0" and "used al bm0 p" and "p \<in> set F0"
    and "i < n0 \<Longrightarrow> wblock (block_sz bm0) buf0 (ind_blk bm0 buf0) i \<noteq> p"
proof -
  have F0: "F0 = p # map (wblock (block_sz bm0) buf0 (ind_blk bm0 buf0)) [0..<n0]" and st: "start_ok al bm0 F0"
  proof -
    show "start_ok al bm0 F0" using assms(1) unfolding inode_start_def by blast
    have "F0 = foot (block_sz bm0) buf0 (ind_blk bm0 buf0) n0" using assms(1) unfolding inode_start_def by blast
    then show "F0 = p # map (wblock (block_sz bm0) buf0 (ind_blk bm0 buf0)) [0..<n0]"
      using assms(2) by (simp add: foot_def p_def)
  qed
  show "p \<in> set F0" using F0 by simp
  then show lo: "data_lo al \<le> p" and "p < block_cnt bm0" "used al bm0 p" using st by (simp_all add: start_ok_def)
  show "p \<noteq> 0" using lo start_lo [OF st] by simp
  have "distinct F0" using st by (simp add: start_ok_def)
  then show "i < n0 \<Longrightarrow> wblock (block_sz bm0) buf0 (ind_blk bm0 buf0) i \<noteq> p" by (auto simp: F0)
qed

lemma inode_start_indirect_image:
  assumes "inode_start al bm0 buf0 F0 n0" and "ndirect (block_sz bm0) < n0" and "A \<subseteq> {..<n0}"
  shows "slot buf0 (ndirect (block_sz bm0)) \<notin> wblock (block_sz bm0) buf0 (ind_blk bm0 buf0) ` A"
proof
  assume "slot buf0 (ndirect (block_sz bm0)) \<in> wblock (block_sz bm0) buf0 (ind_blk bm0 buf0) ` A"
  then obtain i where i: "i \<in> A"
    "slot buf0 (ndirect (block_sz bm0)) = wblock (block_sz bm0) buf0 (ind_blk bm0 buf0) i" by auto
  from i(1) assms(3) have "i < n0" by auto
  from inode_start_indirect(6) [OF assms(1,2) this] i(2) show False by simp
qed

lemma inode_start_resized:
  assumes "inode_start al bm0 buf0 F0 n0"
  shows "resized al bm0 buf0 F0 n0 bm0 buf0 []"
  using assms unfolding resized_def inode_start_def start_ok_def Let_def
  by (auto simp: same_data_refl)

lemma inode_start_shrinking:
  assumes "inode_start al bm0 buf0 F0 n0" and "n1 \<le> n0"
  shows "shrinking al bm0 buf0 n1 n0 n1 bm0 buf0 []"
  using assms unfolding shrinking_def inode_start_def start_ok_def Let_def
  by (auto simp: same_data_refl slots_clear_def)

lemma shrink_free:
  assumes st: "inode_start al bm0 buf0 F0 n0" and s: "shrinking al bm0 buf0 n1 n0 k bm buf ib"
    and k: "n1 \<le> k" "k < n0"
  defines "b \<equiv> wblock (block_sz bm0) buf0 (ind_blk bm0 buf0) k"
  shows "deallocate al b bm = Inr (Ok (), mark al False b bm)"
    and "same_data al bm0 (mark al False b bm)"
    and "c < block_cnt bm0 \<Longrightarrow> used al (mark al False b bm) c
         \<longleftrightarrow> used al bm0 c \<and> c \<notin> wblock (block_sz bm0) buf0 (ind_blk bm0 buf0) ` {n1..<Suc k}"
    and "card (free_set al (mark al False b bm)) = card (free_set al bm0) + (Suc k - n1)"
proof -
  let ?w = "wblock (block_sz bm0) buf0 (ind_blk bm0 buf0)"
  note d = shrinkingD [OF s] and g = shrinking_geometry [OF s] and f = inode_start_foot [OF st k(2)]
  have b: "b < block_cnt bm0" "used al bm0 b" using f unfolding b_def by simp_all
  have "b \<notin> ?w ` {n1..<k}"
  proof
    assume "b \<in> ?w ` {n1..<k}"
    then obtain j where j: "j < k" "?w k = ?w j" unfolding b_def by auto
    then show False using inode_start_foot(5) [OF st k(2), of j] k(2) by simp
  qed
  then have u: "used al bm b" using d(9) b by simp
  show "deallocate al b bm = Inr (Ok (), mark al False b bm)"
    using u b g by (simp add: deallocate_eq)
  show "same_data al bm0 (mark al False b bm)" using d(1) b(1) by (rule same_data_mark)
  have im: "?w ` {n1..<Suc k} = insert b (?w ` {n1..<k})"
    using k(1) by (simp add: atLeastLessThanSuc b_def)
  show "used al (mark al False b bm) c \<longleftrightarrow> used al bm0 c \<and> c \<notin> ?w ` {n1..<Suc k}" if "c < block_cnt bm0"
    using that b g d(9) unfolding im by (simp add: used_mark)
  have "b \<notin> free_set al bm" using u by (simp add: free_set_def)
  then show "card (free_set al (mark al False b bm)) = card (free_set al bm0) + (Suc k - n1)"
    using d(10) b g k(1) by (simp add: free_set_mark Suc_diff_le)
qed

lemma shrink_step_direct:
  assumes st: "inode_start al bm0 buf0 F0 n0" and s: "shrinking al bm0 buf0 n1 n0 k bm buf ib"
    and k: "n1 \<le> k" "k < n0" and dir: "k < ndirect (block_sz bm0)"
  shows "\<exists>buf' ib' bm'. shrink_step al (ndirect (block_sz bm0)) k (buf, ib) bm = Inr (Ok (buf', ib'), bm')
    \<and> shrinking al bm0 buf0 n1 n0 (Suc k) bm' buf' ib'"
proof -
  let ?bs = "block_sz bm0" and ?w = "wblock (block_sz bm0) buf0 (ind_blk bm0 buf0)"
  let ?bm = "mark al False (?w k) bm" and ?buf = "set_slot buf k 0"
  note d = shrinkingD [OF s] and g = shrinking_geometry [OF s] and fr = shrink_free [OF st s k]
  have len: "length buf = ?bs" and nd: "ndirect ?bs < nslots ?bs"
    using d(2) by (simp_all add: ino_ok_def nslots_pos)
  have kn: "k < nslots ?bs" using dir nd by linarith
  have sl: "slot ?buf i = (if i = k then 0 else slot buf i)" if "i \<le> ndirect ?bs" for i
    using that len kn nd by (intro slot_set_slot) simp_all
  have "slot buf k = ?w k" using d(7) [of k] k dir by (simp add: wblock_def)
  then have step: "shrink_step al (ndirect ?bs) k (buf, ib) bm = Inr (Ok (?buf, ib), ?bm)"
    using dir kn d(2) fr(1)
    by (simp add: shrink_step_def chain_def direct_num_ok [OF d(2)] blocks_get_ok blocks_set_ok KInvalidBlockID_def)
  have eff: "wblock ?bs ?buf (eff ?bm ?buf ib) i = wblock ?bs buf (eff bm buf ib) i"
    if "i \<noteq> k" "i < n0" for i
  proof (cases "i < ndirect ?bs")
    case True
    then show ?thesis using sl [of i] that by (simp add: wblock_def)
  next
    case False
    have p: "data_lo al \<le> slot buf0 (ndirect ?bs)" "slot buf0 (ndirect ?bs) < block_cnt bm0"
      using inode_start_indirect(1,2) [OF st] False that by simp_all
    have "blk ?bm (slot buf0 (ndirect ?bs)) = blk bm (slot buf0 (ndirect ?bs))"
      using same_data_blk [OF fr(2) p] same_data_blk [OF d(1) p] by simp
    then have "eff ?bm ?buf ib = eff bm buf ib"
      using sl [of "ndirect ?bs"] d(6) dir g by (simp add: eff_def ind_blk_def)
    then show ?thesis using False by (simp add: wblock_def)
  qed
  have "shrinking al bm0 buf0 n1 n0 (Suc k) ?bm ?buf ib"
    unfolding shrinking_def Let_def
  proof (intro conjI allI impI)
    fix i assume "i < n1 \<or> Suc k \<le> i \<and> i < n0"
    then have "i \<noteq> k" "i < n0" "i < n1 \<or> k \<le> i \<and> i < n0" using k by linarith+
    then show "wblock ?bs ?buf (eff ?bm ?buf ib) i = ?w i" using eff d(7) by simp
  next
    fix i assume "i < ndirect ?bs" "n1 \<le> i \<and> i < Suc k \<or> n0 \<le> i"
    then show "slot ?buf i = 0" using sl [of i] d(8) [of i] by (auto simp: less_Suc_eq)
  next
    fix c assume "c < block_cnt bm0"
    then show "used al ?bm c = (used al bm0 c \<and> c \<notin> ?w ` {n1..<Suc k})" by (rule fr(3))
  next
    show "slot ?buf (ndirect ?bs) = slot buf0 (ndirect ?bs)" using sl [of "ndirect ?bs"] d(6) dir by simp
    show "same_header buf0 ?buf" using d(3) same_header_set_slot [OF d(2) kn] by (rule same_header_trans)
    show "ino_ok ?bs ?buf" using d(2) kn by (rule ino_ok_set_slot)
    show "n0 \<le> ndirect ?bs \<Longrightarrow> ib = []" by (rule d(5))
  qed (fact fr d)+
  then show ?thesis using step by blast
qed

lemma shrink_step_indirect:
  assumes st: "inode_start al bm0 buf0 F0 n0" and s: "shrinking al bm0 buf0 n1 n0 k bm buf ib"
    and k: "n1 \<le> k" "k < n0" and ind: "\<not> k < ndirect (block_sz bm0)"
  shows "\<exists>buf' ib' bm'. shrink_step al (ndirect (block_sz bm0)) k (buf, ib) bm = Inr (Ok (buf', ib'), bm')
    \<and> shrinking al bm0 buf0 n1 n0 (Suc k) bm' buf' ib'"
proof -
  let ?bs = "block_sz bm0" and ?w = "wblock (block_sz bm0) buf0 (ind_blk bm0 buf0)"
  let ?bm = "mark al False (?w k) bm" and ?p = "slot buf0 (ndirect (block_sz bm0))" and ?e = "eff bm buf ib"
  note d = shrinkingD [OF s] and g = shrinking_geometry [OF s] and fr = shrink_free [OF st s k]
  have nd: "ndirect ?bs < n0" using ind k by simp
  note p = inode_start_indirect [OF st nd]
  have ino: "ino_ok (block_sz bm) buf" "ib_ok (block_sz bm) ib" using d(2,4) g by simp_all
  note li = load_indirect_ok [OF alloc_ok_wf [OF g(3)] ino]
  have li': "load_indirect buf ib bm = Inr (Ok ?e, bm)" "length ?e = ?bs"
    using li p(2,3) g d(6) by simp_all
  have kmax: "k < ?bs div 8 + ndirect ?bs" using st k by (simp add: inode_start_def)
  have room: "k - ndirect ?bs < length ?e div 8" using kmax ind li'(2) by simp
  have "ndirect ?bs \<le> ?bs" "8 * ?bs < 2 ^ 32" "0 < ?bs" using d(2) by (simp_all add: ndirect_def nslots_def ino_ok_def)
  then have k32: "k < 2 ^ 32" and bs: "0 < ?bs" using kmax by linarith+
  let ?ib = "put_le ?e (8 * (k - ndirect ?bs)) 8 0"
  have lib: "length ?ib = ?bs" using indirect_room [OF room] li'(2) by simp
  then have ne: "?ib \<noteq> []" using bs by auto
  have "get_le ?e (8 * (k - ndirect ?bs)) 8 = ?w k" using d(7) [of k] k ind by (simp add: wblock_def)
  then have step: "shrink_step al (ndirect ?bs) k (buf, ib) bm = Inr (Ok (buf, ?ib), ?bm)"
    using ind li'(1) k32 indirect_get_ok [OF room] indirect_set_ok [OF room, of 0] fr(1)
    by (simp add: shrink_step_def chain_def direct_num_ok [OF d(2)] sub32_id KInvalidBlockID_def)
  have wput: "wblock ?bs buf ?ib i = wblock ?bs buf ?e i" if "i \<noteq> k" for i
  proof (cases "i < ndirect ?bs \<or> length ?e < 8 * (i - ndirect ?bs) + 8")
    case True
    then show ?thesis
    proof
      assume out: "length ?e < 8 * (i - ndirect ?bs) + 8"
      have a: "8 * (k - ndirect ?bs) + 8 \<le> length ?e" using room by (rule indirect_room)
      then have "k - ndirect ?bs < i - ndirect ?bs" using out by linarith
      then have "8 * (k - ndirect ?bs) + 8 \<le> 8 * (i - ndirect ?bs)" by linarith
      then have "drop (8 * (i - ndirect ?bs)) ?ib = drop (8 * (i - ndirect ?bs)) ?e"
        using a by (simp add: put_le_def store_def drop_drop add.commute)
      then show ?thesis by (simp add: wblock_def get_le_def load_def)
    qed (simp add: wblock_def)
  next
    case False
    have a: "8 * (k - ndirect ?bs) + 8 \<le> length ?e" using room by (rule indirect_room)
    have "k - ndirect ?bs \<noteq> i - ndirect ?bs" using False ind that by linarith
    then have "8 * (i - ndirect ?bs) + 8 \<le> 8 * (k - ndirect ?bs) \<or> 8 * (k - ndirect ?bs) + 8 \<le> 8 * (i - ndirect ?bs)"
      by linarith
    then show ?thesis using False a by (simp add: wblock_def get_put_other)
  qed
  have "shrinking al bm0 buf0 n1 n0 (Suc k) ?bm buf ?ib"
    unfolding shrinking_def Let_def
  proof (intro conjI allI impI)
    fix i assume "i < n1 \<or> Suc k \<le> i \<and> i < n0"
    then have "i \<noteq> k" "i < n1 \<or> k \<le> i \<and> i < n0" using k by linarith+
    then show "wblock ?bs buf (eff ?bm buf ?ib) i = ?w i" using wput d(7) ne by simp
  next
    fix i assume "i < ndirect ?bs" "n1 \<le> i \<and> i < Suc k \<or> n0 \<le> i"
    then show "slot buf i = 0" using d(8) [of i] ind by auto
  next
    fix c assume "c < block_cnt bm0"
    then show "used al ?bm c = (used al bm0 c \<and> c \<notin> ?w ` {n1..<Suc k})" by (rule fr(3))
  next
    show "n0 \<le> ndirect ?bs \<Longrightarrow> ?ib = []" using nd by simp
    show "ib_ok ?bs ?ib" using lib by (simp add: ib_ok_def)
  qed (fact fr d)+
  then show ?thesis using step by blast
qed

lemma shrink_loop_ok:
  assumes st: "inode_start al bm0 buf0 F0 n0"
  shows "shrinking al bm0 buf0 n1 n0 k bm buf ib \<Longrightarrow> n1 \<le> k \<Longrightarrow> k + n = n0 \<Longrightarrow>
    \<exists>buf' ib' bm'. shrink_loop al (ndirect (block_sz bm0)) k n (buf, ib) bm = Inr (Ok (buf', ib'), bm')
      \<and> shrinking al bm0 buf0 n1 n0 n0 bm' buf' ib'"
proof (induction n arbitrary: k bm buf ib)
  case 0
  then show ?case by auto
next
  case (Suc n)
  have k: "k < n0" using Suc.prems(3) by simp
  obtain buf' ib' bm' where s: "shrink_step al (ndirect (block_sz bm0)) k (buf, ib) bm = Inr (Ok (buf', ib'), bm')"
      "shrinking al bm0 buf0 n1 n0 (Suc k) bm' buf' ib'"
    using shrink_step_direct [OF st Suc.prems(1,2) k] shrink_step_indirect [OF st Suc.prems(1,2) k] by blast
  then show ?case using Suc.IH [OF s(2)] Suc.prems(2,3) by (simp add: chain_def)
qed

lemma foot_start:
  assumes st: "inode_start al bm0 buf0 F0 n0" and n: "n1 \<le> n0"
  shows "distinct (foot (block_sz bm0) buf0 (ind_blk bm0 buf0) n1)"
    and "set (foot (block_sz bm0) buf0 (ind_blk bm0 buf0) n1) \<subseteq> set F0"
    and "x \<in> set (foot (block_sz bm0) buf0 (ind_blk bm0 buf0) n1) \<Longrightarrow>
         x \<notin> wblock (block_sz bm0) buf0 (ind_blk bm0 buf0) ` {n1..<n0}"
proof -
  let ?bs = "block_sz bm0" and ?w = "wblock (block_sz bm0) buf0 (ind_blk bm0 buf0)"
  have F0: "F0 = foot ?bs buf0 (ind_blk bm0 buf0) n0" and d: "distinct F0"
    using st unfolding inode_start_def start_ok_def by blast+
  have inj: "inj_on ?w {..<n0}" using inode_start_foot(5) [OF st] by (intro inj_onI) auto
  have "distinct (map ?w [0..<n1])"
    using inj n by (simp add: distinct_map inj_on_def)
  moreover have "slot buf0 (ndirect ?bs) \<notin> ?w ` {0..<n1}" if "ndirect ?bs < n1"
    by (rule inode_start_indirect_image [OF st]) (use that n in auto)
  ultimately show "distinct (foot ?bs buf0 (ind_blk bm0 buf0) n1)" by (simp add: foot_def)
  show "set (foot ?bs buf0 (ind_blk bm0 buf0) n1) \<subseteq> set F0"
    using n by (auto simp: F0 set_foot)
  show "x \<notin> ?w ` {n1..<n0}" if "x \<in> set (foot ?bs buf0 (ind_blk bm0 buf0) n1)"
  proof
    assume "x \<in> ?w ` {n1..<n0}"
    then obtain j where j: "n1 \<le> j" "j < n0" "x = ?w j" by auto
    from that consider "ndirect ?bs < n1" "x = slot buf0 (ndirect ?bs)" | i where "i < n1" "x = ?w i"
      by (auto simp: set_foot split: if_splits)
    then show False
    proof cases
      case 1
      then show False using inode_start_indirect(6) [OF st, of j] j n by simp
    next
      case 2
      then show False using inode_start_foot(5) [OF st j(2), of i] j n by simp
    qed
  qed
qed

lemma shrink_finish:
  assumes st: "inode_start al bm0 buf0 F0 n0" and s: "shrinking al bm0 buf0 n1 n0 n0 bm buf ib" and n: "n1 \<le> n0"
  shows "\<exists>buf' ib' bm'. drop_indirect al (ndirect (block_sz bm0)) n0 n1 (buf, ib) bm = Inr (Ok (buf', ib'), bm')
    \<and> resized al bm0 buf0 F0 n1 bm' buf' ib'"
proof -
  let ?bs = "block_sz bm0" and ?w = "wblock (block_sz bm0) buf0 (ind_blk bm0 buf0)"
  let ?p = "slot buf0 (ndirect (block_sz bm0))" and ?F = "foot (block_sz bm0) buf0 (ind_blk bm0 buf0) n1"
  note d = shrinkingD [OF s] and g = shrinking_geometry [OF s] and f = foot_start [OF st n]
  have sto: "start_ok al bm0 F0" and F0: "F0 = foot ?bs buf0 (ind_blk bm0 buf0) n0"
    and clear0: "slots_clear ?bs buf0 n0"
    using st unfolding inode_start_def by blast+
  have len: "length buf = ?bs" and nd: "ndirect ?bs < nslots ?bs"
    using d(2) by (simp_all add: ino_ok_def nslots_pos)
  have freed: "?w ` {n1..<n0} \<subseteq> set F0" using inode_start_foot(1) [OF st] by auto
  have in0: "data_lo al \<le> x \<and> x < block_cnt bm0 \<and> used al bm0 x" if "x \<in> set ?F" for x
    using that f(2) sto by (auto simp: start_ok_def)
  have clear: "slot buf i = 0" if "i < ndirect ?bs" "n1 \<le> i" for i
    using d(8) [OF that(1)] that n by (cases "i < n0") simp_all
  show ?thesis
  proof (cases "ndirect ?bs < n0 \<and> n1 \<le> ndirect ?bs")
    case True
    let ?bm = "mark al False ?p bm" and ?buf = "set_slot buf (ndirect ?bs) 0"
    have np: "ndirect ?bs < n0" using True by simp
    note p = inode_start_indirect [OF st np]
    have pw: "?p \<notin> ?w ` {n1..<n0}" by (rule inode_start_indirect_image [OF st np]) auto
    have up: "used al bm ?p" using p d(9) pw by simp
    have sl: "slot ?buf i = (if i = ndirect ?bs then 0 else slot buf i)" if "i \<le> ndirect ?bs" for i
      using that len nd by (intro slot_set_slot) simp_all
    have gi: "get_indirect_block_id buf = Inr ?p" "invalid_indirect_block_id buf = Inr ?buf"
      using d(6) p(3) nd d(2)
      by (simp_all add: get_indirect_block_id_def invalid_indirect_block_id_def direct_num_ok [OF d(2)]
          blocks_get_ok blocks_set_ok KInvalidBlockID_def)
    have step: "drop_indirect al (ndirect ?bs) n0 n1 (buf, ib) bm = Inr (Ok (?buf, []), ?bm)"
      using True gi up p g by (simp add: drop_indirect_def chain_def deallocate_eq)
    have F: "foot ?bs ?buf (eff ?bm ?buf []) n1 = ?F"
    proof (rule foot_cong)
      fix i assume i: "i < n1"
      then have "i < ndirect ?bs" using True by simp
      then show "wblock ?bs ?buf (eff ?bm ?buf []) i = ?w i"
        using d(7) [of i] sl [of i] i by (simp add: wblock_def)
    qed (use True in simp)
    have us: "used al ?bm c \<longleftrightarrow> c \<noteq> ?p \<and> used al bm c" if "c < block_cnt bm0" for c
      using that p g by (simp add: used_mark)
    have "?p \<notin> ?w ` {..<n1}" by (rule inode_start_indirect_image [OF st np]) (use n in auto)
    then have pF: "?p \<notin> set ?F" using True by (simp add: set_foot)
    have "card (free_set al ?bm) = Suc (card (free_set al bm))"
      using up p g by (simp add: free_set_mark) (simp add: free_set_def)
    then have card: "card (free_set al ?bm) + length ?F = card (free_set al bm0) + length F0"
      using d(10) True n by (simp add: F0 length_foot)
    have "resized al bm0 buf0 F0 n1 ?bm ?buf []"
      unfolding resized_def Let_def F
    proof (intro conjI ballI allI impI)
      fix x assume x: "x \<in> set ?F"
      show "data_lo al \<le> x" "x < block_cnt bm0" using in0 [OF x] by simp_all
      show "x \<in> set F0 \<or> \<not> used al bm0 x" using x f(2) by blast
      show "used al ?bm x" using us [of x] d(9) [of x] in0 [OF x] f(3) [OF x] x pF by auto
    next
      fix c assume c: "c < block_cnt bm0" "used al bm0 c \<and> c \<notin> set F0"
      then show "used al ?bm c" using us [of c] d(9) [of c] freed p(5) by auto
    next
      show "same_data al bm0 ?bm" using d(1) p(2) by (rule same_data_mark)
      show "ino_ok ?bs ?buf" using d(2) nd by (rule ino_ok_set_slot)
      show "same_header buf0 ?buf" using d(3) same_header_set_slot [OF d(2) nd] by (rule same_header_trans)
      show "slots_clear ?bs ?buf n1" using sl clear by (auto simp: slots_clear_def)
      show "ib_ok ?bs []" by simp
      show "([] :: byte list) = []" ..
    qed (fact f card)+
    then show ?thesis using step by blast
  next
    case False
    have step: "drop_indirect al (ndirect ?bs) n0 n1 (buf, ib) bm = Inr (Ok (buf, ib), bm)"
      using False by (auto simp: drop_indirect_def)
    have F: "foot ?bs buf (eff bm buf ib) n1 = ?F"
      by (rule foot_cong) (use d(6,7) in simp_all)
    have card: "card (free_set al bm) + length ?F = card (free_set al bm0) + length F0"
      using d(10) False n by (auto simp: F0 length_foot)
    have "resized al bm0 buf0 F0 n1 bm buf ib"
      unfolding resized_def Let_def F
    proof (intro conjI ballI allI impI)
      fix x assume x: "x \<in> set ?F"
      show "data_lo al \<le> x" "x < block_cnt bm0" using in0 [OF x] by simp_all
      show "x \<in> set F0 \<or> \<not> used al bm0 x" using x f(2) by blast
      show "used al bm x" using d(9) [of x] in0 [OF x] f(3) [OF x] by auto
    next
      fix c assume c: "c < block_cnt bm0" "used al bm0 c \<and> c \<notin> set F0"
      then show "used al bm c" using d(9) [of c] freed by auto
    next
      show "slots_clear ?bs buf n1"
        unfolding slots_clear_def
      proof (intro allI impI)
        fix i assume i: "i \<le> ndirect ?bs" "n1 \<le> i"
        show "slot buf i = 0"
        proof (cases "i = ndirect ?bs")
          case True
          then have "n0 \<le> ndirect ?bs" using False i by auto
          then show ?thesis using True d(6) clear0 by (simp add: slots_clear_def)
        qed (use clear i in simp)
      qed
      show "ib = []" if "n1 \<le> ndirect ?bs" using that False d(5) by auto
    qed (fact d f card)+
    then show ?thesis using step by blast
  qed
qed

text \<open>Both cases together.\<close>

lemma resize_blocks_ok:
  assumes st: "inode_start al bm0 buf0 F0 n0" and n1: "n1 \<le> block_sz bm0 div 8 + ndirect (block_sz bm0)"
  obtains (ok) buf ib bm where
      "resize_blocks al (ndirect (block_sz bm0)) n0 n1 buf0 bm0 = Inr (Ok (buf, ib), bm)"
      "resized al bm0 buf0 F0 n1 bm buf ib"
    | (full) bm where "resize_blocks al (ndirect (block_sz bm0)) n0 n1 buf0 bm0 = Inr (Err OUT_OF_RESOURCE, bm)"
      "leaked al bm0 bm" "card (free_set al bm0) + length F0 < total_blks (block_sz bm0) n1" "free_set al bm = {}"
proof (cases "n1 > n0")
  case True
  have sto: "start_ok al bm0 F0" and F0: "F0 = foot (block_sz bm0) buf0 (ind_blk bm0 buf0) n0"
    using st unfolding inode_start_def by blast+
  have "grow_outcome al bm0 buf0 F0 (n0 + (n1 - n0))
      (grow_loop al (ndirect (block_sz bm0)) n0 (n1 - n0) (buf0, []) bm0)"
    using grow_loop_ok [OF sto inode_start_resized [OF st], of "n1 - n0"] True n1 F0 by simp
  then show ?thesis using True ok full by (auto simp: grow_outcome_def resize_blocks_def)
next
  case False
  then have n: "n1 \<le> n0" by simp
  from shrink_loop_ok [OF st inode_start_shrinking [OF st n], of "n0 - n1"] n obtain buf' ib' bm' where
      l: "shrink_loop al (ndirect (block_sz bm0)) n1 (n0 - n1) (buf0, []) bm0 = Inr (Ok (buf', ib'), bm')"
      "shrinking al bm0 buf0 n1 n0 n0 bm' buf' ib'" by auto
  from shrink_finish [OF st l(2) n] l(1) False ok show ?thesis
    by (auto simp: resize_blocks_def chain_def)
qed

end
