(* ===== verification/File_Write.thy ===== *)
theory File_Write
  imports File_Resize
begin

text \<open>
  The second half of \<open>write_file\<close>, which copies the content to the blocks and stores inode and
  indirect block, and the specification of the whole: with enough free blocks \<open>write_file\<close>
  replaces the data of one file in \<open>abs_fs\<close> and nothing else; without, it returns
  \<open>OUT_OF_RESOURCE\<close> and \<open>abs_fs\<close> is as before. Either way the device is sound afterwards.
\<close>

subsection \<open>The pieces of the content\<close>

definition piece :: "nat \<Rightarrow> byte list \<Rightarrow> nat \<Rightarrow> byte list" where
  "piece bs content k = (let sz = min bs (length content - k * bs)
     in store (replicate bs 0) 0 (load content (k * bs) sz))"

lemma length_piece [simp]: "k * bs \<le> length content \<Longrightarrow> length (piece bs content k) = bs"
  by (simp add: piece_def Let_def)

lemma take_piece:
  assumes "k * bs \<le> length content"
  shows "take (length content - k * bs) (piece bs content k) = take bs (drop (k * bs) content)"
proof -
  let ?sz = "min bs (length content - k * bs)"
  have "take (length content - k * bs) (piece bs content k) = take ?sz (piece bs content k)"
    using assms by (simp add: min_def)
  also have "\<dots> = load content (k * bs) ?sz"
    using assms by (simp add: piece_def Let_def store_def)
  finally show ?thesis by (simp add: load_def min_def)
qed

lemma pieces_content:
  assumes "0 < bs" and "n = nblk bs (length content)"
  shows "take (length content) (concat (map (piece bs content) [0..<n])) = content"
proof -
  have k_le: "k * bs \<le> length content" if "k < n" for k
  proof -
    have "0 < length content" using that assms nblk_bounds(4) [OF assms(1), of "length content"] by simp
    then have "(n - 1) * bs < length content" using nblk_bounds(2) [OF assms(1)] assms(2) by simp
    moreover have "k * bs \<le> (n - 1) * bs" using that by (intro mult_le_mono1) simp
    ultimately show ?thesis by linarith
  qed
  have len: "length (concat (map (piece bs content) [0..<k])) = k * bs" if "k \<le> n" for k
    using that by (induction k) (simp_all add: k_le)
  have "take (length content) (concat (map (piece bs content) [0..<k])) = take (k * bs) content" if "k \<le> n" for k
    using that
  proof (induction k)
    case (Suc k)
    then have le: "k * bs \<le> length content" using k_le by simp
    have "take (length content) (concat (map (piece bs content) [0..<Suc k]))
        = take (k * bs) content @ take bs (drop (k * bs) content)"
      using Suc le by (simp add: len take_piece)
    also have "\<dots> = take (Suc k * bs) content"
      by (metis add.commute mult_Suc take_add)
    finally show ?case .
  qed simp
  from this [of n] show ?thesis using nblk_bounds(1) [OF assms(1), of "length content"] assms(2) by simp
qed

subsection \<open>The copying loop\<close>

definition piece_writes :: "nat \<Rightarrow> byte list \<Rightarrow> byte list \<Rightarrow> byte list \<Rightarrow> nat \<Rightarrow> nat \<Rightarrow> (nat \<times> byte list) list" where
  "piece_writes bs content buf E k n = map (\<lambda>j. (wblock bs buf E j, piece bs content j)) [k..<n]"

lemma eff_upd:
  assumes "wf_bm bm" and "b < block_cnt bm" and "length d = block_sz bm"
    and "slot buf (ndirect (block_sz bm)) \<noteq> b" and "slot buf (ndirect (block_sz bm)) < block_cnt bm"
  shows "eff (upd_blk b d bm) buf ib = eff bm buf ib"
  using assms by (simp add: eff_def ind_blk_def blk_upd_blk)

lemma write_loop_ok:
  assumes n: "n = nblk bs (length content)"
    and rng: "\<And>k. k < n \<Longrightarrow> wblock bs buf E k < cnt"
    and ind: "\<And>k. k < n \<Longrightarrow> ndirect bs < n \<Longrightarrow> slot buf (ndirect bs) \<noteq> wblock bs buf E k"
  shows "k \<le> n \<Longrightarrow> wf_bm bm \<Longrightarrow> block_sz bm = bs \<Longrightarrow> block_cnt bm = cnt \<Longrightarrow> locatable bm buf n \<Longrightarrow>
    ndirect bs < n \<longrightarrow> eff bm buf ib = E \<Longrightarrow> ib_ok bs ib \<Longrightarrow>
    \<exists>ib'. write_loop (ndirect bs) bs content (min (k * bs) (length content)) k buf ib bm
      = Inr (Ok ib', dev.wr_all (piece_writes bs content buf E k n) bm)
    \<and> ib_ok bs ib' \<and> (ib' = ib \<or> ndirect bs < n \<and> ib' = E)"
proof (induction "n - k" arbitrary: k ib bm)
  case 0
  then have "k = n" by simp
  moreover have "length content \<le> n * bs"
    using nblk_bounds(1) [of bs "length content"] "0.prems"(2,3) n by auto
  ultimately show ?case using "0.prems" by (simp add: write_loop.simps min_def piece_writes_def)
next
  case (Suc m)
  let ?len = "length content"
  have k: "k < n" and bs: "0 < bs" using Suc.hyps(2) Suc.prems(2,3) by auto
  have "0 < ?len" using k n nblk_bounds(4) [OF bs, of ?len] by simp
  then have "(n - 1) * bs < ?len" using nblk_bounds(2) [OF bs] n by simp
  moreover have "k * bs \<le> (n - 1) * bs" using k by (intro mult_le_mono1) simp
  ultimately have lt: "k * bs < ?len" by linarith
  let ?sz = "if ?len - k * bs > bs then bs else ?len - k * bs"
  let ?b = "wblock bs buf E k" and ?ib = "if k < ndirect bs then ib else eff bm buf ib"
  have next_sz: "k * bs + ?sz = min (Suc k * bs) ?len" using lt by (auto simp: min_def)
  have w: "wblock bs buf (eff bm buf ib) k = ?b"
    using Suc.prems(6) k by (auto simp: wblock_def)
  have cb: "content_block (ndirect bs) k (buf, ib) bm = Inr (Ok (?b, ?ib), bm)"
    using content_block_ok [OF Suc.prems(2,5) k, of ib] Suc.prems(3,7) w by simp
  have sz: "?sz = min bs (?len - k * bs)" by auto
  have pc: "store (replicate bs 0) 0 (load content (k * bs) ?sz) = piece bs content k"
    unfolding piece_def Let_def sz ..
  have lp: "length (piece bs content k) = bs" using lt by simp
  let ?bm = "upd_blk ?b (piece bs content k) bm"
  have b: "?b < block_cnt bm" using rng k Suc.prems(4) by simp
  have wr: "write_block ?b (piece bs content k) bm = Inr (Ok (), ?bm)"
    using Suc.prems(2,3) b lp by (simp add: write_block_ok)
  have m: "min (k * bs) ?len = k * bs" using lt by simp
  have step: "write_loop (ndirect bs) bs content (k * bs) k buf ib bm
      = write_loop (ndirect bs) bs content (k * bs + ?sz) (Suc k) buf ?ib ?bm"
    using lt bs cb wr pc by (subst write_loop.simps) (simp add: chain_def Let_def)
  have wf': "wf_bm ?bm" using Suc.prems(2,3) b lp by simp
  have loc': "locatable ?bm buf n" using Suc.prems(5) by (simp add: locatable_def)
  have li: "ndirect bs < n \<Longrightarrow> length (eff bm buf ib) = bs"
    using load_indirect_ok(2) [OF Suc.prems(2), of buf ib] Suc.prems(3,5,7) by (simp add: locatable_def)
  have ib': "ib_ok bs ?ib" using Suc.prems(7) li k by (auto simp: ib_ok_def)
  have ne: "ndirect bs < n \<Longrightarrow> E \<noteq> []" using li Suc.prems(6) bs by auto
  have eff': "ndirect bs < n \<longrightarrow> eff ?bm buf ?ib = E"
  proof
    assume nd: "ndirect bs < n"
    then have "eff bm buf ib = E" using Suc.prems(6) by simp
    moreover have "eff ?bm buf ib = eff bm buf ib"
      using Suc.prems(2-5) b lp ind [OF k nd] nd by (intro eff_upd) (simp_all add: locatable_def)
    ultimately show "eff ?bm buf ?ib = E" using ne nd by simp
  qed
  have "m = n - Suc k" "Suc k \<le> n" using Suc.hyps(2) k by simp_all
  from Suc.hyps(1) [OF this wf' _ _ loc' eff' ib'] Suc.prems(3,4) obtain ib2 where r:
      "write_loop (ndirect bs) bs content (min (Suc k * bs) ?len) (Suc k) buf ?ib ?bm
       = Inr (Ok ib2, dev.wr_all (piece_writes bs content buf E (Suc k) n) ?bm)"
      "ib_ok bs ib2" "ib2 = ?ib \<or> ndirect bs < n \<and> ib2 = E" by auto
  have pw: "piece_writes bs content buf E k n = (?b, piece bs content k) # piece_writes bs content buf E (Suc k) n"
    using k by (simp add: piece_writes_def upt_conv_Cons)
  have "ib2 = ib \<or> ndirect bs < n \<and> ib2 = E"
    using r(3) k Suc.prems(6) by (auto split: if_splits)
  then show ?case
    unfolding m step next_sz pw using r(1,2) by auto
qed

subsection \<open>Storing the inode\<close>

lemma attr_fields_less:
  assumes "ino_ok bs buf"
  shows "atime (get_attr_of buf) < 2 ^ 64" and "mtime (get_attr_of buf) < 2 ^ 64"
    and "ctime (get_attr_of buf) < 2 ^ 64" and "fsize (get_attr_of buf) < 2 ^ 64"
proof -
  have len: "44 \<le> length buf" using assms by (simp add: ino_ok_def)
  show "atime (get_attr_of buf) < 2 ^ 64" "mtime (get_attr_of buf) < 2 ^ 64"
    "ctime (get_attr_of buf) < 2 ^ 64" "fsize (get_attr_of buf) < 2 ^ 64"
    unfolding get_attr_of_def file_attr.simps using len by (intro get_le8_less; simp)+
qed

definition stamped :: "nat \<Rightarrow> nat \<Rightarrow> file_attr" where
  "stamped now sz = \<lparr>atime = now, mtime = now, ctime = now, fsize = sz\<rparr>"

definition sized_inode :: "nat \<Rightarrow> nat \<Rightarrow> byte list \<Rightarrow> byte list" where
  "sized_inode now sz buf = put_attr (set_mtime now (get_attr_of buf \<lparr>fsize := sz\<rparr>)) buf"

definition final_inode :: "nat \<Rightarrow> nat \<Rightarrow> byte list \<Rightarrow> byte list" where
  "final_inode now sz buf = put_attr (set_all_time now (get_attr_of (sized_inode now sz buf))) (sized_inode now sz buf)"

lemma final_inode_ok:
  assumes ok: "ino_ok bs buf" and now: "now < 2 ^ 64" and sz: "sz < 2 ^ 64"
  shows "ino_ok bs (sized_inode now sz buf)" and "k < nslots bs \<Longrightarrow> slot (sized_inode now sz buf) k = slot buf k"
    and "ino_ok bs (final_inode now sz buf)" and "k < nslots bs \<Longrightarrow> slot (final_inode now sz buf) k = slot buf k"
    and "get_attr_of (final_inode now sz buf) = stamped now sz"
    and "get_type_code (final_inode now sz buf) = get_type_code buf"
    and "get_size (final_inode now sz buf) = sz"
proof -
  let ?a = "set_mtime now (get_attr_of buf \<lparr>fsize := sz\<rparr>)"
  note f = attr_fields_less [OF ok]
  have a: "atime ?a < 2 ^ 64" "mtime ?a < 2 ^ 64" "ctime ?a < 2 ^ 64" "fsize ?a < 2 ^ 64"
    using f now sz by (simp_all add: set_mtime_def)
  note p = put_attr_ok [OF ok a]
  show s: "ino_ok bs (sized_inode now sz buf)" using p(2) by (simp add: sized_inode_def)
  show sl: "slot (sized_inode now sz buf) k = slot buf k" if "k < nslots bs" for k
    using p(5) [OF that] by (simp add: sized_inode_def)
  let ?b = "set_all_time now (get_attr_of (sized_inode now sz buf))"
  have b: "?b = stamped now sz"
    using p(1) by (simp add: sized_inode_def set_all_time_def set_mtime_def stamped_def)
  have bl: "atime ?b < 2 ^ 64" "mtime ?b < 2 ^ 64" "ctime ?b < 2 ^ 64" "fsize ?b < 2 ^ 64"
    using now sz by (simp_all add: b stamped_def)
  note q = put_attr_ok [OF s bl]
  show "ino_ok bs (final_inode now sz buf)" "get_attr_of (final_inode now sz buf) = stamped now sz"
    "get_type_code (final_inode now sz buf) = get_type_code buf"
  proof -
    show "ino_ok bs (final_inode now sz buf)" using q(2) by (simp add: final_inode_def)
    show "get_attr_of (final_inode now sz buf) = stamped now sz" using q(1) b by (simp add: final_inode_def)
    show "get_type_code (final_inode now sz buf) = get_type_code buf"
      using q(3) p(3) by (simp add: final_inode_def sized_inode_def)
  qed
  show "get_size (final_inode now sz buf) = sz"
    using q(4) b by (simp add: final_inode_def stamped_def)
  show "slot (final_inode now sz buf) k = slot buf k" if "k < nslots bs"
    using q(5) [OF that] sl [OF that] by (simp add: final_inode_def)
qed

lemma write_indirect_block_ok:
  assumes "wf_bm bm" and "ino_ok (block_sz bm) buf" and "length ib = block_sz bm"
    and "slot buf (ndirect (block_sz bm)) \<noteq> 0" and "slot buf (ndirect (block_sz bm)) < block_cnt bm"
  shows "write_indirect_block buf ib bm = Inr (Ok (), upd_blk (slot buf (ndirect (block_sz bm))) ib bm)"
proof -
  have "ndirect (block_sz bm) < nslots (block_sz bm)" using assms(2) by (simp add: ino_ok_def nslots_pos)
  then show ?thesis
    using assms by (simp add: write_indirect_block_def direct_num_ok [OF assms(2)] blocks_get_ok
        write_block_ok KInvalidBlockID_def)
qed

definition store_writes :: "nat \<Rightarrow> byte list \<Rightarrow> nat \<Rightarrow> nat \<Rightarrow> byte list \<Rightarrow> byte list \<Rightarrow> byte list \<Rightarrow> (nat \<times> byte list) list" where
  "store_writes bs content now b buf E ib2 =
     piece_writes bs content buf E 0 (nblk bs (length content))
     @ (b, final_inode now (length content) buf)
     # (if ib2 = [] then [] else [(slot buf (ndirect bs), ib2)])"

lemma store_content_ok:
  assumes st: "start_ok al bm0 F0" and r: "resized al bm0 buf0 F0 n bm buf ib"
    and n: "n = nblk (block_sz bm0) (length content)" and sz: "length content \<le> max_size (block_sz bm0)"
    and now: "now < 2 ^ 64" and b: "b < block_cnt bm0"
  defines "E \<equiv> eff bm buf ib"
  obtains ib2 where "store_content (ndirect (block_sz bm0)) (block_sz bm0) content now b buf ib bm
      = Inr (Ok (), dev.wr_all (store_writes (block_sz bm0) content now b buf E ib2) bm)"
    and "dev.fits bm (store_writes (block_sz bm0) content now b buf E ib2)"
    and "ib2 = [] \<and> ib = [] \<or> ndirect (block_sz bm0) < n \<and> ib2 = E"
proof -
  let ?bs = "block_sz bm0" and ?sz = "length content"
  let ?buf2 = "sized_inode now ?sz buf" and ?buf3 = "final_inode now ?sz buf"
  note d = resizedD [OF r] and g = resized_geometry [OF r]
  have bs: "0 < ?bs" "8 * ?bs < 2 ^ 32" using d(2) by (simp_all add: ino_ok_def)
  have wf: "wf_bm bm" using g(3) by simp
  have sz64: "?sz < 2 ^ 64" using sz max_size_less(1) [OF bs(2)] by simp
  note fi = final_inode_ok [OF d(2) now sz64]
  have nd: "ndirect ?bs < nslots ?bs" using d(2) by (simp add: ino_ok_def nslots_pos)
  have nmax: "n \<le> ?bs div 8 + ndirect ?bs" using nblk_max [OF bs(1) sz] n by simp
  have loc: "locatable bm buf n" using resized_locatable [OF r nmax start_lo [OF st]] .
  have loc2: "locatable bm ?buf2 n" using loc fi(1,2) nd g by (simp add: locatable_def)
  have w2: "wblock ?bs ?buf2 E k = wblock ?bs buf E k" for k using fi(2) nd by (simp add: wblock_def)
  have dist: "distinct (foot ?bs buf E n)" using d(7) by (simp add: E_def)
  have inF: "wblock ?bs buf E k \<in> set (foot ?bs buf E n)" if "k < n" for k using that by (simp add: set_foot)
  have rng: "wblock ?bs ?buf2 E k < block_cnt bm0" if "k < n" for k
    using inF [OF that] d(8) w2 by (simp add: E_def)
  have ind: "slot ?buf2 (ndirect ?bs) \<noteq> wblock ?bs ?buf2 E k" if "k < n" "ndirect ?bs < n" for k
    using dist that fi(2) [OF nd] unfolding w2 by (auto simp: foot_def)
  have eff2: "eff bm ?buf2 ib = E" using fi(2) [OF nd] g by (simp add: eff_def ind_blk_def E_def)
  have pw: "piece_writes ?bs content ?buf2 E 0 n = piece_writes ?bs content buf E 0 n"
    by (simp add: piece_writes_def w2)
  from write_loop_ok [OF n rng ind, of 0 bm ib] wf g loc2 eff2 d(4) obtain ib2 where wl:
      "write_loop (ndirect ?bs) ?bs content 0 0 ?buf2 ib bm
       = Inr (Ok ib2, dev.wr_all (piece_writes ?bs content buf E 0 n) bm)"
      "ib_ok ?bs ib2" "ib2 = ib \<or> ndirect ?bs < n \<and> ib2 = E"
    by (auto simp: pw)
  have alt: "ib2 = [] \<and> ib = [] \<or> ndirect ?bs < n \<and> ib2 = E"
  proof (cases "ib2 = ib \<and> ib \<noteq> []")
    case True
    then have "ib2 = E" by (simp add: E_def)
    moreover have "ndirect ?bs < n" using True d(5) by (meson not_less)
    ultimately show ?thesis by simp
  next
    case False
    then show ?thesis using wl(3) by auto
  qed
  have l3: "length ?buf3 = ?bs" using fi(3) by (simp add: ino_ok_def)
  have p: "slot buf (ndirect ?bs) < block_cnt bm0" "slot buf (ndirect ?bs) \<noteq> 0" if "ndirect ?bs < n"
    using loc that g by (simp_all add: locatable_def)
  have lE: "length E = ?bs" if "ndirect ?bs < n"
    using load_indirect_ok(2) [OF wf, of buf ib] d(2,4) g p that by (simp add: E_def)
  have kbs: "k * ?bs \<le> ?sz" if "k < n" for k
  proof -
    have "0 < ?sz" using that n nblk_bounds(4) [OF bs(1), of ?sz] by simp
    then have "(n - 1) * ?bs < ?sz" using nblk_bounds(2) [OF bs(1)] n by simp
    moreover have "k * ?bs \<le> (n - 1) * ?bs" using that by (intro mult_le_mono1) simp
    ultimately show ?thesis by linarith
  qed
  let ?ws = "piece_writes ?bs content buf E 0 n"
  have fits1: "dev.fits bm ?ws"
    using rng kbs g by (auto simp: dev.fits_def piece_writes_def w2)
  have fits: "dev.fits bm (store_writes ?bs content now b buf E ib2)"
    using fits1 b l3 p lE alt g n bs by (auto simp: store_writes_def dev.fits_def)
  let ?bm1 = "dev.wr_all ?ws bm"
  have wf1: "wf_bm ?bm1" using wf fits1 by (rule dev.wf_wr_all)
  have wb: "write_block b ?buf3 ?bm1 = Inr (Ok (), upd_blk b ?buf3 ?bm1)"
    using wf1 b l3 g by (simp add: write_block_ok)
  have wf2: "wf_bm (upd_blk b ?buf3 ?bm1)" using wf1 b l3 g by simp
  have wi: "write_indirect_block ?buf3 ib2 (upd_blk b ?buf3 ?bm1)
      = Inr (Ok (), upd_blk (slot buf (ndirect ?bs)) ib2 (upd_blk b ?buf3 ?bm1))" if "ib2 \<noteq> []"
  proof -
    have "ndirect ?bs < n" "ib2 = E" using alt that by auto
    then show ?thesis
      using write_indirect_block_ok [OF wf2, of ?buf3 ib2] fi(3) fi(4) [OF nd] lE p g by simp
  qed
  have fold: "dev.wr_all (store_writes ?bs content now b buf E ib2) bm =
      (if ib2 = [] then upd_blk b ?buf3 ?bm1 else upd_blk (slot buf (ndirect ?bs)) ib2 (upd_blk b ?buf3 ?bm1))"
    by (simp add: store_writes_def dev.wr_all_def n)
  have "store_content (ndirect ?bs) ?bs content now b buf ib bm
      = Inr (Ok (), dev.wr_all (store_writes ?bs content now b buf E ib2) bm)"
    unfolding store_content_def Let_def fold
    using wl(1) wb wi by (simp add: sized_inode_def final_inode_def chain_def)
  then show ?thesis using that fits alt by blast
qed

end
