(* ===== verification/File_Spec.thy ===== *)
theory File_Spec
  imports File_Write
begin

text \<open>
  The operations of \<open>FileOperation\<close> on the abstract file system: \<open>write_file\<close>, and what is
  built on it (\<open>write_file_w_off\<close>, \<open>read_file_w_off\<close>, \<open>resize\<close>).
\<close>

subsection \<open>The blocks after storing\<close>

lemma store_writes_effect:
  assumes st: "start_ok al bm0 F0" and r: "resized al bm0 buf0 F0 n bm buf ib"
    and n: "n = nblk (block_sz bm0) (length content)"
    and b: "b < block_cnt bm0" "b \<notin> set (foot (block_sz bm0) buf (eff bm buf ib) n)"
    and fits: "dev.fits bm (store_writes (block_sz bm0) content now b buf (eff bm buf ib) ib2)"
    and ib2: "ib2 = [] \<and> ib = [] \<or> ndirect (block_sz bm0) < n \<and> ib2 = eff bm buf ib"
  defines "E \<equiv> eff bm buf ib" and "bmF \<equiv> dev.wr_all (store_writes (block_sz bm0) content now b buf (eff bm buf ib) ib2) bm"
  shows "c < block_cnt bm0 \<Longrightarrow> c \<noteq> b \<Longrightarrow> c \<notin> set (foot (block_sz bm0) buf E n) \<Longrightarrow> blk bmF c = blk bm c"
    and "blk bmF b = final_inode now (length content) buf"
    and "k < n \<Longrightarrow> blk bmF (wblock (block_sz bm0) buf E k) = piece (block_sz bm0) content k"
    and "ndirect (block_sz bm0) < n \<Longrightarrow> blk bmF (slot buf (ndirect (block_sz bm0))) = E"
    and "wf_bm bmF" and "block_sz bmF = block_sz bm0" and "block_cnt bmF = block_cnt bm0"
proof -
  let ?bs = "block_sz bm0" and ?ws = "store_writes (block_sz bm0) content now b buf E ib2" and ?F = "foot (block_sz bm0) buf E n"
  let ?p = "slot buf (ndirect (block_sz bm0))" and ?w = "wblock (block_sz bm0) buf E"
  note d = resizedD [OF r] and g = resized_geometry [OF r]
  have wf: "wf_bm bm" using g(3) by simp
  have fits': "dev.fits bm ?ws" using fits by (simp add: E_def)
  have bmF: "bmF = dev.wr_all ?ws bm" by (simp add: bmF_def E_def)
  show "wf_bm bmF" unfolding bmF using wf fits' by (rule dev.wf_wr_all)
  show "block_sz bmF = ?bs" "block_cnt bmF = block_cnt bm0" using g by (simp_all add: bmF)
  have dist: "distinct ?F" using d(7) by (simp add: E_def)
  have dw: "distinct (map ?w [0..<n])" using dist by (simp add: foot_def)
  have bF: "b \<notin> set ?F" using b(2) by (simp add: E_def)
  have ids: "fst ` set ?ws \<subseteq> insert b (set ?F)"
    using ib2 n by (auto simp: store_writes_def piece_writes_def set_foot E_def)
  have dws: "distinct (map fst ?ws)"
  proof -
    have "map fst ?ws = map ?w [0..<n] @ b # (if ib2 = [] then [] else [?p])"
      using n by (simp add: store_writes_def piece_writes_def)
    moreover have "b \<notin> ?w ` {0..<n}" using bF by (auto simp: set_foot)
    moreover have "?p \<noteq> b \<and> ?p \<notin> ?w ` {0..<n}" if "ib2 \<noteq> []"
    proof -
      have nd: "ndirect ?bs < n" using ib2 that by auto
      then show ?thesis using bF dist by (auto simp: foot_def)
    qed
    ultimately show ?thesis using dw by auto
  qed
  show "blk bmF c = blk bm c" if "c < block_cnt bm0" "c \<noteq> b" "c \<notin> set ?F"
    unfolding bmF using wf fits' that ids g by (intro dev.rd_wr_all_notin) auto
  show "blk bmF b = final_inode now (length content) buf"
    unfolding bmF using wf fits' dws by (rule dev.rd_wr_all_in) (simp add: store_writes_def)
  show "blk bmF (?w k) = piece ?bs content k" if "k < n"
    unfolding bmF using wf fits' dws
    by (rule dev.rd_wr_all_in) (use that n in \<open>auto simp: store_writes_def piece_writes_def\<close>)
  show "blk bmF ?p = E" if nd: "ndirect ?bs < n"
  proof (cases "ib2 = []")
    case False
    then have "ib2 = E" using ib2 by (simp add: E_def)
    then show ?thesis
      unfolding bmF using wf fits' dws False
      by (intro dev.rd_wr_all_in) (simp_all add: store_writes_def)
  next
    case True
    have pF: "?p \<in> set ?F" using nd by (simp add: set_foot)
    have "eff bm buf ib \<noteq> []"
      using load_indirect_ok(3) [OF wf, of buf ib] d(2,4) g nd start_lo [OF st] pF d(8) [of ?p]
      by (auto simp: E_def)
    then have "ib = []" using True ib2 by auto
    then have E: "E = blk bm ?p" using g by (simp add: E_def ind_blk_def)
    have "?p \<notin> ?w ` {0..<n}" "?p \<noteq> b" using dist nd bF pF by (auto simp: foot_def)
    then have "?p \<notin> fst ` set ?ws"
      using True n by (auto simp: store_writes_def piece_writes_def)
    moreover have "?p < block_cnt bm" using pF d(8) [of ?p] g by (simp add: E_def)
    ultimately have "blk bmF ?p = blk bm ?p"
      unfolding bmF using wf fits' by (intro dev.rd_wr_all_notin)
    then show ?thesis using E by simp
  qed
qed

subsection \<open>The bookkeeping blocks are not data\<close>

lemma used_cong:
  assumes "alloc_ok al bm" and "block_sz bm' = block_sz bm" and "c < block_cnt bm"
    and "\<And>x. bitmap_block_id al \<le> x \<Longrightarrow> x < data_lo al \<Longrightarrow> blk bm' x = blk bm x"
  shows "used al bm' c = used al bm c"
  using bm_home_range(1) [OF assms(1,3)] assms(2,4) by (simp add: used_def bm_home_def data_lo_def)

lemma same_data_tables:
  assumes ok: "fs_ok fs bm" and sd: "same_data (block_allocator_of fs) bm bm'" and j: "j < max_ino fs"
  shows "table bm' j = table bm j" and "taken fs bm' j = taken fs bm j"
proof -
  note rg = fs_ok_regions [OF ok]
  have "blk bm' c = blk bm c" if "c < im_end (inode_manager_of fs)" for c
    using sd that rg(1-3) by (simp add: same_data_def)
  then show "table bm' j = table bm j" "taken fs bm' j = taken fs bm j"
    using table_cong [OF fs_ok_im [OF ok], of j bm'] ibit_cong [OF fs_ok_im [OF ok], of j bm'] j sd
    by (simp_all add: max_ino_def same_data_def)
qed

lemma same_data_zero:
  assumes ok: "fs_ok fs bm" and sd: "same_data (block_allocator_of fs) bm bm'"
  shows "blk bm' 0 = blk bm 0"
proof -
  have "0 < im_end (inode_manager_of fs)" "im_end (inode_manager_of fs) < block_cnt bm"
    using fs_ok_im [OF ok] by (simp_all add: im_ok_def im_end_def)
  then show ?thesis using sd fs_ok_regions(1) [OF ok] by (simp add: same_data_def)
qed

text \<open>Blocks that are in use without an owner do no harm.\<close>

lemma fs_ok_leaked:
  assumes ok: "fs_ok fs bm" and l: "leaked (block_allocator_of fs) bm bm'"
  shows "fs_ok fs bm'" and "abs_fs fs bm' = abs_fs fs bm"
proof -
  let ?al = "block_allocator_of fs"
  have sd: "same_data ?al bm bm'" and us: "\<And>c. c < block_cnt bm \<Longrightarrow> used ?al bm c \<Longrightarrow> used ?al bm' c"
    using l by (simp_all add: leaked_def)
  have geo: "alloc_ok ?al bm'" "block_sz bm' = block_sz bm" "block_cnt bm' = block_cnt bm"
    using sd by (simp_all add: same_data_def)
  note rg = fs_ok_regions [OF ok] and ob = own_block [OF ok]
  have oth: "blk bm' x = blk bm x \<and> used ?al bm' x"
    if "j < max_ino fs" "taken fs bm j" "x \<in> set (own bm (table bm j))" for j x
    using ob [OF that] us same_data_blk [OF sd] by simp
  show "fs_ok fs bm'"
    by (rule fs_ok_step [OF ok geo same_data_zero [OF ok sd], where i = "max_ino fs"])
      (use us rg oth same_data_tables [OF ok sd] in auto)
  show "abs_fs fs bm' = abs_fs fs bm"
  proof
    fix ino
    have "file_at bm' (table bm j) = file_at bm (table bm j)" if "j < max_ino fs" "taken fs bm j" for j
      using own_unchanged [of bm "table bm j" bm'] oth [OF that] geo(2) by (simp add: file_at_def)
    then show "abs_fs fs bm' ino = abs_fs fs bm ino"
      using same_data_tables [OF ok sd, of "ino - 1"] by (cases ino) (auto simp: abs_fs_def)
  qed
qed

subsection \<open>A file after writing\<close>

lemma fs_start:
  assumes ok: "fs_ok fs bm" and i: "i < max_ino fs" and t: "taken fs bm i"
  shows "inode_start (block_allocator_of fs) bm (blk bm (table bm i)) (tl (own bm (table bm i)))
           (inode_blks bm (table bm i))"
    and "start_ok (block_allocator_of fs) bm (tl (own bm (table bm i)))"
proof -
  let ?b = "table bm i"
  note w = fs_ok_inode [OF ok i t]
  have own: "own bm ?b = ?b # tl (own bm ?b)" by (simp add: own_def)
  have "distinct (own bm ?b)" using w by (simp add: inode_wf_def)
  then have dist: "distinct (tl (own bm ?b))" by (rule distinct_tl)
  show s: "start_ok (block_allocator_of fs) bm (tl (own bm ?b))"
    unfolding start_ok_def
    using fs_ok_al [OF ok] fs_ok_regions(5) [OF ok] own_block [OF ok i t] dist
    by (auto dest: list.set_sel(2) [OF _ , of "own bm ?b", rotated] simp: own_def)
  have "inode_blks bm ?b \<le> block_sz bm div 8 + ndirect (block_sz bm)"
    using w fs_ok_bs [OF ok] by (simp add: inode_blks_def inode_wf_def nblk_max)
  then show "inode_start (block_allocator_of fs) bm (blk bm ?b) (tl (own bm ?b)) (inode_blks bm ?b)"
    using w s by (simp add: inode_start_def inode_wf_def) (simp add: own_def)
qed

lemma written:
  assumes ok: "fs_ok fs bm0" and i: "i < max_ino fs" and t: "taken fs bm0 i"
    and b_def: "b = table bm0 i" and F0: "F0 = tl (own bm0 b)"
    and r: "resized (block_allocator_of fs) bm0 (blk bm0 b) F0 n bm buf ib"
    and n: "n = nblk (block_sz bm0) (length content)" and sz: "length content \<le> max_size (block_sz bm0)"
    and now: "now < 2 ^ 64"
  shows "\<exists>bmF. store_content (ndirect (block_sz bm0)) (block_sz bm0) content now b buf ib bm = Inr (Ok (), bmF)
    \<and> fs_ok fs bmF
    \<and> abs_fs fs bmF = (abs_fs fs bm0)(Suc i \<mapsto> \<lparr>ftype = get_type_code (blk bm0 b),
        fattr = stamped now (length content), fdata = content\<rparr>)
    \<and> card (free_set (block_allocator_of fs) bmF) + total_blks (block_sz bm0) n
      = card (free_set (block_allocator_of fs) bm0) + length F0
    \<and> block_sz bmF = block_sz bm0 \<and> block_cnt bmF = block_cnt bm0"
proof -
  let ?al = "block_allocator_of fs" and ?bs = "block_sz bm0" and ?E = "eff bm buf ib"
  let ?F = "foot ?bs buf ?E n" and ?w = "wblock ?bs buf ?E"
  note d = resizedD [OF r] and g = resized_geometry [OF r] and rg = fs_ok_regions [OF ok]
  have st: "start_ok ?al bm0 F0" using fs_start(2) [OF ok i t] by (simp add: F0 b_def)
  have own0: "own bm0 b = b # F0" by (simp add: F0 own_def)
  have w0: "inode_wf ?al bm0 b" using fs_ok_inode [OF ok i t] by (simp add: b_def)
  have bb: "b < block_cnt bm0" "data_lo ?al \<le> b" "used ?al bm0 b" "b \<notin> set F0"
    using w0 own0 by (simp_all add: inode_wf_def)
  have bF: "b \<notin> set ?F" using d(8) bb by blast
  from store_content_ok [OF st r n sz now bb(1)] obtain ib2 where sc:
      "store_content (ndirect ?bs) ?bs content now b buf ib bm
        = Inr (Ok (), dev.wr_all (store_writes ?bs content now b buf ?E ib2) bm)"
      "dev.fits bm (store_writes ?bs content now b buf ?E ib2)"
      "ib2 = [] \<and> ib = [] \<or> ndirect ?bs < n \<and> ib2 = ?E" .
  define bmF where "bmF = dev.wr_all (store_writes ?bs content now b buf ?E ib2) bm"
  note e = store_writes_effect [OF st r n bb(1) bF sc(2,3), folded bmF_def]
  have data: "data_lo ?al \<le> x \<and> x < block_cnt bm0" if "x \<in> set ?F" for x using d(8) [OF that] by simp
  have low: "blk bmF c = blk bm c" if "c < data_lo ?al" for c
    using that e(1) [of c] data [of c] bb(2) rg(3) by force
  have al: "alloc_ok ?al bmF"
    using g(3) e(5-7) g(1,2) by (simp add: alloc_ok_def)
  have us: "used ?al bmF c = used ?al bm c" if "c < block_cnt bm0" for c
    using low e(6) g that by (intro used_cong [OF g(3)]) simp_all
  have zero: "blk bmF 0 = blk bm0 0"
    using low [of 0] rg(4) same_data_zero [OF ok d(1)] by simp
  have tabs: "table bmF j = table bm0 j \<and> taken fs bmF j = taken fs bm0 j" if "j < max_ino fs" for j
  proof -
    have c: "blk bmF c = blk bm0 c" if "c < im_end (inode_manager_of fs)" for c
      using that low [of c] rg(1-3) d(1) by (simp add: same_data_def)
    show ?thesis
      using table_cong [OF fs_ok_im [OF ok], of j bmF] ibit_cong [OF fs_ok_im [OF ok], of j bmF] that c e(6)
      by (simp add: max_ino_def)
  qed
  have oth: "blk bmF x = blk bm0 x \<and> used ?al bmF x"
    if j: "j < max_ino fs" "j \<noteq> i" "taken fs bm0 j" "x \<in> set (own bm0 (table bm0 j))" for j x
  proof -
    note ob = own_block [OF ok j(1,3,4)]
    have "x \<notin> set (own bm0 b)" using fs_ok_disjoint [OF ok j(1) i j(3) t j(2) j(4)] by (simp add: b_def)
    then have x: "x \<noteq> b" "x \<notin> set F0" using own0 by simp_all
    then have "x \<notin> set ?F" using d(8) ob(3) by blast
    then have "blk bmF x = blk bm0 x"
      using e(1) [OF ob(2) x(1)] same_data_blk [OF d(1) ob(1,2)] by simp
    moreover have "used ?al bmF x" using us [OF ob(2)] d(9) [OF ob(2,3) x(2)] by simp
    ultimately show ?thesis by simp
  qed
  have sz64: "length content < 2 ^ 64"
  proof -
    have "8 * ?bs < 2 ^ 32" using fs_ok_bs [OF ok] by simp
    from max_size_less(1) [OF this] sz show ?thesis by simp
  qed
  note fi = final_inode_ok [OF d(2) now sz64]
  have nd: "ndirect ?bs < nslots ?bs" using d(2) by (simp add: ino_ok_def nslots_pos)
  have blks: "inode_blks bmF b = n" using e(2,6) fi(7) n by (simp add: inode_blks_def)
  have ind: "ndirect ?bs < n \<Longrightarrow> ind_blk bmF (blk bmF b) = ?E"
    using e(2,4,6) fi(4) [OF nd] by (simp add: ind_blk_def)
  have w: "wblock ?bs (blk bmF b) (ind_blk bmF (blk bmF b)) k = ?w k" if "k < n" for k
    using that ind e(2) fi(4) nd by (cases "k < ndirect ?bs") (simp_all add: wblock_def)
  have "foot ?bs (blk bmF b) (ind_blk bmF (blk bmF b)) n = ?F"
    using w e(2) fi(4) [OF nd] by (intro foot_cong) simp_all
  then have own: "own bmF b = b # ?F" by (simp add: own_def blks e(6))
  have ids: "data_ids bmF b = map ?w [0..<n]"
    using w by (simp add: data_ids_def blks e(6))
  have "map (blk bmF) (data_ids bmF b) = map (piece ?bs content) [0..<n]"
    using e(3) by (simp add: ids)
  then have cont: "content_of bmF b = content"
    using pieces_content [OF _ n] fs_ok_bs [OF ok] e(2) fi(7) by (simp add: content_of_def)
  have wf: "inode_wf ?al bmF b"
    unfolding inode_wf_def own blks e(6,7) e(2)
  proof (intro conjI ballI)
    show "ino_ok ?bs (final_inode now (length content) buf)" by (rule fi(3))
    show "get_size (final_inode now (length content) buf) \<le> max_size ?bs" using sz by (simp add: fi(7))
    show "slots_clear ?bs (final_inode now (length content) buf) n"
      using d(6) fi(4) nd by (simp add: slots_clear_def)
    show "distinct (b # ?F)" using bF d(7) by simp
    fix x assume x: "x \<in> set (b # ?F)"
    have ub: "used ?al bm b" using d(9) bb by blast
    show "data_lo ?al \<le> x" "x < block_cnt bm0" "used ?al bmF x"
      using x bb(1,2) ub us [of x] d(8) [of x] by auto
  qed
  have okF: "fs_ok fs bmF"
  proof (rule fs_ok_step [OF ok al e(6,7) zero, where i = i])
    fix c assume "c < data_lo ?al"
    then show "used ?al bmF c" using us [of c] rg(3) rg(5) [of c] d(9) [of c] st by (force simp: start_ok_def)
  next
    fix x assume "x \<in> set (own bmF (table bmF i))"
    then have "x = b \<or> x \<in> set ?F" using tabs [OF i] own by (simp add: b_def)
    then show "\<not> used ?al bm0 x \<or> taken fs bm0 i \<and> x \<in> set (own bm0 (table bm0 i))"
      using t own0 d(8) [of x] by (auto simp: b_def)
  qed (use tabs oth wf t i in \<open>auto simp: b_def\<close>)
  have ab: "abs_fs fs bmF = (abs_fs fs bm0)(Suc i := (if taken fs bmF i then Some (file_at bmF (table bmF i)) else None))"
    by (rule abs_fs_step [OF e(6) _ _ i]) (use tabs oth in auto)
  have "file_at bmF b = \<lparr>ftype = get_type_code (blk bm0 b), fattr = stamped now (length content), fdata = content\<rparr>"
    using e(2) fi(5,6) d(3) cont by (simp add: file_at_def same_header_def)
  then have "abs_fs fs bmF = (abs_fs fs bm0)(Suc i \<mapsto> \<lparr>ftype = get_type_code (blk bm0 b),
        fattr = stamped now (length content), fdata = content\<rparr>)"
    using ab tabs [OF i] t by (simp add: b_def)
  moreover have "card (free_set ?al bmF) + total_blks ?bs n = card (free_set ?al bm0) + length F0"
  proof -
    have "free_set ?al bmF = free_set ?al bm" using us e(7) g(2) by (auto simp: free_set_def)
    then show ?thesis using d(10) by (simp add: length_foot_total)
  qed
  ultimately show ?thesis using sc(1) okF e(6,7) unfolding bmF_def by blast
qed

subsection \<open>write\_file\<close>

definition written_fs :: "(nat \<Rightarrow> fnode option) \<Rightarrow> nat \<Rightarrow> fnode \<Rightarrow> nat \<Rightarrow> byte list \<Rightarrow> (nat \<Rightarrow> fnode option)" where
  "written_fs A ino f now content = A(ino \<mapsto> f\<lparr>fattr := stamped now (length content), fdata := content\<rparr>)"

text \<open>Blocks a file of a given size occupies beside its inode.\<close>

definition blocks_for :: "block_manager \<Rightarrow> nat \<Rightarrow> nat" where
  "blocks_for bm sz = total_blks (block_sz bm) (nblk (block_sz bm) sz)"

lemma length_content_of:
  assumes ok: "fs_ok fs bm" and i: "i < max_ino fs" and t: "taken fs bm i"
  shows "length (content_of bm (table bm i)) = get_size (blk bm (table bm i))"
proof -
  let ?b = "table bm i" and ?bs = "block_sz bm"
  note l = inode_wf_locatable [OF fs_ok_wf [OF ok] fs_ok_al [OF ok] fs_ok_inode [OF ok i t]]
  have "length (blk bm x) = ?bs" if "x \<in> set (data_ids bm ?b)" for x
    using that l(2) fs_ok_wf [OF ok] by (auto simp: data_ids_def)
  then have "length (concat (map (blk bm) xs)) = length xs * ?bs" if "set xs \<subseteq> set (data_ids bm ?b)" for xs
    using that by (induction xs) simp_all
  from this [of "data_ids bm ?b"] have "length (concat (map (blk bm) (data_ids bm ?b))) = inode_blks bm ?b * ?bs"
    by (simp add: data_ids_def)
  moreover have "get_size (blk bm ?b) \<le> inode_blks bm ?b * ?bs"
    using nblk_bounds(1) [of ?bs] fs_ok_bs [OF ok] by (simp add: inode_blks_def)
  ultimately show ?thesis by (simp add: content_of_def)
qed

lemma blocks_of_file:
  assumes ok: "fs_ok fs bm" and f: "abs_fs fs bm ino = Some f"
  shows "length (tl (own bm (table bm (ino - 1)))) = blocks_for bm (length (fdata f))"
    and "length (fdata f) \<le> max_size (block_sz bm)" and "fsize (fattr f) = length (fdata f)"
proof -
  note t = abs_fs_taken [OF f]
  have i: "ino - 1 < max_ino fs" using t(2,3) by linarith
  have l: "length (fdata f) = get_size (blk bm (table bm (ino - 1)))"
    using length_content_of [OF ok i t(1)] t(4) by (simp add: file_at_def)
  show "length (tl (own bm (table bm (ino - 1)))) = blocks_for bm (length (fdata f))"
    by (simp add: own_def length_foot_total inode_blks_def blocks_for_def l)
  show "length (fdata f) \<le> max_size (block_sz bm)"
    using fs_ok_inode [OF ok i t(1)] by (simp add: l inode_wf_def)
  show "fsize (fattr f) = length (fdata f)"
    using l t(4) by (simp add: file_at_def get_attr_of_def get_size_def)
qed

lemma write_file_ok [chfs_exec]:
  assumes fok: "fs_ok fs bm" and u: "usable fs ino" and f: "abs_fs fs bm ino = Some f"
    and sz: "length content \<le> max_size (block_sz bm)" and now: "now < 2 ^ 64"
  obtains (ok) bm' where "write_file fs ino content now bm = Inr (Ok (), bm')" and "fs_ok fs bm'"
      and "abs_fs fs bm' = written_fs (abs_fs fs bm) ino f now content"
      and "card (free_set (block_allocator_of fs) bm') + blocks_for bm (length content)
           = card (free_set (block_allocator_of fs) bm) + blocks_for bm (length (fdata f))"
      and "block_sz bm' = block_sz bm" and "block_cnt bm' = block_cnt bm"
    | (full) bm' where "write_file fs ino content now bm = Inr (Err OUT_OF_RESOURCE, bm')" and "fs_ok fs bm'"
      and "abs_fs fs bm' = abs_fs fs bm"
      and "card (free_set (block_allocator_of fs) bm) + blocks_for bm (length (fdata f))
           < blocks_for bm (length content)"
      and "block_sz bm' = block_sz bm" and "block_cnt bm' = block_cnt bm"
      and "free_set (block_allocator_of fs) bm' = {}"
proof -
  let ?i = "ino - 1" and ?b = "table bm (ino - 1)" and ?bs = "block_sz bm" and ?al = "block_allocator_of fs"
  let ?n = "nblk (block_sz bm) (length content)"
  note t = abs_fs_taken [OF f]
  note r = fs_read_inode [OF fok u t(1) fresh_buffer_length]
  have i: "Suc ?i = ino" using t(2) by simp
  note w = fs_ok_inode [OF fok r(3) t(1)]
  have ino: "ino_ok ?bs (blk bm ?b)" using w by (simp add: inode_wf_def)
  have bs: "0 < ?bs" "8 * ?bs < 2 ^ 32" using fs_ok_bs [OF fok] by simp_all
  note st = fs_start [OF fok r(3) t(1)]
  have old: "calculate_block_sz (get_size (blk bm ?b)) (block_size bm) = Inr (inode_blks bm ?b)"
    using bs by (simp add: calculate_block_sz_ok block_size_def inode_blks_def)
  have new: "calculate_block_sz (length content) (block_size bm) = Inr ?n"
    using bs by (simp add: calculate_block_sz_ok block_size_def)
  have "get_size (blk bm ?b) \<le> max_size ?bs" using w by (simp add: inode_wf_def)
  from nblk_less32 [OF bs this] nblk_less32 [OF bs sz]
  have w32: "wrap32 (inode_blks bm ?b) = inode_blks bm ?b" "wrap32 ?n = ?n"
    by (simp_all add: inode_blks_def)
  have nmax: "?n \<le> ?bs div 8 + ndirect ?bs" using bs sz by (intro nblk_max)
  have run: "write_file fs ino content now bm
      = chain (resize_blocks ?al (ndirect ?bs) (inode_blks bm ?b) ?n (blk bm ?b)) (\<lambda>r. on_ok r (\<lambda>(inode1, ib1).
          store_content (ndirect ?bs) ?bs content now ?b inode1 ib1)) bm"
    using r(1,2) old new w32 sz max_file_sz_ok [OF ino] direct_num_ok(1) [OF ino]
    by (simp add: write_file_def Let_def chain_def [of "read_inode _ _ _"] block_size_def)
  have F: "length (tl (own bm ?b)) = blocks_for bm (length (fdata f))" using blocks_of_file(1) [OF fok f] .
  have ft: "ftype f = get_type_code (blk bm ?b)" using t(4) by (simp add: file_at_def)
  show ?thesis
  proof (cases rule: resize_blocks_ok [OF st(1) nmax])
    case (1 buf ib bm1)
    from written [OF fok r(3) t(1) refl refl 1(2) refl sz now] obtain bmF where bmF:
        "store_content (ndirect ?bs) ?bs content now ?b buf ib bm1 = Inr (Ok (), bmF)" "fs_ok fs bmF"
        "abs_fs fs bmF = (abs_fs fs bm)(Suc ?i \<mapsto> \<lparr>ftype = get_type_code (blk bm ?b),
           fattr = stamped now (length content), fdata = content\<rparr>)"
        "card (free_set ?al bmF) + total_blks ?bs ?n = card (free_set ?al bm) + length (tl (own bm ?b))"
        "block_sz bmF = block_sz bm" "block_cnt bmF = block_cnt bm"
      by blast
    have "f\<lparr>fattr := stamped now (length content), fdata := content\<rparr>
        = \<lparr>ftype = get_type_code (blk bm ?b), fattr = stamped now (length content), fdata = content\<rparr>"
      using ft by simp
    then have ab: "abs_fs fs bmF = written_fs (abs_fs fs bm) ino f now content"
      using bmF(3) i by (simp add: written_fs_def)
    have "write_file fs ino content now bm = Inr (Ok (), bmF)"
      using 1(1) bmF(1) by (simp add: run chain_def)
    moreover have "card (free_set ?al bmF) + blocks_for bm (length content)
        = card (free_set ?al bm) + blocks_for bm (length (fdata f))"
      using bmF(4) F by (simp add: blocks_for_def)
    ultimately show ?thesis using that(1) bmF(2,5,6) ab by blast
  next
    case (2 bm1)
    have "write_file fs ino content now bm = Inr (Err OUT_OF_RESOURCE, bm1)"
      using 2(1) by (simp add: run chain_def)
    then show ?thesis
      using that(2) fs_ok_leaked [OF fok 2(2)] 2(2,3,4) F
      by (simp add: blocks_for_def leaked_def same_data_def)
  qed
qed

lemma write_file_too_large [chfs_exec]:
  assumes ok: "fs_ok fs bm" and u: "usable fs ino" and f: "abs_fs fs bm ino = Some f"
    and sz: "max_size (block_sz bm) < length content"
  shows "write_file fs ino content now bm = Inr (Err OUT_OF_RESOURCE, bm)"
proof -
  let ?b = "table bm (ino - 1)"
  note t = abs_fs_taken [OF f]
  note r = fs_read_inode [OF ok u t(1) fresh_buffer_length]
  have ino: "ino_ok (block_sz bm) (blk bm ?b)"
    using fs_ok_inode [OF ok r(3) t(1)] by (simp add: inode_wf_def)
  show ?thesis
    using r(1,2) sz max_file_sz_ok [OF ino]
    by (simp add: write_file_def Let_def chain_def [of "read_inode _ _ _"])
qed

lemma write_file_none [chfs_exec]:
  "fs_ok fs bm \<Longrightarrow> 0 < ino \<Longrightarrow> abs_fs fs bm ino = None \<or> \<not> usable fs ino \<Longrightarrow>
   write_file fs ino content now bm = Inr (Err INVALID_ARG, bm)"
  by (simp add: write_file_def Let_def chain_def [of "read_inode _ _ _"] fs_read_inode_none)

lemma written_fs_same [simp]: "written_fs A ino f now content ino = Some (f\<lparr>fattr := stamped now (length content), fdata := content\<rparr>)"
  by (simp add: written_fs_def)

lemma written_fs_other [simp]: "j \<noteq> ino \<Longrightarrow> written_fs A ino f now content j = A j"
  by (simp add: written_fs_def)

subsection \<open>Parts of a file\<close>

definition spliced :: "byte list \<Rightarrow> nat \<Rightarrow> byte list \<Rightarrow> byte list" where
  "spliced content off data =
     store (if off + length data > length content then resize_to (off + length data) content else content) off data"

lemma length_resize_to [simp]: "length (resize_to n content) = n"
  by (simp add: resize_to_def)

lemma nth_resize_to: "i < n \<Longrightarrow> resize_to n content ! i = (if i < length content then content ! i else 0)"
  by (auto simp: resize_to_def nth_append min_def)

lemma length_spliced: "length (spliced content off data) = max (length content) (off + length data)"
  by (auto simp: spliced_def max_def)

lemma nth_spliced:
  "i < max (length content) (off + length data) \<Longrightarrow> spliced content off data ! i =
     (if off \<le> i \<and> i < off + length data then data ! (i - off)
      else if i < length content then content ! i else 0)"
  by (auto simp: spliced_def nth_store nth_resize_to max_def split: if_splits)

lemma write_file_w_off_eq:
  assumes ok: "fs_ok fs bm" and u: "usable fs ino" and f: "abs_fs fs bm ino = Some f"
    and sz: "length data = sz" and wrap: "off + sz < 2 ^ 64"
  shows "write_file_w_off fs ino data sz off now bm =
    chain (write_file fs ino (spliced (fdata f) off data) now) (\<lambda>r. on_ok r (\<lambda>_. give (Ok sz))) bm"
proof -
  let ?c = "if wrap64 (off + sz) > length (fdata f) then resize_to (wrap64 (off + sz)) (fdata f) else fdata f"
  have "load_checked data 0 sz = Inr data" using load_full [of data] sz by simp
  moreover have "store_checked ?c off data = Inr (spliced (fdata f) off data)"
    using sz wrap by (auto simp: spliced_def)
  ultimately show ?thesis
    by (simp add: write_file_w_off_def chain_def [of "read_file _ _"] read_file_ok [OF ok u f] Let_def)
qed

lemma write_file_w_off_none [chfs_exec]:
  "fs_ok fs bm \<Longrightarrow> 0 < ino \<Longrightarrow> abs_fs fs bm ino = None \<or> \<not> usable fs ino \<Longrightarrow>
   write_file_w_off fs ino data sz off now bm = Inr (Err INVALID_ARG, bm)"
  by (simp add: write_file_w_off_def chain_def read_file_none)

lemma read_file_w_off_ok [chfs_exec]:
  assumes "fs_ok fs bm" and "usable fs ino" and "abs_fs fs bm ino = Some f"
  shows "read_file_w_off fs ino sz off bm =
    (if off + sz \<le> length (fdata f) then Inr (Ok (take sz (drop off (fdata f))), bm) else Inl OutOfBounds)"
  by (simp add: read_file_w_off_def chain_def read_file_ok [OF assms] load_checked_def load_def)

lemma read_file_w_off_none [chfs_exec]:
  "fs_ok fs bm \<Longrightarrow> 0 < ino \<Longrightarrow> abs_fs fs bm ino = None \<or> \<not> usable fs ino \<Longrightarrow>
   read_file_w_off fs ino sz off bm = Inr (Err INVALID_ARG, bm)"
  by (simp add: read_file_w_off_def chain_def read_file_none)

lemma resize_file_eq:
  assumes ok: "fs_ok fs bm" and u: "usable fs ino" and f: "abs_fs fs bm ino = Some f"
  shows "resize_file fs ino sz now bm =
    (if length (fdata f) = sz then Inr (Ok (fattr f), bm)
     else chain (write_file fs ino (resize_to sz (fdata f)) now)
            (\<lambda>r. on_ok r (\<lambda>_. give (Ok (fattr f\<lparr>fsize := sz\<rparr>)))) bm)"
proof -
  have "fsize (fattr f) = length (fdata f)" using blocks_of_file(3) [OF ok f] .
  then have same: "length (fdata f) = sz \<Longrightarrow> fattr f\<lparr>fsize := sz\<rparr> = fattr f" by simp
  show ?thesis
  proof (cases "length (fdata f) = sz")
    case True
    then show ?thesis using same [OF True]
      by (simp add: resize_file_def chain_def attr_ok [OF ok u f] read_file_ok [OF ok u f])
  next
    case False
    then show ?thesis
      by (simp add: resize_file_def chain_def [of "getattr _ _"] chain_def [of "read_file _ _"]
          attr_ok [OF ok u f] read_file_ok [OF ok u f])
  qed
qed

lemma resize_file_none [chfs_exec]:
  "fs_ok fs bm \<Longrightarrow> 0 < ino \<Longrightarrow> abs_fs fs bm ino = None \<or> \<not> usable fs ino \<Longrightarrow>
   resize_file fs ino sz now bm = Inr (Err INVALID_ARG, bm)"
  by (simp add: resize_file_def chain_def attr_none)

end
