(* ===== verification/File_Control.thy ===== *)
theory File_Control
  imports File_Spec
begin

text \<open>
  Creating and removing files, making a file system and mounting it again, counting what is
  free (src/src/filesystem/control\_op.cc, \<open>alloc_inode\<close> of data\_op.cc).
\<close>

subsection \<open>alloc\_inode\<close>

lemma fs_im_cong: "fs_ok fs bm \<Longrightarrow> same_data (block_allocator_of fs) bm bm' \<Longrightarrow> im_ok (inode_manager_of fs) bm'"
  by (rule im_ok_cong [OF fs_ok_im]) (auto simp: same_data_def)

lemma fs_ino_free_cong:
  "fs_ok fs bm \<Longrightarrow> same_data (block_allocator_of fs) bm bm' \<Longrightarrow>
   ino_free (inode_manager_of fs) bm' = ino_free (inode_manager_of fs) bm"
  using same_data_tables(2) [of fs bm bm'] by (auto simp: ino_free_def max_ino_def)

lemma fs_free_block:
  assumes ok: "fs_ok fs bm" and b: "b \<in> free_set (block_allocator_of fs) bm"
  shows "b < block_cnt bm" and "\<not> used (block_allocator_of fs) bm b" and "data_lo (block_allocator_of fs) \<le> b"
    and "im_end (inode_manager_of fs) \<le> b" and "0 < b"
proof -
  show 1: "b < block_cnt bm" "\<not> used (block_allocator_of fs) bm b" using b by (simp_all add: free_set_def)
  show lo: "data_lo (block_allocator_of fs) \<le> b" using 1 fs_ok_regions(5) [OF ok, of b] by (meson not_less)
  then show "im_end (inode_manager_of fs) \<le> b" "0 < b" using fs_ok_regions(2,4) [OF ok] by simp_all
qed

lemma fresh_own:
  assumes "fresh_inode (block_sz bm) t now (blk bm b)"
  shows "own bm b = [b]" and "file_at bm b = \<lparr>ftype = type_code t, fattr = stamped now 0, fdata = []\<rparr>"
    and "inode_blks bm b = 0" and "get_size (blk bm b) = 0"
proof -
  have at: "get_attr_of (blk bm b) = stamped now 0" "get_type_code (blk bm b) = type_code t"
    using assms by (simp_all add: fresh_inode_def stamped_def)
  then show sz: "get_size (blk bm b) = 0" by (simp add: get_attr_of_def get_size_def stamped_def)
  then show n: "inode_blks bm b = 0" by (simp add: inode_blks_def nblk_def)
  then show "own bm b = [b]" by (simp add: own_def foot_def)
  show "file_at bm b = \<lparr>ftype = type_code t, fattr = stamped now 0, fdata = []\<rparr>"
    using at sz by (simp add: file_at_def content_of_def)
qed

definition new_file :: "inode_type \<Rightarrow> nat \<Rightarrow> fnode" where
  "new_file t now = \<lparr>ftype = type_code t, fattr = stamped now 0, fdata = []\<rparr>"

lemma inode_installed:
  assumes ok: "fs_ok fs bm" and b: "b \<in> free_set (block_allocator_of fs) bm"
    and i: "i \<in> ino_free (inode_manager_of fs) bm" and fr: "fresh_inode (block_sz bm) t now buf"
  defines "bm' \<equiv> put_inode (inode_manager_of fs) i b buf (mark (block_allocator_of fs) True b bm)"
  shows "fs_ok fs bm'" and "abs_fs fs bm' = (abs_fs fs bm)(Suc i \<mapsto> new_file t now)"
    and "free_set (block_allocator_of fs) bm' = free_set (block_allocator_of fs) bm - {b}"
    and "ino_free (inode_manager_of fs) bm' = ino_free (inode_manager_of fs) bm - {i}"
    and "block_sz bm' = block_sz bm" and "block_cnt bm' = block_cnt bm"
proof -
  let ?al = "block_allocator_of fs" and ?im = "inode_manager_of fs" and ?bm1 = "mark (block_allocator_of fs) True b bm"
  note rg = fs_ok_regions [OF ok] and fb = fs_free_block [OF ok b]
  have imax: "i < max_ino fs" and nt: "\<not> taken fs bm i" using i by (simp_all add: ino_free_def max_ino_def)
  have al: "alloc_ok ?al bm" using ok by simp
  have sd: "same_data ?al bm ?bm1" using same_data_mark [OF same_data_refl [OF al] fb(1)] .
  have al1: "alloc_ok ?al ?bm1" using sd by (simp add: same_data_def)
  have im1: "im_ok ?im ?bm1" using ok sd by (rule fs_im_cong)
  have lbuf: "length buf = block_sz ?bm1" using fr by (simp add: fresh_inode_def ino_ok_def)
  have i1: "i < max_inode_supported ?im" using imax by (simp add: max_ino_def)
  have b1: "b < block_cnt ?bm1" using fb(1) by simp
  note p = put_inode_ok [OF im1 i1 fb(4) b1 lbuf, folded bm'_def]
  show geo: "block_sz bm' = block_sz bm" "block_cnt bm' = block_cnt bm" by (simp_all add: bm'_def)
  have "wf_bm bm'" using p(1) by simp
  then have al': "alloc_ok ?al bm'" using al geo unfolding alloc_ok_def by simp
  have us1: "used ?al bm' c = used ?al ?bm1 c" if "c < block_cnt bm" for c
  proof (rule used_cong [OF al1])
    fix x assume x: "bitmap_block_id ?al \<le> x" "x < data_lo ?al"
    then show "blk bm' x = blk ?bm1 x" using p(2) [of x] rg(1,3) fb(3) by simp
  qed (use geo that in simp_all)
  have us: "used ?al bm' c = (c = b \<or> used ?al bm c)" if "c < block_cnt bm" for c
    using us1 [OF that] that fb(1) al by (simp add: used_mark)
  show fsq: "free_set ?al bm' = free_set ?al bm - {b}"
    using us geo(2) by (auto simp: free_set_def)
  have blk': "blk bm' c = (if c = b then buf else blk bm c)" if "c < block_cnt bm" "data_lo ?al \<le> c \<or> c = 0" for c
  proof -
    have "blk bm' c = (if c = b then buf else blk ?bm1 c)" using p(2) [of c] that rg(2) by auto
    moreover have "blk ?bm1 c = blk bm c"
      using that sd same_data_zero [OF ok sd] by (auto simp: same_data_def)
    ultimately show ?thesis by simp
  qed
  have tabs: "table bm' j = (if j = i then b else table bm j)" "taken fs bm' j = (j = i \<or> taken fs bm j)"
    if "j < max_ino fs" for j
    using p(3,4) [of j] same_data_tables [OF ok sd that] that by (simp_all add: max_ino_def)
  show "ino_free ?im bm' = ino_free ?im bm - {i}"
    using tabs(2) by (auto simp: ino_free_def max_ino_def)
  have bb: "blk bm' b = buf" using blk' [of b] fb by simp
  note fo = fresh_own [of bm' t now b, unfolded bb geo(1), OF fr]
  have oth: "blk bm' x = blk bm x \<and> used ?al bm' x"
    if j: "j < max_ino fs" "taken fs bm j" "x \<in> set (own bm (table bm j))" for j x
  proof -
    note ob = own_block [OF ok j]
    have "x \<noteq> b" using ob(3) fb(2) by auto
    then show ?thesis using blk' [of x] us [of x] ob by simp
  qed
  have sc: "slots_clear (block_sz bm) buf 0"
    using fr nslots_pos(2) [of "block_sz bm"] fs_ok_bs [OF ok] by (auto simp: slots_clear_def fresh_inode_def)
  have wf: "inode_wf ?al bm' b"
    unfolding inode_wf_def fo(1,3) bb geo using fr fo(4) sc fb us [of b] by (simp add: fresh_inode_def)
  show "fs_ok fs bm'"
  proof (rule fs_ok_step [OF ok al' geo, where i = i])
    show "blk bm' 0 = blk bm 0" using blk' [of 0] fb rg by simp
    show "used ?al bm' c" if "c < data_lo ?al" for c using us [of c] that rg(3,5) by simp
    show "\<not> used ?al bm x \<or> taken fs bm i \<and> x \<in> set (own bm (table bm i))"
      if "x \<in> set (own bm' (table bm' i))" for x
      using that tabs(1) [OF imax] fo(1) fb(2) by simp
  qed (use tabs oth wf imax in auto)
  have ab: "abs_fs fs bm' = (abs_fs fs bm)(Suc i := (if taken fs bm' i then Some (file_at bm' (table bm' i)) else None))"
    by (rule abs_fs_step [OF geo(1) _ _ imax]) (use tabs oth in auto)
  then show "abs_fs fs bm' = (abs_fs fs bm)(Suc i \<mapsto> new_file t now)"
    using tabs [OF imax] fo(2) by (simp add: new_file_def)
qed

lemma alloc_inode_no_block [chfs_exec]:
  assumes "fs_ok fs bm" and "free_set (block_allocator_of fs) bm = {}"
  shows "alloc_inode fs t now junk bm = Inl UncaughtThrow"
  using allocate_full [OF fs_ok_al [OF assms(1)] assms(2)] by (simp add: alloc_inode_def chain_def)

lemma alloc_inode_no_inode [chfs_exec]:
  assumes ok: "fs_ok fs bm" and b: "free_set (block_allocator_of fs) bm \<noteq> {}"
    and i: "ino_free (inode_manager_of fs) bm = {}" and now: "now < 2 ^ 64"
  defines "bm' \<equiv> mark (block_allocator_of fs) True (Min (free_set (block_allocator_of fs) bm)) bm"
  shows "alloc_inode fs t now junk bm = Inr (Err OUT_OF_RESOURCE, bm')"
    and "fs_ok fs bm'" and "abs_fs fs bm' = abs_fs fs bm"
    and "card (free_set (block_allocator_of fs) bm') = card (free_set (block_allocator_of fs) bm) - 1"
proof -
  let ?al = "block_allocator_of fs" and ?b = "Min (free_set (block_allocator_of fs) bm)"
  have bf: "?b \<in> free_set ?al bm" using b by simp
  note fb = fs_free_block [OF ok bf]
  have al: "alloc_ok ?al bm" using ok by simp
  have sd: "same_data ?al bm bm'" unfolding bm'_def by (rule same_data_mark [OF same_data_refl [OF al] fb(1)])
  have im: "im_ok (inode_manager_of fs) bm'" using ok sd by (rule fs_im_cong)
  have "?b < block_cnt bm'" using fb(1) by (simp add: bm'_def)
  then have full: "allocate_inode (inode_manager_of fs) t ?b now junk bm' = Inr (Err OUT_OF_RESOURCE, bm')"
    using allocate_inode_eq [OF im _ now, of ?b t junk] fs_ino_free_cong [OF ok sd] i
    by (simp add: ino_free_find alloc_inode_spec_def)
  show "alloc_inode fs t now junk bm = Inr (Err OUT_OF_RESOURCE, bm')"
    using allocate_free [OF al b] full by (simp add: alloc_inode_def chain_def bm'_def)
  have "leaked ?al bm bm'" using sd fb(1) al by (simp add: leaked_def bm'_def used_mark)
  then show "fs_ok fs bm'" "abs_fs fs bm' = abs_fs fs bm" using fs_ok_leaked [OF ok] by simp_all
  show "card (free_set ?al bm') = card (free_set ?al bm) - 1"
    using bf fb(1) al by (simp add: bm'_def free_set_mark)
qed

lemma alloc_inode_ok [chfs_exec]:
  assumes ok: "fs_ok fs bm" and b: "free_set (block_allocator_of fs) bm \<noteq> {}"
    and i: "ino_free (inode_manager_of fs) bm \<noteq> {}" and now: "now < 2 ^ 64"
  defines "i0 \<equiv> Min (ino_free (inode_manager_of fs) bm)"
  obtains bm' where "alloc_inode fs t now junk bm = Inr (Ok (Suc i0), bm')" and "fs_ok fs bm'"
    and "abs_fs fs bm' = (abs_fs fs bm)(Suc i0 \<mapsto> new_file t now)" and "abs_fs fs bm (Suc i0) = None"
    and "card (free_set (block_allocator_of fs) bm') + 1 = card (free_set (block_allocator_of fs) bm)"
    and "ino_free (inode_manager_of fs) bm' = ino_free (inode_manager_of fs) bm - {i0}"
    and "i0 \<in> ino_free (inode_manager_of fs) bm"
    and "block_sz bm' = block_sz bm" and "block_cnt bm' = block_cnt bm"
proof -
  let ?al = "block_allocator_of fs" and ?im = "inode_manager_of fs" and ?b = "Min (free_set (block_allocator_of fs) bm)"
  let ?bm1 = "mark (block_allocator_of fs) True (Min (free_set (block_allocator_of fs) bm)) bm"
  have bf: "?b \<in> free_set ?al bm" using b by simp
  have if': "i0 \<in> ino_free ?im bm" using i by (simp add: i0_def)
  note fb = fs_free_block [OF ok bf]
  have al: "alloc_ok ?al bm" using ok by simp
  have sd: "same_data ?al bm ?bm1" by (rule same_data_mark [OF same_data_refl [OF al] fb(1)])
  have im: "im_ok ?im ?bm1" using ok sd by (rule fs_im_cong)
  have "?b < block_cnt ?bm1" using fb(1) by simp
  then obtain buf where buf: "fresh_inode (block_sz ?bm1) t now buf"
      "allocate_inode ?im t ?b now junk ?bm1 = Inr (Ok (i0 + 1), put_inode ?im i0 ?b buf ?bm1)"
    using allocate_inode_eq [OF im _ now, of ?b t junk] fs_ino_free_cong [OF ok sd] i
    by (auto simp: ino_free_find alloc_inode_spec_def i0_def)
  have fr: "fresh_inode (block_sz bm) t now buf" using buf(1) by simp
  note q = inode_installed [OF ok bf if' fr]
  have "alloc_inode fs t now junk bm = Inr (Ok (Suc i0), put_inode ?im i0 ?b buf ?bm1)"
    using allocate_free [OF al b] buf(2) by (simp add: alloc_inode_def chain_def)
  moreover have "card (free_set ?al (put_inode ?im i0 ?b buf ?bm1)) + 1 = card (free_set ?al bm)"
    unfolding q(3) Suc_eq_plus1 [symmetric] by (rule card_Suc_Diff1 [OF finite_free_set bf])
  moreover have "abs_fs fs bm (Suc i0) = None" using if' by (simp add: abs_fs_def ino_free_def)
  ultimately show ?thesis using that q if' by blast
qed

subsection \<open>remove\_file\<close>

lemma collect_direct_ok:
  assumes "ino_ok bs buf" and "\<And>j. i \<le> j \<Longrightarrow> j < m \<Longrightarrow> slot buf j \<noteq> 0"
    and "m < i + n \<Longrightarrow> slot buf m = 0" and "i \<le> m" and "m \<le> i + n" and "i + n \<le> nslots bs"
  shows "collect_direct buf i n = Inr (map (slot buf) [i..<m])"
  using assms(2-)
proof (induction n arbitrary: i)
  case (Suc n)
  have i: "i < nslots bs" using Suc.prems(5) by simp
  show ?case
  proof (cases "i = m")
    case True
    then show ?thesis using Suc.prems(2) blocks_get_ok [OF assms(1) i] by (simp add: KInvalidBlockID_def)
  next
    case False
    then have "i < m" using Suc.prems(3) by simp
    moreover have "collect_direct buf (Suc i) n = Inr (map (slot buf) [Suc i..<m])"
      using Suc.prems \<open>i < m\<close> by (intro Suc.IH) simp_all
    ultimately show ?thesis
      using Suc.prems(1) [of i] blocks_get_ok [OF assms(1) i] by (simp add: KInvalidBlockID_def upt_conv_Cons)
  qed
qed simp

lemma deallocate_all_ok:
  "alloc_ok al bm \<Longrightarrow> distinct bs \<Longrightarrow> (\<And>b. b \<in> set bs \<Longrightarrow> b < block_cnt bm \<and> used al bm b) \<Longrightarrow>
   \<exists>bm'. deallocate_all al bs bm = Inr (Ok (), bm') \<and> same_data al bm bm'
     \<and> (\<forall>c < block_cnt bm. used al bm' c \<longleftrightarrow> used al bm c \<and> c \<notin> set bs)
     \<and> card (free_set al bm') = card (free_set al bm) + length bs"
proof (induction bs arbitrary: bm)
  case Nil
  then show ?case using same_data_refl by auto
next
  case (Cons b bs)
  let ?bm = "mark al False b bm"
  have b: "b < block_cnt bm" "used al bm b" using Cons.prems(3) by simp_all
  have al: "alloc_ok al ?bm" using Cons.prems(1) b(1) by (rule alloc_ok_mark)
  have rest: "c < block_cnt ?bm \<and> used al ?bm c" if "c \<in> set bs" for c
    using Cons.prems that b by (auto simp: used_mark)
  from Cons.IH [OF al _ rest] Cons.prems(2) obtain bm' where r:
      "deallocate_all al bs ?bm = Inr (Ok (), bm')" "same_data al ?bm bm'"
      "\<forall>c < block_cnt ?bm. used al bm' c \<longleftrightarrow> used al ?bm c \<and> c \<notin> set bs"
      "card (free_set al bm') = card (free_set al ?bm) + length bs" by auto
  have "same_data al bm bm'"
    using r(2) same_data_mark [OF same_data_refl [OF Cons.prems(1)] b(1), of False]
    by (simp add: same_data_def)
  moreover have "b \<notin> free_set al bm" using b by (simp add: free_set_def)
  ultimately show ?case
    using r b Cons.prems(1) by (auto simp: chain_def deallocate_eq used_mark free_set_mark)
qed

text \<open>The inode of a file that needs no indirect block.\<close>

lemma remove_reads:
  assumes ok: "fs_ok fs bm" and i: "i < max_ino fs" and t: "taken fs bm i"
    and small: "inode_blks bm (table bm i) \<le> ndirect (block_sz bm)"
  defines "buf \<equiv> blk bm (table bm i)"
  shows "collect_direct buf 0 (get_direct_block_num buf) = Inr (tl (own bm (table bm i)))"
    and "blocks_get buf (get_direct_block_num buf) = Inr 0"
proof -
  let ?bs = "block_sz bm" and ?b = "table bm i" and ?n = "inode_blks bm (table bm i)"
  have w: "inode_wf (block_allocator_of fs) bm ?b" using ok i t by (rule fs_ok_inode)
  then have ino: "ino_ok ?bs buf" and clear: "slots_clear ?bs buf ?n" by (simp_all add: inode_wf_def buf_def)
  have nd: "ndirect ?bs < nslots ?bs" using ino by (simp add: ino_ok_def nslots_pos)
  have wb: "wblock ?bs buf (ind_blk bm buf) k = slot buf k" if "k < ?n" for k
    using that small by (simp add: wblock_def)
  have own: "tl (own bm ?b) = map (slot buf) [0..<?n]"
    using small wb by (simp add: own_def foot_def buf_def)
  have "slot buf j \<noteq> 0" if "j < ?n" for j
  proof -
    have "slot buf j \<in> set (own bm ?b)" using that own by (cases "own bm ?b") (auto simp: own_def)
    then show ?thesis using own_block(4) [OF ok i t] by simp
  qed
  then show "collect_direct buf 0 (get_direct_block_num buf) = Inr (tl (own bm ?b))"
    unfolding own direct_num_ok(1) [OF ino]
    using clear small nd by (intro collect_direct_ok [OF ino]) (simp_all add: slots_clear_def)
  show "blocks_get buf (get_direct_block_num buf) = Inr 0"
    using clear small by (simp add: direct_num_ok(1) [OF ino] blocks_get_ok [OF ino nd] slots_clear_def)
qed

lemma inode_dropped:
  assumes ok: "fs_ok fs bm" and i: "i < max_ino fs" and t: "taken fs bm i"
  defines "bm1 \<equiv> drop_inode (inode_manager_of fs) i bm" and "bs \<equiv> tl (own bm (table bm i)) @ [table bm i]"
  shows "\<exists>bm'. deallocate_all (block_allocator_of fs) bs bm1 = Inr (Ok (), bm') \<and> fs_ok fs bm'
    \<and> abs_fs fs bm' = (abs_fs fs bm)(Suc i := None)
    \<and> card (free_set (block_allocator_of fs) bm') = card (free_set (block_allocator_of fs) bm) + length bs
    \<and> block_sz bm' = block_sz bm \<and> block_cnt bm' = block_cnt bm"
proof -
  let ?al = "block_allocator_of fs" and ?im = "inode_manager_of fs"
  note rg = fs_ok_regions [OF ok]
  have imax: "i < max_inode_supported ?im" using i by (simp add: max_ino_def)
  note p = drop_inode_ok [OF fs_ok_im [OF ok] imax, folded bm1_def]
  have geo1: "block_sz bm1 = block_sz bm" "block_cnt bm1 = block_cnt bm" by (simp_all add: bm1_def)
  have wf1: "wf_bm bm1" using p(1) by simp
  have al: "alloc_ok ?al bm" using ok by simp
  then have al1: "alloc_ok ?al bm1" using wf1 geo1 unfolding alloc_ok_def by simp
  have blk1: "blk bm1 c = blk bm c" if "c < block_cnt bm" "im_end ?im \<le> c \<or> c = 0" for c
    using p(2) that by blast
  have us1: "used ?al bm1 c = used ?al bm c" if "c < block_cnt bm" for c
    using that rg(1,3) geo1 blk1 by (intro used_cong [OF al]) simp_all
  have own: "set bs = set (own bm (table bm i))" by (auto simp: bs_def own_def)
  have "distinct (own bm (table bm i))" using fs_ok_inode [OF ok i t] by (simp add: inode_wf_def)
  then have dist: "distinct bs" by (auto simp: bs_def own_def)
  have "b < block_cnt bm1 \<and> used ?al bm1 b" if "b \<in> set bs" for b
    using that us1 own_block [OF ok i t] geo1 unfolding own by simp
  from deallocate_all_ok [OF al1 dist this] obtain bm' where r:
      "deallocate_all ?al bs bm1 = Inr (Ok (), bm')" "same_data ?al bm1 bm'"
      "\<And>c. c < block_cnt bm \<Longrightarrow> used ?al bm' c \<longleftrightarrow> used ?al bm1 c \<and> c \<notin> set bs"
      "card (free_set ?al bm') = card (free_set ?al bm1) + length bs" using geo1 by auto
  have geo: "block_sz bm' = block_sz bm" "block_cnt bm' = block_cnt bm" "alloc_ok ?al bm'"
    using r(2) geo1 by (simp_all add: same_data_def)
  have blk2: "blk bm' c = blk bm1 c" if "c < block_cnt bm" "c < im_end ?im \<or> data_lo ?al \<le> c" for c
    using r(2) that geo1 rg(1) by (auto simp: same_data_def)
  have tabs: "table bm' j = (if j = i then 0 else table bm j)" "taken fs bm' j = (if j = i then False else taken fs bm j)"
    if "j < max_ino fs" for j
  proof -
    have "blk bm' c = blk bm1 c" if "c < im_end ?im" for c using blk2 that rg(2,3) by simp
    then show "table bm' j = (if j = i then 0 else table bm j)" "taken fs bm' j = (if j = i then False else taken fs bm j)"
      using table_cong [OF p(1), of j bm'] ibit_cong [OF p(1), of j bm'] p(3,4) [of j] that geo geo1
      by (simp_all add: max_ino_def)
  qed
  have oth: "blk bm' x = blk bm x \<and> used ?al bm' x"
    if j: "j < max_ino fs" "j \<noteq> i" "taken fs bm j" "x \<in> set (own bm (table bm j))" for j x
  proof -
    note ob = own_block [OF ok j(1,3,4)]
    have "x \<notin> set bs" using fs_ok_disjoint [OF ok j(1) i j(3) t j(2) j(4)] by (simp add: own)
    then show ?thesis using ob r(3) us1 blk1 blk2 by simp
  qed
  have "fs_ok fs bm'"
  proof (rule fs_ok_step [OF ok geo(3,1,2), where i = i])
    show "blk bm' 0 = blk bm 0" using blk2 [of 0] blk1 [of 0] rg by (simp add: im_end_def)
    show "used ?al bm' c" if c: "c < data_lo ?al" for c
    proof -
      have "c \<notin> set bs" using own_block(1) [OF ok i t, of c] c by (auto simp: own)
      then show ?thesis using r(3) us1 rg(3,5) c by simp
    qed
  qed (use tabs oth i in auto)
  moreover have "abs_fs fs bm' = (abs_fs fs bm)(Suc i := None)"
  proof -
    have "abs_fs fs bm' = (abs_fs fs bm)(Suc i := (if taken fs bm' i then Some (file_at bm' (table bm' i)) else None))"
      by (rule abs_fs_step [OF geo(1) _ _ i]) (use tabs oth in auto)
    then show ?thesis using tabs(2) [OF i] by simp
  qed
  moreover have "free_set ?al bm1 = free_set ?al bm" using us1 geo1 by (auto simp: free_set_def)
  ultimately show ?thesis using r(1,4) geo by auto
qed

lemma remove_file_ok [chfs_exec]:
  assumes ok: "fs_ok fs bm" and u: "usable fs ino" and f: "abs_fs fs bm ino = Some f"
    and small: "length (fdata f) \<le> ndirect (block_sz bm) * block_sz bm"
  obtains bm' where "remove_file fs ino bm = Inr (Ok (), bm')" and "fs_ok fs bm'"
    and "abs_fs fs bm' = (abs_fs fs bm)(ino := None)"
    and "card (free_set (block_allocator_of fs) bm')
         = card (free_set (block_allocator_of fs) bm) + blocks_for bm (length (fdata f)) + 1"
    and "block_sz bm' = block_sz bm" and "block_cnt bm' = block_cnt bm"
proof -
  let ?i = "ino - 1" and ?b = "table bm (ino - 1)"
  note t = abs_fs_taken [OF f]
  note r = fs_read_inode [OF ok u t(1) fresh_buffer_length]
  have si: "Suc ?i = ino" using t(2) by simp
  have "length (fdata f) = get_size (blk bm ?b)"
    using length_content_of [OF ok r(3) t(1)] t(4) by (simp add: file_at_def)
  then have "inode_blks bm ?b \<le> ndirect (block_sz bm)"
    using small nblk_bounds(3) fs_ok_bs [OF ok] by (simp add: inode_blks_def)
  note c = remove_reads [OF ok r(3) t(1) this]
  from inode_dropped [OF ok r(3) t(1)] obtain bm' where d:
      "deallocate_all (block_allocator_of fs) (tl (own bm ?b) @ [?b]) (drop_inode (inode_manager_of fs) ?i bm) = Inr (Ok (), bm')"
      "fs_ok fs bm'" "abs_fs fs bm' = (abs_fs fs bm)(Suc ?i := None)"
      "card (free_set (block_allocator_of fs) bm')
       = card (free_set (block_allocator_of fs) bm) + length (tl (own bm ?b) @ [?b])"
      "block_sz bm' = block_sz bm" "block_cnt bm' = block_cnt bm" by blast
  have fi: "free_inode (inode_manager_of fs) ino bm = Inr (Ok (), drop_inode (inode_manager_of fs) ?i bm)"
    using free_inode_ok [OF fs_ok_im [OF ok], of ino] u by (simp add: usable_def max_ino_def)
  have "remove_file fs ino bm = Inr (Ok (), bm')"
    using r(1,2) c fi d(1) by (simp add: remove_file_def chain_def KInvalidBlockID_def)
  then show ?thesis using that d blocks_of_file(1) [OF ok f] si by simp
qed

lemma remove_file_indirect [chfs_exec]:
  assumes ok: "fs_ok fs bm" and u: "usable fs ino" and f: "abs_fs fs bm ino = Some f"
    and big: "ndirect (block_sz bm) * block_sz bm < length (fdata f)"
  shows "remove_file fs ino bm = Inl OutOfBounds"
proof -
  let ?i = "ino - 1" and ?b = "table bm (ino - 1)" and ?bs = "block_sz bm" and ?buf = "blk bm (table bm (ino - 1))"
  note t = abs_fs_taken [OF f]
  note r = fs_read_inode [OF ok u t(1) fresh_buffer_length]
  have bs: "0 < ?bs" using fs_ok_bs [OF ok] by simp
  have "length (fdata f) = get_size ?buf"
    using length_content_of [OF ok r(3) t(1)] t(4) by (simp add: file_at_def)
  then have n: "ndirect ?bs < inode_blks bm ?b"
    using big nblk_bounds(1) [OF bs, of "get_size ?buf"] bs
    unfolding inode_blks_def by (metis leD le_less_trans mult_le_mono1 not_le)
  have w: "inode_wf (block_allocator_of fs) bm ?b" using fs_ok_inode [OF ok r(3) t(1)] .
  then have ino: "ino_ok ?bs ?buf" by (simp add: inode_wf_def)
  have nd: "ndirect ?bs < nslots ?bs" using ino by (simp add: ino_ok_def nslots_pos)
  let ?p = "slot ?buf (ndirect ?bs)"
  have own_p: "?p \<in> set (own bm ?b)" using n by (simp add: own_def foot_def)
  have p: "?p \<noteq> 0" "?p < block_cnt bm" using own_block(2,4) [OF ok r(3) t(1) own_p] by simp_all
  have "slot ?buf j \<noteq> 0" if "j < ndirect ?bs" for j
  proof -
    have "wblock ?bs ?buf (ind_blk bm ?buf) j \<in> set (own bm ?b)"
      using that n by (auto simp: own_def set_foot)
    then show ?thesis using own_block(4) [OF ok r(3) t(1)] that by (fastforce simp: wblock_def)
  qed
  then have cd: "collect_direct ?buf 0 (get_direct_block_num ?buf) = Inr (map (slot ?buf) [0..<ndirect ?bs])"
    unfolding direct_num_ok(1) [OF ino] using nd by (intro collect_direct_ok [OF ino]) simp_all
  have bg: "blocks_get ?buf (get_direct_block_num ?buf) = Inr ?p"
    unfolding direct_num_ok(1) [OF ino] using ino nd by (rule blocks_get_ok)
  have wf: "wf_bm bm" using ok by simp
  have "read_block ?p [] bm = Inl OutOfBounds"
    using block_room [OF wf p(2)] bs wf p(2)
    by (simp add: read_block_def block_addr_ok store_checked_def)
  then show ?thesis
    using r(1,2) cd bg p(1) by (simp add: remove_file_def chain_def KInvalidBlockID_def)
qed

lemma remove_file_none [chfs_exec]:
  "fs_ok fs bm \<Longrightarrow> 0 < ino \<Longrightarrow> abs_fs fs bm ino = None \<or> \<not> usable fs ino \<Longrightarrow>
   remove_file fs ino bm = Inr (Err INVALID_ARG, bm)"
  by (simp add: remove_file_def chain_def fs_read_inode_none)

subsection \<open>Counting\<close>

lemma fs_counts [chfs_exec]:
  assumes "fs_ok fs bm"
  shows "get_free_blocks_num fs bm = Inr (Ok (card (free_set (block_allocator_of fs) bm)), bm)"
    and "get_free_inode_num fs bm = Inr (Ok (card (ino_free (inode_manager_of fs) bm)), bm)"
  using free_block_cnt_eq [OF fs_ok_al [OF assms]] free_inode_cnt_ok [OF fs_ok_im [OF assms]]
  by (simp_all add: get_free_blocks_num_def get_free_inode_num_def chain_def)

end
