(* ===== verification/File_Mount.thy ===== *)
theory File_Mount
  imports File_Control
begin

text \<open>
  Making a file system on a device and mounting it again (the constructor of \<open>FileOperation\<close>
  and \<open>create_from_raw\<close>). The constructor leaves a sound, empty file system; mounting a sound
  device, whatever was done to it since, gives back the handles the constructor returned.
\<close>

definition handles_for :: "block_manager \<Rightarrow> nat \<Rightarrow> file_operation" where
  "handles_for bm n = \<lparr>inode_manager_of = manager_for bm n,
                       block_allocator_of = allocator_for (im_end (manager_for bm n)) bm\<rparr>"

definition fits_device :: "block_manager \<Rightarrow> nat \<Rightarrow> bool" where
  "fits_device bm n \<longleftrightarrow> wf_bm bm \<and> 52 \<le> block_sz bm \<and> 8 * block_sz bm < 2 ^ 32 \<and> 0 < block_cnt bm
     \<and> 0 < n \<and> n < 2 ^ 64 \<and> im_end (manager_for bm n) + bitmap_blocks bm \<le> block_cnt bm"

lemma manager_for_idem:
  assumes "wf_bm bm"
  shows "manager_for bm (max_inode_supported (manager_for bm n)) = manager_for bm n"
proof -
  have "0 < bpb bm" using assms by simp
  then have "bitmap_blocks_for bm (bitmap_blocks_for bm n * bpb bm) = bitmap_blocks_for bm n"
    by (simp add: bitmap_blocks_for_def [of bm "bitmap_blocks_for bm n * bpb bm"])
  then show ?thesis by (simp add: manager_for_def Let_def)
qed

lemma reserved_ok: "im_ok im bm \<Longrightarrow> get_reserved_blocks im = im_end im"
  by (simp add: im_ok_def get_reserved_blocks_def im_end_def wf_bm_def)

theorem new_file_operation_ok:
  assumes fit: "fits_device bm n"
  shows "\<exists>bm'. new_file_operation n junk bm = Inr (handles_for bm n, bm') \<and> fs_ok (handles_for bm n) bm'
    \<and> abs_fs (handles_for bm n) bm' = Map.empty
    \<and> block_sz bm' = block_sz bm \<and> block_cnt bm' = block_cnt bm
    \<and> card (free_set (block_allocator_of (handles_for bm n)) bm')
      = block_cnt bm - (im_end (manager_for bm n) + bitmap_blocks bm)
    \<and> card (ino_free (manager_for bm n) bm') = max_inode_supported (manager_for bm n)"
proof -
  let ?im = "manager_for bm n" and ?e = "im_end (manager_for bm n)"
  let ?al = "allocator_for ?e bm"
  have wf: "wf_bm bm" and bs: "52 \<le> block_sz bm" "bpb bm < 2 ^ 32" and cnt: "0 < block_cnt bm"
    and n: "0 < n" "n < 2 ^ 64" and fits: "?e + bitmap_blocks bm \<le> block_cnt bm"
    using fit by (simp_all add: fits_device_def)
  have ec: "?e < block_cnt bm" using fits bitmap_blocks_bounds(1) [OF wf cnt] by linarith
  from new_inode_manager_ok [OF wf bs n ec] obtain bm1 where b1:
      "new_inode_manager n bm = Inr (?im, bm1)" "im_ok ?im bm1" "block_sz bm1 = block_sz bm"
      "block_cnt bm1 = block_cnt bm"
      "\<And>i. i < max_inode_supported ?im \<Longrightarrow> table bm1 i = 0 \<and> \<not> ibit ?im bm1 i"
    by blast
  have wf1: "wf_bm bm1" using b1(2) by simp
  have cong: "bitmap_blocks bm1 = bitmap_blocks bm" "allocator_for ?e bm1 = ?al"
    using b1(3,4) allocator_for_cong [OF b1(3,4)] by (simp_all add: bitmap_blocks_def)
  from new_block_allocator_ok [OF wf1, of ?e] b1(3,4) bs cnt fits cong obtain bm2 where b2:
      "new_block_allocator ?e True bm1 = Inr (?al, bm2)" "alloc_ok ?al bm2"
      "block_sz bm2 = block_sz bm" "block_cnt bm2 = block_cnt bm"
      "\<And>c. c < block_cnt bm \<Longrightarrow> c < ?e \<or> ?e + bitmap_blocks bm \<le> c \<Longrightarrow> blk bm2 c = blk bm1 c"
      "\<And>b. b < block_cnt bm \<Longrightarrow> used ?al bm2 b \<longleftrightarrow> b < ?e + bitmap_blocks bm" by auto
  have wf2: "wf_bm bm2" using b2(2) by simp
  have im2: "im_ok ?im bm2" by (rule im_ok_cong [OF b1(2) wf2]) (use b1 b2 in simp_all)
  have "0 < block_cnt bm2" "32 \<le> block_sz bm2" "max_inode_supported ?im < 2 ^ 64"
    using b2 cnt bs im_geometry(5) [OF im2] by simp_all
  from flush_super_block_ok [OF wf2 this refl, of junk] obtain sb d where sb:
      "new_super_block bm2 (max_inode_supported ?im) junk = Inr sb" "length d = block_sz bm2"
      "flush_super_block sb 0 bm2 = Inr (Ok (), upd_blk 0 d bm2)" "super_ok ?im (upd_blk 0 d bm2)" .
  let ?bm = "upd_blk 0 d bm2" and ?fs = "handles_for bm n"
  have run: "new_file_operation n junk bm = Inr (?fs, ?bm)"
    using b1(1) b2(1) sb(1,3) reserved_ok [OF b1(2)]
    by (simp add: new_file_operation_def chain_def handles_for_def)
  have e0: "0 < ?e" by (simp add: im_end_def)
  have dlo: "data_lo ?al = ?e + bitmap_blocks bm" by (simp add: data_lo_def allocator_for_def)
  have blk3: "blk ?bm c = blk bm2 c" if "0 < c" "c < block_cnt bm" for c
    using that wf2 b2(4) sb(2) by (simp add: blk_upd_blk)
  have wf3: "wf_bm ?bm" using wf2 b2(4) cnt sb(2) by simp
  have al3: "alloc_ok ?al ?bm" using b2(2) wf3 unfolding alloc_ok_def by simp
  have us3: "used ?al ?bm c \<longleftrightarrow> c < ?e + bitmap_blocks bm" if "c < block_cnt bm" for c
  proof -
    have "used ?al ?bm c = used ?al bm2 c"
      using that e0 b2(4) blk3 fits dlo by (intro used_cong [OF b2(2)]) (simp_all add: allocator_for_def)
    then show ?thesis using b2(6) that by simp
  qed
  have im3: "im_ok ?im ?bm" by (rule im_ok_cong [OF im2 wf3]) simp_all
  have bits: "table ?bm i = 0 \<and> \<not> ibit ?im ?bm i" if i: "i < max_inode_supported ?im" for i
  proof -
    have home: "1 + i div ipb bm2 < ?e" "ibit_home ?im bm2 i < ?e"
      using table_home(1) [OF im2 i] ibit_home_range(2) [OF im2 i] by (simp_all add: im_end_def)
    have "blk ?bm c = blk bm1 c" if "0 < c" "c < ?e" for c using that blk3 b2(5) ec by simp
    then have "table ?bm i = table bm1 i" "ibit ?im ?bm i = ibit ?im bm1 i"
      using home b1(3) b2(3) by (simp_all add: table_def ibit_def ibit_home_def)
    then show ?thesis using b1(5) [OF i] by simp
  qed
  have idem: "manager_for bm (max_inode_supported ?im) = ?im" using wf by (rule manager_for_idem)
  have geo: "block_sz ?bm = block_sz bm" "block_cnt ?bm = block_cnt bm" using b2 by simp_all
  have sel: "inode_manager_of ?fs = ?im" "block_allocator_of ?fs = ?al" by (simp_all add: handles_for_def)
  have "layout_ok ?fs ?bm"
    unfolding layout_ok_def Let_def sel manager_for_cong [OF geo(1)] allocator_for_cong [OF geo] idem dlo
    using im3 al3 us3 fits sb(4) by simp
  moreover have nt: "\<not> taken ?fs ?bm i \<and> table ?bm i = 0" if "i < max_ino ?fs" for i
    using bits [of i] that by (simp add: max_ino_def sel)
  ultimately have "fs_ok ?fs ?bm" by (simp add: fs_ok_def inodes_ok_def)
  moreover have "abs_fs ?fs ?bm = Map.empty"
  proof
    fix ino
    show "abs_fs ?fs ?bm ino = None" using nt [of "ino - 1"] by (cases ino) (auto simp: abs_fs_def)
  qed
  moreover have "free_set ?al ?bm = {?e + bitmap_blocks bm..<block_cnt bm}"
    using us3 geo(2) by (auto simp: free_set_def)
  moreover have "ino_free ?im ?bm = {..<max_inode_supported ?im}"
    using bits by (auto simp: ino_free_def)
  ultimately show ?thesis using run geo unfolding sel by auto
qed

theorem create_from_raw_ok:
  assumes ok: "fs_ok fs bm"
  shows "create_from_raw bm = Inr (Ok fs, bm)"
proof -
  let ?im = "inode_manager_of fs" and ?al = "block_allocator_of fs"
  have im: "im_ok ?im bm" and al: "alloc_ok ?al bm" and wf: "wf_bm bm" using ok by simp_all
  have l: "?im = manager_for bm (max_inode_supported ?im)" "?al = allocator_for (im_end ?im) bm" "super_ok ?im bm"
    using fs_ok_layout [OF ok] unfolding layout_ok_def Let_def by blast+
  have geo: "0 < block_cnt bm" "32 \<le> block_sz bm" "bpb bm < 2 ^ 32"
    using im by (simp_all add: im_ok_def)
  let ?sb = "decode_super_block (take 32 (blk bm 0))"
  have n: "sb_ninodes ?sb = max_inode_supported ?im" using l(3) by (simp add: super_ok_def Let_def)
  have c: "create_from_block_manager (max_inode_supported ?im) bm = Inr (Ok ?im)"
    using create_from_block_manager_ok [of bm "max_inode_supported ?im"] im l(1) by simp
  have "bitmap_block_cnt ?al = bitmap_blocks bm" "bitmap_block_id ?al = im_end ?im"
    by (subst l(2), simp add: allocator_for_def)+
  then have "im_end ?im + bitmap_blocks bm \<le> block_cnt bm" using al unfolding alloc_ok_def by simp
  then have a: "new_block_allocator (im_end ?im) False bm = Inr (?al, bm)"
    using new_block_allocator_geometry [OF wf geo(3,1), of "im_end ?im" False] l(2) by simp
  show ?thesis
    using create_from_existing_ok [OF wf geo(1,2)] n c a reserved_ok [OF im]
    by (simp add: create_from_raw_def chain_def)
qed

text \<open>A super block whose inode count does not fill whole bitmap blocks stops the mount.\<close>

theorem create_from_raw_bad_count:
  assumes "wf_bm bm" and "0 < block_cnt bm" and "32 \<le> block_sz bm" and "bpb bm < 2 ^ 32"
    and "get_le (blk bm 0) 16 8 mod bpb bm \<noteq> 0"
  shows "create_from_raw bm = Inl VerifyAborted"
proof -
  have len: "length (blk bm 0) = block_sz bm" using assms(1,2) by simp
  have g: "get_le (take 32 (blk bm 0)) 16 8 = get_le (blk bm 0) 16 8"
    by (simp add: get_le_def load_def drop_take)
  have "get_le (blk bm 0) 16 8 < 2 ^ 64" using len assms(3) by (intro get_le8_less) simp
  then have "create_from_block_manager (get_le (blk bm 0) 16 8) bm = Inl VerifyAborted"
    using assms by (intro create_from_block_manager_rejects)
  then show ?thesis
    using create_from_existing_ok [OF assms(1-3)] g
    by (simp add: create_from_raw_def chain_def decode_super_block_def)
qed

end
