(* ===== verification/Dir_Text.thy ===== *)
theory Dir_Text
  imports Chfs_Prelude
begin

text \<open>
  The text format of a directory (src/src/filesystem/directory\_op.cc,
  src/src/include/filesystem/directory\_op.h): \<open>name:inode\<close> entries separated by \<open>/\<close>. A
  \<open>std::string\<close> is a list of characters; \<open>text_of\<close> and \<open>bytes_of\<close> convert from and to the
  bytes of a file.

  \<open>ss >> inode\<close> skips white space, takes a sign and decimal digits, stores 0 if there are no
  digits and the largest number if they overflow, and leaves the variable as it is when
  nothing but white space is there. The variable is not initialised: in that case the result
  is the argument \<open>junk\<close>.

  Proved: numbers and entry lists of clean names (no \<open>:\<close>, no \<open>/\<close>) survive printing and parsing,
  appending and removing are list operations, and a name with a colon does not survive.
\<close>

record directory_entry =
  ename :: string
  eid :: nat

definition text_of :: "byte list \<Rightarrow> string" where
  "text_of = map (\<lambda>b. char_of (unat b))"

definition bytes_of :: "string \<Rightarrow> byte list" where
  "bytes_of = map (\<lambda>c. word_of_nat (of_char c))"

definition colon :: char where "colon = CHR '':''"
definition slash :: char where "slash = CHR ''/''"

subsection \<open>Numbers\<close>

definition is_space :: "char \<Rightarrow> bool" where
  "is_space c \<longleftrightarrow> (let n = of_char c :: nat in n = 32 \<or> 9 \<le> n \<and> n \<le> 13)"

definition is_digit :: "char \<Rightarrow> bool" where
  "is_digit c \<longleftrightarrow> (let n = of_char c :: nat in 48 \<le> n \<and> n \<le> 57)"

definition digit_value :: "char \<Rightarrow> nat" where
  "digit_value c = of_char c - 48"

definition digit_char :: "nat \<Rightarrow> char" where
  "digit_char d = char_of (48 + d)"

fun inode_id_to_string :: "nat \<Rightarrow> string" where
  "inode_id_to_string n =
     (if n < 10 then [digit_char n] else inode_id_to_string (n div 10) @ [digit_char (n mod 10)])"

declare inode_id_to_string.simps [simp del]

definition decimal_value :: "string \<Rightarrow> nat" where
  "decimal_value ds = foldl (\<lambda>a c. 10 * a + digit_value c) 0 ds"

definition string_to_inode_id :: "nat \<Rightarrow> string \<Rightarrow> nat" where
  "string_to_inode_id junk data = (case dropWhile is_space data of
     [] \<Rightarrow> junk
   | c # cs \<Rightarrow>
       (let ds = takeWhile is_digit (if c = CHR ''-'' \<or> c = CHR ''+'' then cs else c # cs);
            v = decimal_value ds
        in if ds = [] then 0
           else if v \<ge> 2 ^ 64 then 2 ^ 64 - 1
           else if c = CHR ''-'' then wrap64 (2 ^ 64 - v) else v))"

subsection \<open>Printing\<close>

fun dir_list_loop :: "nat \<Rightarrow> nat \<Rightarrow> directory_entry list \<Rightarrow> string" where
  "dir_list_loop sz cnt [] = []"
| "dir_list_loop sz cnt (e # es) =
     ename e @ [colon] @ inode_id_to_string (eid e)
     @ (if cnt < sz - 1 then [slash] else []) @ dir_list_loop sz (wrap32 (cnt + 1)) es"

definition dir_list_to_string :: "directory_entry list \<Rightarrow> string" where
  "dir_list_to_string entries = dir_list_loop (length entries) 0 entries"

definition append_to_directory :: "string \<Rightarrow> string \<Rightarrow> nat \<Rightarrow> string" where
  "append_to_directory src filename ino =
     src @ (if src \<noteq> [] \<and> last src \<noteq> slash then [slash] else [])
         @ filename @ [colon] @ inode_id_to_string ino"

subsection \<open>Parsing\<close>

definition parse_token :: "nat \<Rightarrow> string \<Rightarrow> directory_entry list" where
  "parse_token junk token =
     (if colon \<in> set token
      then [\<lparr>ename = takeWhile (\<lambda>c. c \<noteq> colon) token,
             eid = string_to_inode_id junk (drop 1 (dropWhile (\<lambda>c. c \<noteq> colon) token))\<rparr>]
      else [])"

text \<open>The loop, on what is left of the string from \<open>start\<close> on.\<close>

function parse_rest :: "nat \<Rightarrow> string \<Rightarrow> directory_entry list" where
  "parse_rest junk rest =
     (let token = takeWhile (\<lambda>c. c \<noteq> slash) rest;
          here = (if token \<noteq> [] then parse_token junk token else [])
      in if length token = length rest then here
         else here @ parse_rest junk (drop (length token + 1) rest))"
  by pat_completeness auto
termination
proof (relation "measure (\<lambda>(junk, rest). length rest)")
  fix junk :: nat and rest token here
  assume "token = takeWhile (\<lambda>c. c \<noteq> slash) rest" "length token \<noteq> length rest"
  then have "rest \<noteq> []" by auto
  then show "((junk, drop (length token + 1) rest), (junk, rest)) \<in> measure (\<lambda>(junk, rest). length rest)"
    by simp
qed simp

declare parse_rest.simps [simp del]

definition parse_directory :: "nat \<Rightarrow> string \<Rightarrow> directory_entry list" where
  "parse_directory junk src = (if src = [] then [] else parse_rest junk src)"

definition rm_from_directory :: "nat \<Rightarrow> string \<Rightarrow> string \<Rightarrow> string" where
  "rm_from_directory junk src filename =
     dir_list_to_string (filter (\<lambda>e. \<not> ename e = filename) (parse_directory junk src))"

subsection \<open>Bytes and characters\<close>

lemma of_char_less: "(of_char c :: nat) < 256"
  by (metis of_char_mod_256 mod_less_divisor zero_less_numeral)

lemma text_bytes [simp]: "text_of (bytes_of s) = s"
  by (induction s) (simp_all add: text_of_def bytes_of_def of_char_less)

lemma bytes_text [simp]: "bytes_of (text_of d) = d"
proof (induction d)
  case (Cons b d)
  have "(of_char (char_of (unat b) :: char) :: nat) = unat b"
    using unat_byte_less [of b] by simp
  then show ?case using Cons by (simp add: text_of_def bytes_of_def)
qed (simp add: text_of_def bytes_of_def)

lemma length_bytes_of [simp]: "length (bytes_of s) = length s"
  by (simp add: bytes_of_def)

subsection \<open>Numbers survive\<close>

lemma digit_char_facts:
  assumes "d < 10"
  shows "is_digit (digit_char d)" and "digit_value (digit_char d) = d" and "\<not> is_space (digit_char d)"
    and "digit_char d \<noteq> slash" and "digit_char d \<noteq> colon" and "digit_char d \<noteq> CHR ''-''" and "digit_char d \<noteq> CHR ''+''"
proof -
  have v: "(of_char (digit_char d) :: nat) = 48 + d" using assms by (simp add: digit_char_def)
  then show "is_digit (digit_char d)" "digit_value (digit_char d) = d" "\<not> is_space (digit_char d)"
    using assms by (simp_all add: is_digit_def digit_value_def is_space_def)
  have "(of_char slash :: nat) = 47" "(of_char colon :: nat) = 58" "(of_char (CHR ''-'') :: nat) = 45" "(of_char (CHR ''+'') :: nat) = 43"
    by (simp_all add: slash_def colon_def)
  then show "digit_char d \<noteq> slash" "digit_char d \<noteq> colon" "digit_char d \<noteq> CHR ''-''" "digit_char d \<noteq> CHR ''+''"
    using v assms by auto
qed

lemma inode_id_to_string_digits: "c \<in> set (inode_id_to_string n) \<Longrightarrow> \<exists>d < 10. c = digit_char d"
proof (induction n rule: inode_id_to_string.induct)
  case (1 n)
  show ?case
  proof (cases "n < 10")
    case True
    then show ?thesis using 1(2) by (auto simp: inode_id_to_string.simps [of n])
  next
    case False
    then have "c \<in> set (inode_id_to_string (n div 10)) \<or> c = digit_char (n mod 10)"
      using 1(2) by (subst (asm) inode_id_to_string.simps) auto
    then show ?thesis using 1(1) [OF False] by (metis mod_less_divisor zero_less_numeral)
  qed
qed

lemma inode_id_to_string_nonempty [simp]: "inode_id_to_string n \<noteq> []"
  by (subst inode_id_to_string.simps) simp

lemma decimal_value_snoc: "decimal_value (ds @ [c]) = 10 * decimal_value ds + digit_value c"
  by (simp add: decimal_value_def)

lemma decimal_value_print: "decimal_value (inode_id_to_string n) = n"
proof (induction n rule: inode_id_to_string.induct)
  case (1 n)
  show ?case
  proof (cases "n < 10")
    case True
    then show ?thesis
      by (simp add: inode_id_to_string.simps [of n] decimal_value_def digit_char_facts)
  next
    case False
    have "n mod 10 < 10" by simp
    then show ?thesis
      using 1 [OF False] False
      by (simp add: inode_id_to_string.simps [of n] decimal_value_snoc digit_char_facts)
  qed
qed

lemma string_to_inode_id_print:
  assumes "n < 2 ^ 64"
  shows "string_to_inode_id junk (inode_id_to_string n) = n"
proof -
  let ?s = "inode_id_to_string n"
  obtain c cs where s: "?s = c # cs" by (cases ?s) simp_all
  then obtain d where d: "d < 10" "c = digit_char d" using inode_id_to_string_digits [of c n] by auto
  note c = digit_char_facts [OF d(1), folded d(2)]
  have "takeWhile is_digit ?s = ?s"
    using inode_id_to_string_digits [of _ n] digit_char_facts(1) by (intro takeWhile_eq_all_conv [THEN iffD2]) blast
  then have "takeWhile is_digit cs = cs" using c(1) by (simp only: s) simp
  moreover have "decimal_value (c # cs) = n" using decimal_value_print [of n] by (simp only: s)
  ultimately show ?thesis
    using c assms by (simp add: string_to_inode_id_def s Let_def del: takeWhile_eq_all_conv)
qed

subsection \<open>Entry lists survive\<close>

definition clean_name :: "string \<Rightarrow> bool" where
  "clean_name s \<longleftrightarrow> colon \<notin> set s \<and> slash \<notin> set s"

definition entry_ok :: "directory_entry \<Rightarrow> bool" where
  "entry_ok e \<longleftrightarrow> clean_name (ename e) \<and> eid e < 2 ^ 64"

definition entry_text :: "directory_entry \<Rightarrow> string" where
  "entry_text e = ename e @ [colon] @ inode_id_to_string (eid e)"

fun dir_text :: "directory_entry list \<Rightarrow> string" where
  "dir_text [] = []"
| "dir_text [e] = entry_text e"
| "dir_text (e # es) = entry_text e @ [slash] @ dir_text es"

lemma dir_text_Cons: "es \<noteq> [] \<Longrightarrow> dir_text (e # es) = entry_text e @ [slash] @ dir_text es"
  by (cases es) simp_all

lemma dir_list_loop_text:
  "cnt + length es = sz \<Longrightarrow> sz < 2 ^ 32 \<Longrightarrow> dir_list_loop sz cnt es = dir_text es"
proof (induction es arbitrary: cnt)
  case (Cons e es)
  have "wrap32 (cnt + 1) = Suc cnt" using Cons.prems by simp
  moreover have "dir_list_loop sz (Suc cnt) es = dir_text es" using Cons.prems by (intro Cons.IH) simp_all
  ultimately show ?case
    using Cons.prems by (cases es) (auto simp: entry_text_def)
qed simp

lemma dir_list_to_string_text: "length es < 2 ^ 32 \<Longrightarrow> dir_list_to_string es = dir_text es"
  by (simp add: dir_list_to_string_def dir_list_loop_text)

lemma number_clean: "slash \<notin> set (inode_id_to_string n)" "colon \<notin> set (inode_id_to_string n)"
  using inode_id_to_string_digits [of _ n] digit_char_facts(4,5) by metis+

lemma entry_text_no_slash: "slash \<notin> set (ename e) \<Longrightarrow> slash \<notin> set (entry_text e)"
  by (simp add: entry_text_def number_clean) (simp add: slash_def colon_def)

lemma parse_rest_token:
  assumes "slash \<notin> set token"
  shows "parse_rest junk (token @ slash # rest) = (if token \<noteq> [] then parse_token junk token else []) @ parse_rest junk rest"
    and "parse_rest junk token = (if token \<noteq> [] then parse_token junk token else [])"
proof -
  have t: "takeWhile (\<lambda>c. c \<noteq> slash) (token @ slash # rest) = token" "takeWhile (\<lambda>c. c \<noteq> slash) token = token"
    using assms by (auto simp: takeWhile_append intro!: takeWhile_eq_all_conv [THEN iffD2])
  show "parse_rest junk (token @ slash # rest) = (if token \<noteq> [] then parse_token junk token else []) @ parse_rest junk rest"
    by (subst parse_rest.simps) (simp add: t Let_def)
  show "parse_rest junk token = (if token \<noteq> [] then parse_token junk token else [])"
    by (subst parse_rest.simps) (simp add: t Let_def)
qed

lemma parse_token_entry:
  assumes "slash \<notin> set (ename e)" and "colon \<notin> set (ename e)" and "eid e < 2 ^ 64"
  shows "parse_token junk (entry_text e) = [e]"
proof -
  have "takeWhile (\<lambda>c. c \<noteq> colon) (entry_text e) = ename e"
    "dropWhile (\<lambda>c. c \<noteq> colon) (entry_text e) = colon # inode_id_to_string (eid e)"
    using assms(2) by (auto simp: entry_text_def takeWhile_append dropWhile_append)
  then show ?thesis using assms(3) by (simp add: parse_token_def string_to_inode_id_print) (simp add: entry_text_def)
qed

lemma entry_text_nonempty [simp]: "entry_text e \<noteq> []"
  by (simp add: entry_text_def)

lemma parse_rest_text:
  "\<forall>e \<in> set es. entry_ok e \<Longrightarrow> es \<noteq> [] \<Longrightarrow> parse_rest junk (dir_text es) = es"
proof (induction es)
  case (Cons e es)
  have e: "slash \<notin> set (ename e)" "colon \<notin> set (ename e)" "eid e < 2 ^ 64"
    using Cons.prems by (simp_all add: entry_ok_def clean_name_def)
  note p = parse_rest_token [OF entry_text_no_slash [OF e(1)]] and t = parse_token_entry [OF e]
  show ?case
  proof (cases "es = []")
    case True
    then show ?thesis using p(2) t by simp
  next
    case False
    then show ?thesis using p(1) t Cons by (simp add: dir_text_Cons)
  qed
qed simp

lemma dir_text_empty_iff [simp]: "dir_text es = [] \<longleftrightarrow> es = []"
  by (cases es rule: dir_text.cases) simp_all

lemma parse_directory_text: "\<forall>e \<in> set es. entry_ok e \<Longrightarrow> parse_directory junk (dir_text es) = es"
  by (cases "es = []") (simp_all add: parse_directory_def parse_rest_text)

lemma last_dir_text: "es \<noteq> [] \<Longrightarrow> last (dir_text es) \<noteq> slash"
proof (induction es rule: dir_text.induct)
  case (2 e)
  have "last (entry_text e) \<in> set (inode_id_to_string (eid e))" by (simp add: entry_text_def)
  then show ?case using number_clean(1) by (metis dir_text.simps(2))
qed simp_all

lemma dir_text_snoc: "es \<noteq> [] \<Longrightarrow> dir_text (es @ [e]) = dir_text es @ [slash] @ entry_text e"
  by (induction es rule: dir_text.induct) (simp_all add: dir_text_Cons)

lemma append_to_directory_text:
  "append_to_directory (dir_text es) name ino = dir_text (es @ [\<lparr>ename = name, eid = ino\<rparr>])"
  by (cases "es = []") (simp_all add: append_to_directory_def dir_text_snoc last_dir_text entry_text_def)

lemma length_filter_dir_text: "length (dir_text (filter P es)) \<le> length (dir_text es)"
proof (induction es)
  case (Cons e es)
  show ?case
  proof (cases "es = []")
    case False
    then have c: "dir_text (e # es) = entry_text e @ [slash] @ dir_text es" by (rule dir_text_Cons)
    show ?thesis
    proof (cases "P e \<and> filter P es \<noteq> []")
      case True
      then show ?thesis using Cons c by (simp add: dir_text_Cons)
    next
      case False
      then show ?thesis using Cons c by (cases "P e") simp_all
    qed
  qed simp
qed simp

lemma length_le_dir_text: "length es \<le> length (dir_text es)"
proof (induction es rule: dir_text.induct)
  case (2 e)
  then show ?case by (simp add: entry_text_def)
qed simp_all

lemma rm_from_directory_text:
  assumes "\<forall>e \<in> set es. entry_ok e" and "length (dir_text es) < 2 ^ 32"
  shows "rm_from_directory junk (dir_text es) name = dir_text (filter (\<lambda>e. ename e \<noteq> name) es)"
proof -
  have "length (filter (\<lambda>e. ename e \<noteq> name) es) < 2 ^ 32"
    using length_filter_le [of _ es] length_le_dir_text [of es] assms(2) by (meson le_less_trans)
  then show ?thesis
    using assms(1) by (simp add: rm_from_directory_def parse_directory_text dir_list_to_string_text)
qed

subsection \<open>Names that are not clean\<close>

text \<open>The entry of a name with a colon comes back under the part before the colon.\<close>

lemma parse_token_colon:
  assumes "colon \<in> set name"
  shows "\<exists>i. parse_token junk (entry_text \<lparr>ename = name, eid = ino\<rparr>)
    = [\<lparr>ename = takeWhile (\<lambda>c. c \<noteq> colon) name, eid = i\<rparr>]"
  using assms by (auto simp: parse_token_def entry_text_def takeWhile_append1)

lemma parse_append_colon:
  assumes es: "\<forall>e \<in> set es. entry_ok e" and name: "colon \<in> set name" "slash \<notin> set name"
  shows "\<exists>i. parse_directory junk (append_to_directory (dir_text es) name ino)
    = es @ [\<lparr>ename = takeWhile (\<lambda>c. c \<noteq> colon) name, eid = i\<rparr>]"
proof -
  let ?e = "\<lparr>ename = name, eid = ino\<rparr>"
  obtain i where i: "parse_token junk (entry_text ?e) = [\<lparr>ename = takeWhile (\<lambda>c. c \<noteq> colon) name, eid = i\<rparr>]"
    using parse_token_colon [OF name(1)] by blast
  have ns: "slash \<notin> set (entry_text ?e)" using name(2) by (simp add: entry_text_no_slash)
  note pe = parse_rest_token(2) [OF ns]
  have "parse_rest junk (dir_text (es @ [?e])) = es @ [\<lparr>ename = takeWhile (\<lambda>c. c \<noteq> colon) name, eid = i\<rparr>]"
    using es
  proof (induction es)
    case Nil
    then show ?case using pe i by simp
  next
    case (Cons e es)
    have e: "slash \<notin> set (ename e)" "colon \<notin> set (ename e)" "eid e < 2 ^ 64"
      using Cons.prems by (simp_all add: entry_ok_def clean_name_def)
    show ?case
      using Cons parse_rest_token(1) [OF entry_text_no_slash [OF e(1)]] parse_token_entry [OF e]
      by (simp add: dir_text_Cons)
  qed
  then show ?thesis unfolding append_to_directory_text by (simp add: parse_directory_def)
qed

end
