(* ===== verification/Directory.thy ===== *)
theory Directory
  imports File_Mount Dir_Text
begin

text \<open>
  Directory operations (\<open>read_directory\<close>, and \<open>lookup\<close>, \<open>mk_helper\<close>, \<open>unlink\<close> of
  \<open>FileOperation\<close>, src/src/filesystem/directory\_op.cc). A directory is a file whose bytes are
  the text of theory Dir_Text. A C string argument is the list of its characters before the
  terminating zero. \<open>env\<close> collects what the operations take from their surroundings: the clock,
  the uninitialised bytes of a heap buffer and the uninitialised variable of the number parser.
\<close>

record env =
  env_now :: nat
  env_wait :: nat
  env_heap :: "nat \<Rightarrow> byte"
  env_id :: nat

text \<open>A creation reads the clock a second time, \<open>env_wait\<close> seconds later, when it writes the directory.
  Where a call uses several uninitialised buffers, their bytes are apart from each other in \<open>env_heap\<close>.\<close>

definition env_later :: "env \<Rightarrow> nat" where
  "env_later ev = wrap64 (env_now ev + env_wait ev)"

definition heap_part :: "env \<Rightarrow> nat \<Rightarrow> nat \<Rightarrow> byte" where
  "heap_part ev n k = env_heap ev (n * 2 ^ 32 + k)"

lemma env_later_less: "env_later ev < 2 ^ 64"
  by (simp add: env_later_def wrap64_def)

lemmas env_later_bound [simp] = env_later_less [simplified]

definition read_directory ::
    "env \<Rightarrow> file_operation \<Rightarrow> nat \<Rightarrow> (block_manager, directory_entry list chfs_result) exec" where
  "read_directory ev fs ino =
     chain (read_file fs ino) (\<lambda>res. on_ok res (\<lambda>buf.
     give (Ok (parse_directory (env_id ev) (text_of buf)))))"

fun find_entry :: "string \<Rightarrow> directory_entry list \<Rightarrow> nat chfs_result" where
  "find_entry name [] = Err NotExist"
| "find_entry name (e # es) = (if ename e = name then Ok (eid e) else find_entry name es)"

definition lookup :: "env \<Rightarrow> file_operation \<Rightarrow> nat \<Rightarrow> string \<Rightarrow> (block_manager, nat chfs_result) exec" where
  "lookup ev fs ino name =
     chain (read_directory ev fs ino) (\<lambda>rd. on_ok rd (\<lambda>es. give (find_entry name es)))"

text \<open>Any error of \<open>lookup\<close>, not only \<open>NotExist\<close>, lets the creation go on.\<close>

definition mk_helper ::
    "env \<Rightarrow> file_operation \<Rightarrow> nat \<Rightarrow> string \<Rightarrow> inode_type \<Rightarrow> (block_manager, nat chfs_result) exec" where
  "mk_helper ev fs ino name t =
     chain (lookup ev fs ino name) (\<lambda>lookup_res.
     if is_ok lookup_res then give (Err AlreadyExist)
     else chain (alloc_inode fs t (env_now ev) (env_heap ev)) (\<lambda>new_res. on_ok new_res (\<lambda>new_id.
          chain (read_file fs ino) (\<lambda>rd. on_ok rd (\<lambda>dir.
          chain (write_file fs ino (bytes_of (append_to_directory (text_of dir) name new_id)) (env_later ev)) (\<lambda>wr.
          on_ok wr (\<lambda>_. give (Ok new_id))))))))"

definition mkdir_op :: "env \<Rightarrow> file_operation \<Rightarrow> nat \<Rightarrow> string \<Rightarrow> (block_manager, nat chfs_result) exec" where
  "mkdir_op ev fs parent name = mk_helper ev fs parent name Directory"

definition mkfile :: "env \<Rightarrow> file_operation \<Rightarrow> nat \<Rightarrow> string \<Rightarrow> (block_manager, nat chfs_result) exec" where
  "mkfile ev fs parent name = mk_helper ev fs parent name FILE"

definition unlink ::
    "env \<Rightarrow> file_operation \<Rightarrow> nat \<Rightarrow> string \<Rightarrow> (block_manager, unit chfs_result) exec" where
  "unlink ev fs parent name =
     chain (lookup ev fs parent name) (\<lambda>target. on_ok target (\<lambda>tid.
     chain (gettype fs tid) (\<lambda>type_res. on_ok type_res (\<lambda>t.
     if t = type_code Directory then give (Err NotEmpty)
     else chain (remove_file fs tid) (\<lambda>rm. on_ok rm (\<lambda>_.
          chain (read_file fs parent) (\<lambda>rd. on_ok rd (\<lambda>dir.
          write_file fs parent (bytes_of (rm_from_directory (env_id ev) (text_of dir) name)) (env_now ev)))))))))"

subsection \<open>Directories of the abstract file system\<close>

text \<open>\<open>p\<close> can be used as a directory with entries \<open>es\<close>.\<close>

definition dir_at :: "file_operation \<Rightarrow> block_manager \<Rightarrow> nat \<Rightarrow> fnode \<Rightarrow> directory_entry list \<Rightarrow> bool" where
  "dir_at fs bm p f es \<longleftrightarrow> fs_ok fs bm \<and> usable fs p \<and> abs_fs fs bm p = Some f
     \<and> fdata f = bytes_of (dir_text es) \<and> (\<forall>e \<in> set es. entry_ok e)"

lemma dir_atD:
  assumes "dir_at fs bm p f es"
  shows "fs_ok fs bm" and "usable fs p" and "abs_fs fs bm p = Some f" and "fdata f = bytes_of (dir_text es)"
    and "\<forall>e \<in> set es. entry_ok e"
  using assms by (simp_all add: dir_at_def)

lemma read_directory_ok [chfs_exec]:
  assumes "dir_at fs bm p f es"
  shows "read_directory ev fs p bm = Inr (Ok es, bm)"
  using dir_atD [OF assms]
  by (simp add: read_directory_def chain_def read_file_ok parse_directory_text)

lemma read_directory_none [chfs_exec]:
  "fs_ok fs bm \<Longrightarrow> 0 < p \<Longrightarrow> abs_fs fs bm p = None \<or> \<not> usable fs p \<Longrightarrow>
   read_directory ev fs p bm = Inr (Err INVALID_ARG, bm)"
  by (simp add: read_directory_def chain_def read_file_none)

lemma find_entry_iff:
  "find_entry name es = (case map_of (map (\<lambda>e. (ename e, eid e)) es) name of
     None \<Rightarrow> Err NotExist | Some i \<Rightarrow> Ok i)"
  by (induction es) auto

lemma find_entry_None: "name \<notin> ename ` set es \<Longrightarrow> find_entry name es = Err NotExist"
  by (induction es) auto

lemma find_entry_Some:
  "distinct (map ename es) \<Longrightarrow> e \<in> set es \<Longrightarrow> find_entry (ename e) es = Ok (eid e)"
  by (induction es) (auto simp: rev_image_eqI)

lemma find_entry_snoc:
  "name \<notin> ename ` set es \<Longrightarrow> find_entry n (es @ [\<lparr>ename = name, eid = i\<rparr>])
   = (if n = name then Ok i else find_entry n es)"
  by (induction es) auto

lemma find_entry_filter:
  "find_entry n (filter (\<lambda>e. ename e \<noteq> name) es) = (if n = name then Err NotExist else find_entry n es)"
  by (induction es) auto

lemma lookup_ok [chfs_exec]:
  "dir_at fs bm p f es \<Longrightarrow> lookup ev fs p name bm = Inr (find_entry name es, bm)"
  by (simp add: lookup_def chain_def read_directory_ok)

lemma lookup_none [chfs_exec]:
  "fs_ok fs bm \<Longrightarrow> 0 < p \<Longrightarrow> abs_fs fs bm p = None \<or> \<not> usable fs p \<Longrightarrow>
   lookup ev fs p name bm = Inr (Err INVALID_ARG, bm)"
  by (simp add: lookup_def chain_def read_directory_none)

subsection \<open>Creation\<close>

lemma mk_helper_exists [chfs_exec]:
  "dir_at fs bm p f es \<Longrightarrow> name \<in> ename ` set es \<Longrightarrow>
   mk_helper ev fs p name t bm = Inr (Err AlreadyExist, bm)"
proof -
  assume d: "dir_at fs bm p f es" and n: "name \<in> ename ` set es"
  have "is_ok (find_entry name es)" using n by (induction es) auto
  then show ?thesis using lookup_ok [OF d] by (simp add: mk_helper_def chain_def)
qed

text \<open>
  After the inode exists, what remains is one \<open>write_file\<close> on the parent. The statement keeps
  the three outcomes apart.
\<close>

lemma mk_helper_cases:
  assumes d: "dir_at fs bm p f es" and new: "name \<notin> ename ` set es" and now: "env_now ev < 2 ^ 64"
    and b: "free_set (block_allocator_of fs) bm \<noteq> {}" and i: "ino_free (inode_manager_of fs) bm \<noteq> {}"
  defines "i0 \<equiv> Suc (Min (ino_free (inode_manager_of fs) bm))"
    and "text \<equiv> bytes_of (append_to_directory (dir_text es) name (Suc (Min (ino_free (inode_manager_of fs) bm))))"
  assumes sz: "length text \<le> max_size (block_sz bm)"
  shows "\<exists>bm'. fs_ok fs bm' \<and> abs_fs fs bm i0 = None \<and> i0 \<noteq> p \<and> block_sz bm' = block_sz bm
    \<and> block_cnt bm' = block_cnt bm
    \<and> (if blocks_for bm (length text) < card (free_set (block_allocator_of fs) bm) + blocks_for bm (length (fdata f))
       then mk_helper ev fs p name t bm = Inr (Ok i0, bm')
         \<and> abs_fs fs bm' = written_fs ((abs_fs fs bm)(i0 \<mapsto> new_file t (env_now ev))) p f (env_later ev) text
         \<and> card (free_set (block_allocator_of fs) bm') + blocks_for bm (length text) + 1
           = card (free_set (block_allocator_of fs) bm) + blocks_for bm (length (fdata f))
       else mk_helper ev fs p name t bm = Inr (Err OUT_OF_RESOURCE, bm')
         \<and> abs_fs fs bm' = (abs_fs fs bm)(i0 \<mapsto> new_file t (env_now ev)))"
proof -
  let ?al = "block_allocator_of fs"
  note D = dir_atD [OF d]
  from alloc_inode_ok [OF D(1) b i now, of t "env_heap ev"] obtain bm1 where a:
      "alloc_inode fs t (env_now ev) (env_heap ev) bm = Inr (Ok i0, bm1)" "fs_ok fs bm1"
      "abs_fs fs bm1 = (abs_fs fs bm)(i0 \<mapsto> new_file t (env_now ev))" "abs_fs fs bm i0 = None"
      "card (free_set ?al bm1) + 1 = card (free_set ?al bm)"
      "block_sz bm1 = block_sz bm" "block_cnt bm1 = block_cnt bm"
    unfolding i0_def by metis
  have ne: "i0 \<noteq> p" using a(4) D(3) by auto
  then have f1: "abs_fs fs bm1 p = Some f" using a(3) D(3) by simp
  have lk: "lookup ev fs p name bm = Inr (Err NotExist, bm)"
    using lookup_ok [OF d] find_entry_None [OF new] by simp
  have rd: "read_file fs p bm1 = Inr (Ok (fdata f), bm1)" using read_file_ok [OF a(2) D(2) f1] .
  have tx: "text = bytes_of (append_to_directory (dir_text es) name i0)" by (simp add: text_def i0_def)
  have run: "mk_helper ev fs p name t bm
      = chain (write_file fs p text (env_later ev)) (\<lambda>wr. on_ok wr (\<lambda>_. give (Ok i0))) bm1"
    using lk a(1) rd D(4) by (simp add: mk_helper_def chain_def tx)
  have bf: "blocks_for bm1 n = blocks_for bm n" for n using a(6) by (simp add: blocks_for_def)
  have sz1: "length text \<le> max_size (block_sz bm1)" using sz a(6) by simp
  show ?thesis
  proof (cases rule: write_file_ok [OF a(2) D(2) f1 sz1 env_later_less [of ev]])
    case (1 bm')
    have "mk_helper ev fs p name t bm = Inr (Ok i0, bm')" using run 1(1) by (simp add: chain_def)
    moreover have c: "card (free_set ?al bm') + blocks_for bm (length text) + 1
           = card (free_set ?al bm) + blocks_for bm (length (fdata f))"
      using 1(4) a(5) by (simp add: bf)
    moreover have "blocks_for bm (length text) < card (free_set ?al bm) + blocks_for bm (length (fdata f))"
      using c by linarith
    ultimately show ?thesis using 1 a ne by (intro exI [of _ bm']) simp
  next
    case (2 bm')
    have "mk_helper ev fs p name t bm = Inr (Err OUT_OF_RESOURCE, bm')" using run 2(1) by (simp add: chain_def)
    moreover have "\<not> blocks_for bm (length text) < card (free_set ?al bm) + blocks_for bm (length (fdata f))"
      using 2(4) a(5) by (simp add: bf)
    ultimately show ?thesis using 2 a ne by (intro exI [of _ bm']) simp
  qed
qed

lemma mk_helper_ok [chfs_exec]:
  assumes d: "dir_at fs bm p f es" and new: "name \<notin> ename ` set es" and now: "env_now ev < 2 ^ 64"
    and clean: "clean_name name"
    and i: "ino_free (inode_manager_of fs) bm \<noteq> {}"
  defines "i0 \<equiv> Suc (Min (ino_free (inode_manager_of fs) bm))"
    and "es' \<equiv> es @ [\<lparr>ename = name, eid = Suc (Min (ino_free (inode_manager_of fs) bm))\<rparr>]"
  assumes sz: "length (dir_text es') \<le> max_size (block_sz bm)"
    and room: "blocks_for bm (length (dir_text es'))
               < card (free_set (block_allocator_of fs) bm) + blocks_for bm (length (dir_text es))"
    and b: "free_set (block_allocator_of fs) bm \<noteq> {}"
  shows "\<exists>bm' f'. mk_helper ev fs p name t bm = Inr (Ok i0, bm') \<and> dir_at fs bm' p f' es'
    \<and> ftype f' = ftype f \<and> abs_fs fs bm i0 = None
    \<and> abs_fs fs bm' = (abs_fs fs bm)(i0 \<mapsto> new_file t (env_now ev), p \<mapsto> f') \<and> block_sz bm' = block_sz bm
    \<and> card (free_set (block_allocator_of fs) bm') + blocks_for bm (length (dir_text es')) + 1
      = card (free_set (block_allocator_of fs) bm) + blocks_for bm (length (dir_text es))"
proof -
  note D = dir_atD [OF d]
  have tx: "bytes_of (append_to_directory (dir_text es) name i0) = bytes_of (dir_text es')"
    by (simp add: append_to_directory_text es'_def i0_def)
  have "length (fdata f) = length (dir_text es)" using D(4) by simp
  with mk_helper_cases [OF d new now b i, of t, folded i0_def, unfolded tx] sz room obtain bm' where m:
      "mk_helper ev fs p name t bm = Inr (Ok i0, bm')" "fs_ok fs bm'" "abs_fs fs bm i0 = None" "i0 \<noteq> p"
      "abs_fs fs bm' = written_fs ((abs_fs fs bm)(i0 \<mapsto> new_file t (env_now ev))) p f (env_later ev) (bytes_of (dir_text es'))"
      "block_sz bm' = block_sz bm" "card (free_set (block_allocator_of fs) bm') + blocks_for bm (length (dir_text es')) + 1
      = card (free_set (block_allocator_of fs) bm) + blocks_for bm (length (dir_text es))"
    by auto
  let ?f = "f\<lparr>fattr := stamped (env_later ev) (length (bytes_of (dir_text es'))), fdata := bytes_of (dir_text es')\<rparr>"
  have "i0 \<le> max_ino fs" 
  proof -
    have "Min (ino_free (inode_manager_of fs) bm) \<in> ino_free (inode_manager_of fs) bm" using i by simp
    then show ?thesis by (simp add: i0_def ino_free_def max_ino_def)
  qed
  moreover have "max_ino fs < 2 ^ 64" using im_geometry(5) [OF fs_ok_im [OF D(1)]] by (simp add: max_ino_def)
  ultimately have "\<forall>e \<in> set es'. entry_ok e" using D(5) clean by (simp add: es'_def entry_ok_def i0_def [symmetric])
  moreover have "abs_fs fs bm' = (abs_fs fs bm)(i0 \<mapsto> new_file t (env_now ev), p \<mapsto> ?f)"
    using m(5) by (simp add: written_fs_def)
  ultimately show ?thesis
    using m(1-3,6,7) D(2) by (intro exI [of _ bm'] exI [of _ ?f]) (simp add: dir_at_def)
qed

text \<open>A parent that is not a file at all: the inode is allocated and stays allocated.\<close>

lemma mk_helper_bad_parent:
  assumes ok: "fs_ok fs bm" and p: "0 < p" "\<not> usable fs p" and now: "env_now ev < 2 ^ 64"
    and b: "free_set (block_allocator_of fs) bm \<noteq> {}" and i: "ino_free (inode_manager_of fs) bm \<noteq> {}"
  defines "i0 \<equiv> Suc (Min (ino_free (inode_manager_of fs) bm))"
  shows "\<exists>bm'. mk_helper ev fs p name t bm = Inr (Err INVALID_ARG, bm') \<and> fs_ok fs bm'
    \<and> abs_fs fs bm i0 = None \<and> abs_fs fs bm' = (abs_fs fs bm)(i0 \<mapsto> new_file t (env_now ev))
    \<and> card (free_set (block_allocator_of fs) bm') + 1 = card (free_set (block_allocator_of fs) bm)"
proof -
  from alloc_inode_ok [OF ok b i now, of t "env_heap ev"] obtain bm1 where a:
      "alloc_inode fs t (env_now ev) (env_heap ev) bm = Inr (Ok i0, bm1)" "fs_ok fs bm1"
      "abs_fs fs bm1 = (abs_fs fs bm)(i0 \<mapsto> new_file t (env_now ev))" "abs_fs fs bm i0 = None"
      "card (free_set (block_allocator_of fs) bm1) + 1 = card (free_set (block_allocator_of fs) bm)"
    unfolding i0_def by metis
  have "mk_helper ev fs p name t bm = Inr (Err INVALID_ARG, bm1)"
    using lookup_none [OF ok p(1)] p(2) a(1) read_file_none [OF a(2) p(1)]
    by (simp add: mk_helper_def chain_def)
  then show ?thesis using a by blast
qed

subsection \<open>Names with a colon\<close>

lemma lookup_after_colon:
  assumes d: "dir_at fs bm p f es" and new: "name \<notin> ename ` set es"
    and name: "colon \<in> set name" "slash \<notin> set name"
    and f': "fs_ok fs bm'" "abs_fs fs bm' p = Some f'"
      "fdata f' = bytes_of (append_to_directory (dir_text es) name i)"
  shows "lookup ev fs p name bm' = Inr (Err NotExist, bm')"
proof -
  note D = dir_atD [OF d]
  obtain j where "parse_directory (env_id ev) (append_to_directory (dir_text es) name i)
      = es @ [\<lparr>ename = takeWhile (\<lambda>c. c \<noteq> colon) name, eid = j\<rparr>]"
    using parse_append_colon [OF D(5) name] by blast
  moreover have "name \<noteq> takeWhile (\<lambda>c. c \<noteq> colon) name" using name(1) by (metis set_takeWhileD)
  then have "name \<notin> ename ` set (es @ [\<lparr>ename = takeWhile (\<lambda>c. c \<noteq> colon) name, eid = j\<rparr>])"
    using new by simp
  then have "find_entry name (es @ [\<lparr>ename = takeWhile (\<lambda>c. c \<noteq> colon) name, eid = j\<rparr>]) = Err NotExist"
    by (rule find_entry_None)
  ultimately show ?thesis
    using read_file_ok [OF f'(1) D(2) f'(2)] f'(3)
    by (simp add: lookup_def read_directory_def chain_def)
qed

subsection \<open>unlink\<close>

lemma unlink_missing [chfs_exec]:
  "dir_at fs bm p f es \<Longrightarrow> name \<notin> ename ` set es \<Longrightarrow> unlink ev fs p name bm = Inr (Err NotExist, bm)"
  by (simp add: unlink_def chain_def lookup_ok find_entry_None)

lemma unlink_directory [chfs_exec]:
  assumes d: "dir_at fs bm p f es" and t: "find_entry name es = Ok tid"
    and g: "usable fs tid" "abs_fs fs bm tid = Some g" "ftype g = type_code Directory"
  shows "unlink ev fs p name bm = Inr (Err NotEmpty, bm)"
  using lookup_ok [OF d] t attr_ok(2) [OF dir_atD(1) [OF d] g(1,2)] g(3)
  by (simp add: unlink_def chain_def)

lemma unlink_big_file [chfs_exec]:
  assumes d: "dir_at fs bm p f es" and t: "find_entry name es = Ok tid"
    and g: "usable fs tid" "abs_fs fs bm tid = Some g" "ftype g \<noteq> type_code Directory"
    and big: "ndirect (block_sz bm) * block_sz bm < length (fdata g)"
  shows "unlink ev fs p name bm = Inl OutOfBounds"
  using lookup_ok [OF d] t attr_ok(2) [OF dir_atD(1) [OF d] g(1,2)] g(3)
    remove_file_indirect [OF dir_atD(1) [OF d] g(1,2) big]
  by (simp add: unlink_def chain_def)

lemma blocks_for_mono: "0 < block_sz bm \<Longrightarrow> m \<le> n \<Longrightarrow> blocks_for bm m \<le> blocks_for bm n"
  unfolding blocks_for_def
  by (intro total_blks_mono nblk_bounds(3)) (use nblk_bounds(1) [of "block_sz bm" n] in auto)

lemma unlink_ok [chfs_exec]:
  assumes d: "dir_at fs bm p f es" and t: "find_entry name es = Ok tid" and pt: "p \<noteq> tid"
    and g: "usable fs tid" "abs_fs fs bm tid = Some g" "ftype g \<noteq> type_code Directory"
    and small: "length (fdata g) \<le> ndirect (block_sz bm) * block_sz bm"
    and now: "env_now ev < 2 ^ 64" and short: "length (dir_text es) < 2 ^ 32"
  defines "es' \<equiv> filter (\<lambda>e. ename e \<noteq> name) es"
  shows "\<exists>bm' f'. unlink ev fs p name bm = Inr (Ok (), bm') \<and> dir_at fs bm' p f' es' \<and> ftype f' = ftype f
    \<and> abs_fs fs bm' = (abs_fs fs bm)(tid := None, p \<mapsto> f') \<and> block_sz bm' = block_sz bm
    \<and> card (free_set (block_allocator_of fs) bm) + blocks_for bm (length (fdata g)) + 1
      \<le> card (free_set (block_allocator_of fs) bm')"
proof -
  let ?al = "block_allocator_of fs"
  note D = dir_atD [OF d]
  have ty: "gettype fs tid bm = Inr (Ok (ftype g), bm)" by (rule attr_ok(2) [OF D(1) g(1,2)])
  from remove_file_ok [OF D(1) g(1,2) small] obtain bm1 where r:
      "remove_file fs tid bm = Inr (Ok (), bm1)" "fs_ok fs bm1" "abs_fs fs bm1 = (abs_fs fs bm)(tid := None)"
      "card (free_set ?al bm1) = card (free_set ?al bm) + blocks_for bm (length (fdata g)) + 1"
      "block_sz bm1 = block_sz bm" .
  have f1: "abs_fs fs bm1 p = Some f" using r(3) D(3) pt by simp
  have bs: "0 < block_sz bm" "8 * block_sz bm < 2 ^ 32" using fs_ok_bs [OF D(1)] by simp_all
  have len: "length (fdata f) = length (dir_text es)" using D(4) by simp
  have le: "length (fdata f) \<le> max_size (block_sz bm)" using blocks_of_file(2) [OF D(1,3)] .
  let ?f = "f\<lparr>fattr := stamped (env_now ev) (length (dir_text es')), fdata := bytes_of (dir_text es')\<rparr>"
  have le': "length (dir_text es') \<le> length (fdata f)" by (simp add: len es'_def length_filter_dir_text)
  have "rm_from_directory (env_id ev) (text_of (fdata f)) name = dir_text es'"
    using rm_from_directory_text [OF D(5) short] D(4) by (simp add: es'_def)
  then have run: "unlink ev fs p name bm = write_file fs p (bytes_of (dir_text es')) (env_now ev) bm1"
    using lookup_ok [OF d] t ty g(3) r(1) read_file_ok [OF r(2) D(2) f1] by (simp add: unlink_def chain_def)
  have bf: "blocks_for bm1 n = blocks_for bm n" for n using r(5) by (simp add: blocks_for_def)
  have sz1: "length (bytes_of (dir_text es')) \<le> max_size (block_sz bm1)" using le le' r(5) by simp
  have mono: "blocks_for bm (length (dir_text es')) \<le> blocks_for bm (length (fdata f))"
    using le' bs by (intro blocks_for_mono) simp_all
  have ents: "\<forall>e \<in> set es'. entry_ok e" using D(5) by (simp add: es'_def)
  show ?thesis
  proof (cases rule: write_file_ok [OF r(2) D(2) f1 sz1 now])
    case (1 bm')
    have ab: "abs_fs fs bm' = (abs_fs fs bm)(tid := None, p \<mapsto> ?f)" using 1 r(3) by (simp add: written_fs_def)
    have "card (free_set ?al bm) + blocks_for bm (length (fdata g)) + 1 \<le> card (free_set ?al bm')"
      using 1(4) r(4) mono by (simp add: bf)
    then show ?thesis
      using run 1 ab ents D(2) r(5) by (intro exI [of _ bm'] exI [of _ ?f]) (simp add: dir_at_def)
  next
    case (2 bm')
    have False using 2(4) mono r(4) by (simp add: bf)
    then show ?thesis ..
  qed
qed

end
