(* ===== verification/Fuse_Daemon.thy ===== *)
theory Fuse_Daemon
  imports Directory
begin

text \<open>
  The FUSE daemon (src/daemons/single\_node\_fs/main.cc, consts.h): one definition per handler
  that is hooked into libfuse, \<open>bootstrap_fuse\<close> as far as it makes the file system, and the
  dispatch of requests. A handler runs on the device and ends in the one reply it sends.

  libfuse is not in the repository. What is used of it: \<open>fuse_reply_*\<close>, each a constructor of
  \<open>reply\<close>, and \<open>fuse_add_direntry\<close>, whose record layout is the parameter \<open>libfuse\<close>.
  Of \<open>struct stat\<close> the fields the code sets are kept; the others of a \<open>struct stat\<close> or
  \<open>fuse_entry_param\<close> are either constant (the timeouts, the generation) or never set.
\<close>

subsection \<open>Replies\<close>

record stat =
  st_mode :: nat
  st_nlink :: nat
  st_atime :: "64 word"
  st_mtime :: "64 word"
  st_ctime :: "64 word"
  st_size :: "64 word"

datatype reply =
    Reply_err int
  | Reply_attr stat
  | Reply_buf "byte list"
  | Reply_entry nat stat
  | Reply_open
  | Reply_write nat

definition ENOENT :: int where "ENOENT = 2"
definition EEXIST :: int where "EEXIST = 17"
definition ENOTDIR :: int where "ENOTDIR = 20"
definition ENOSYS :: int where "ENOSYS = 38"
definition ENOTEMPTY :: int where "ENOTEMPTY = 39"

definition S_IFREG :: nat where "S_IFREG = 32768"
definition S_IFDIR :: nat where "S_IFDIR = 16384"

text \<open>\<open>S_IFREG | 0666\<close> and \<open>S_IFDIR | 0777\<close>; the octal constants are 438 and 511.\<close>

definition getattr_helper :: "nat \<Rightarrow> file_attr \<Rightarrow> stat run" where
  "getattr_helper t attr =
     (let st = \<lparr>st_mode = 0, st_nlink = 1, st_atime = word_of_nat (atime attr),
                st_mtime = word_of_nat (mtime attr), st_ctime = word_of_nat (ctime attr),
                st_size = word_of_nat (fsize attr)\<rparr>
      in if t = type_code FILE then Inr (st\<lparr>st_mode := S_IFREG OR 438\<rparr>)
         else if t = type_code Directory
         then Inr (st\<lparr>st_mode := S_IFDIR OR 511, st_nlink := st_nlink st + 1\<rparr>)
         else Inl Unimplemented)"

subsection \<open>Attributes and lookup\<close>

definition chfs_getattr :: "file_operation \<Rightarrow> nat \<Rightarrow> (block_manager, reply) exec" where
  "chfs_getattr fs ino = chain (get_type_attr fs ino) (\<lambda>attr. case attr of
     Err _ \<Rightarrow> give (Reply_err ENOENT)
   | Ok (t, a) \<Rightarrow> chain (lift_run (getattr_helper t a)) (\<lambda>st. give (Reply_attr st)))"

text \<open>The end of \<open>mknod\<close>, \<open>mkdir\<close> and \<open>lookup\<close>: attributes of the entry's inode.\<close>

definition reply_entry :: "file_operation \<Rightarrow> nat \<Rightarrow> (block_manager, reply) exec" where
  "reply_entry fs ino = chain (get_type_attr fs ino) (\<lambda>attr_res. case attr_res of
     Err _ \<Rightarrow> give (Reply_err (-1))
   | Ok (t, a) \<Rightarrow> chain (lift_run (getattr_helper t a)) (\<lambda>st. give (Reply_entry ino st)))"

definition chfs_lookup :: "env \<Rightarrow> file_operation \<Rightarrow> nat \<Rightarrow> string \<Rightarrow> (block_manager, reply) exec" where
  "chfs_lookup ev fs parent name = chain (read_directory ev fs parent) (\<lambda>res. case res of
     Err _ \<Rightarrow> give (Reply_err (-1))
   | Ok es \<Rightarrow> (case find_entry name es of
       Ok ino \<Rightarrow> reply_entry fs ino
     | Err _ \<Rightarrow> give (Reply_err ENOENT)))"

subsection \<open>Listing a directory\<close>

text \<open>
  \<open>fuse_add_direntry\<close>: the length of the record for a name, and its bytes, given the inode and
  the offset of the next record. It writes the record only if the buffer has room for it.
\<close>

record libfuse =
  direntry_size :: "string \<Rightarrow> nat"
  direntry :: "string \<Rightarrow> nat \<Rightarrow> nat \<Rightarrow> byte list"

definition c_str :: "string \<Rightarrow> string" where
  "c_str s = takeWhile (\<lambda>c. c \<noteq> CHR 0x00) s"

definition dirbuf_add :: "libfuse \<Rightarrow> byte list \<Rightarrow> string \<Rightarrow> nat \<Rightarrow> byte list" where
  "dirbuf_add lf buf name ino =
     (let oldsize = length buf;
          p = buf @ replicate (direntry_size lf name) 0;
          newsize = length p;
          rec = direntry lf name ino newsize
      in if direntry_size lf name \<le> newsize - oldsize then store p oldsize (take (newsize - oldsize) rec) else p)"

fun dirbuf_add_all :: "libfuse \<Rightarrow> byte list \<Rightarrow> directory_entry list \<Rightarrow> byte list" where
  "dirbuf_add_all lf buf [] = buf"
| "dirbuf_add_all lf buf (e # es) = dirbuf_add_all lf (dirbuf_add lf buf (c_str (ename e)) (eid e)) es"

definition reply_buf_limited :: "byte list \<Rightarrow> 64 word \<Rightarrow> 64 word \<Rightarrow> reply" where
  "reply_buf_limited buf off maxsize =
     (if unat off < length buf then Reply_buf (take (min (length buf - unat off) (unat maxsize)) (drop (unat off) buf))
      else Reply_buf [])"

definition chfs_readdir ::
    "libfuse \<Rightarrow> env \<Rightarrow> file_operation \<Rightarrow> nat \<Rightarrow> 64 word \<Rightarrow> 64 word \<Rightarrow> (block_manager, reply) exec" where
  "chfs_readdir lf ev fs ino sz off =
     chain (gettype fs ino) (\<lambda>t_res.
     chain (lift_run (unwrap t_res)) (\<lambda>t.
     if t \<noteq> type_code Directory then give (Reply_err ENOTDIR)
     else chain (read_directory ev fs ino) (\<lambda>res. case res of
            Err _ \<Rightarrow> give (Reply_err (-1))
          | Ok es \<Rightarrow> give (reply_buf_limited (dirbuf_add_all lf [] es) off sz))))"

subsection \<open>Reading and writing\<close>

text \<open>
  \<open>off\<close> and \<open>st_size\<close> are signed 64-bit numbers. The reply copies \<open>read_size\<close> bytes from the
  vector that \<open>read_file_w_off\<close> returned.
\<close>

definition chfs_read :: "file_operation \<Rightarrow> nat \<Rightarrow> 64 word \<Rightarrow> 64 word \<Rightarrow> (block_manager, reply) exec" where
  "chfs_read fs ino sz off = chain (get_type_attr fs ino) (\<lambda>attr_res. case attr_res of
     Err _ \<Rightarrow> give (Reply_err (-1))
   | Ok (t, a) \<Rightarrow> chain (lift_run (getattr_helper t a)) (\<lambda>st.
       if sint (st_size st) \<le> sint off then give (Reply_buf [])
       else let read_size = (if sint (st_size st) < sint (off + sz) then st_size st - off else sz)
            in chain (read_file_w_off fs ino (unat read_size) (unat off)) (\<lambda>res. case res of
                 Err _ \<Rightarrow> give (Reply_err (-1))
               | Ok d \<Rightarrow> chain (lift_run (load_checked d 0 (unat read_size))) (\<lambda>out. give (Reply_buf out)))))"

definition chfs_write ::
    "env \<Rightarrow> file_operation \<Rightarrow> nat \<Rightarrow> byte list \<Rightarrow> 64 word \<Rightarrow> 64 word \<Rightarrow> (block_manager, reply) exec" where
  "chfs_write ev fs ino buf sz off =
     chain (write_file_w_off fs ino buf (unat sz) (unat off) (env_now ev)) (\<lambda>res. case res of
       Err e \<Rightarrow> (if e = OUT_OF_RESOURCE
                 then chain (get_free_blocks_num fs) (\<lambda>n. chain (lift_run (unwrap n)) (\<lambda>_. give (Reply_err ENOSYS)))
                 else crash_with Unimplemented)
     | Ok n \<Rightarrow> give (Reply_write n))"

text \<open>\<open>to_set\<close> is not looked at: every request resizes.\<close>

definition chfs_setattr :: "env \<Rightarrow> file_operation \<Rightarrow> nat \<Rightarrow> 64 word \<Rightarrow> int \<Rightarrow> (block_manager, reply) exec" where
  "chfs_setattr ev fs ino sz to_set =
     chain (resize_file fs ino (unat sz) (env_now ev)) (\<lambda>res. case res of
       Err _ \<Rightarrow> give (Reply_err ENOSYS)
     | Ok _ \<Rightarrow> chain (get_type_attr fs ino) (\<lambda>attr_res. case attr_res of
           Err _ \<Rightarrow> give (Reply_err (-1))
         | Ok (t, a) \<Rightarrow> chain (lift_run (getattr_helper t a)) (\<lambda>st. give (Reply_attr st))))"

definition chfs_open :: "file_operation \<Rightarrow> nat \<Rightarrow> (block_manager, reply) exec" where
  "chfs_open fs ino = give Reply_open"

subsection \<open>Creating and removing\<close>

definition chfs_mknod :: "env \<Rightarrow> file_operation \<Rightarrow> nat \<Rightarrow> string \<Rightarrow> (block_manager, reply) exec" where
  "chfs_mknod ev fs parent name = chain (mkfile ev fs parent name) (\<lambda>res. case res of
     Ok ino \<Rightarrow> reply_entry fs ino
   | Err e \<Rightarrow> if e = AlreadyExist then give (Reply_err EEXIST) else give (Reply_err ENOENT))"

definition chfs_mkdir :: "env \<Rightarrow> file_operation \<Rightarrow> nat \<Rightarrow> string \<Rightarrow> (block_manager, reply) exec" where
  "chfs_mkdir ev fs parent name = chain (mkdir_op ev fs parent name) (\<lambda>res. case res of
     Err e \<Rightarrow> give (Reply_err (if e = AlreadyExist then EEXIST else ENOSYS))
   | Ok ino \<Rightarrow> reply_entry fs ino)"

definition chfs_unlink :: "env \<Rightarrow> file_operation \<Rightarrow> nat \<Rightarrow> string \<Rightarrow> (block_manager, reply) exec" where
  "chfs_unlink ev fs parent name = chain (unlink ev fs parent name) (\<lambda>res. case res of
     Err e \<Rightarrow> give (Reply_err (case e of NotExist \<Rightarrow> ENOENT | NotEmpty \<Rightarrow> ENOTEMPTY | _ \<Rightarrow> ENOSYS))
   | Ok _ \<Rightarrow> give (Reply_err 0))"

text \<open>The handlers that stop the daemon.\<close>

definition chfs_readlink :: "nat \<Rightarrow> (block_manager, reply) exec" where
  "chfs_readlink ino = crash_with Unimplemented"

definition chfs_rmdir :: "nat \<Rightarrow> string \<Rightarrow> (block_manager, reply) exec" where
  "chfs_rmdir parent name = crash_with Unimplemented"

definition chfs_symlink :: "string \<Rightarrow> nat \<Rightarrow> string \<Rightarrow> (block_manager, reply) exec" where
  "chfs_symlink link parent name = crash_with Unimplemented"

definition chfs_rename :: "nat \<Rightarrow> string \<Rightarrow> nat \<Rightarrow> string \<Rightarrow> (block_manager, reply) exec" where
  "chfs_rename parent name newparent newname = crash_with Unimplemented"

definition chfs_link :: "nat \<Rightarrow> nat \<Rightarrow> string \<Rightarrow> (block_manager, reply) exec" where
  "chfs_link ino newparent newname = crash_with Unimplemented"

definition chfs_statfs :: "nat \<Rightarrow> (block_manager, reply) exec" where
  "chfs_statfs ino = crash_with Unimplemented"

text \<open>Handlers that exist but are not in the table of \<open>main\<close>, so that libfuse answers for them.\<close>

definition chfs_flush :: "nat \<Rightarrow> (block_manager, reply) exec" where
  "chfs_flush ino = crash_with Unimplemented"

definition chfs_release :: "nat \<Rightarrow> (block_manager, reply) exec" where
  "chfs_release ino = crash_with Unimplemented"

definition chfs_fsync :: "nat \<Rightarrow> int \<Rightarrow> (block_manager, reply) exec" where
  "chfs_fsync ino datasync = crash_with Unimplemented"

definition chfs_opendir :: "nat \<Rightarrow> (block_manager, reply) exec" where
  "chfs_opendir ino = crash_with Unimplemented"

definition chfs_releasedir :: "nat \<Rightarrow> (block_manager, reply) exec" where
  "chfs_releasedir ino = crash_with Unimplemented"

definition chfs_fsyncdir :: "nat \<Rightarrow> int \<Rightarrow> (block_manager, reply) exec" where
  "chfs_fsyncdir ino datasync = crash_with Unimplemented"

subsection \<open>Start-up and dispatch\<close>

definition kDiskSize :: nat where "kDiskSize = 1024 * 1024 * 16"
definition KBlockSize :: nat where "KBlockSize = 1024"
definition KMaxInodeNum :: nat where "KMaxInodeNum = 1024"

text \<open>
  The part of \<open>bootstrap_fuse\<close> that makes the file system, with the sizes as parameters. An
  error of \<open>alloc_inode\<close> ends the process with \<open>exit(1)\<close>, \<open>None\<close> here.
\<close>

definition make_root :: "nat \<Rightarrow> env \<Rightarrow> (block_manager, file_operation option) exec" where
  "make_root max_inode ev = chain (new_file_operation max_inode (heap_part ev 1)) (\<lambda>fs.
     chain (alloc_inode fs Directory (env_now ev) (heap_part ev 2)) (\<lambda>res.
     if is_err res then give None
     else chain (lift_run (unwrap res)) (\<lambda>ino.
          if ino = 1 then give (Some fs) else crash_with AssertFailed)))"

definition bootstrap_fuse :: "env \<Rightarrow> (file_operation option \<times> block_manager) run" where
  "bootstrap_fuse ev =
     andthen (new_memory_manager (kDiskSize div KBlockSize) KBlockSize (heap_part ev 0)) (make_root KMaxInodeNum ev)"

datatype request =
    Getattr nat
  | Lookup nat string
  | Readdir nat "64 word" "64 word"
  | Read nat "64 word" "64 word"
  | Write nat "byte list" "64 word" "64 word"
  | Setattr nat "64 word" int
  | Open nat
  | Mknod nat string
  | Mkdir nat string
  | Unlink nat string
  | Readlink nat
  | Rmdir nat string
  | Symlink string nat string
  | Rename nat string nat string
  | Link nat nat string
  | Statfs nat

text \<open>The table of handlers that \<open>main\<close> fills in.\<close>

fun handle :: "libfuse \<Rightarrow> env \<Rightarrow> file_operation \<Rightarrow> request \<Rightarrow> (block_manager, reply) exec" where
  "handle lf ev fs (Getattr ino) = chfs_getattr fs ino"
| "handle lf ev fs (Lookup parent name) = chfs_lookup ev fs parent name"
| "handle lf ev fs (Readdir ino sz off) = chfs_readdir lf ev fs ino sz off"
| "handle lf ev fs (Read ino sz off) = chfs_read fs ino sz off"
| "handle lf ev fs (Write ino buf sz off) = chfs_write ev fs ino buf sz off"
| "handle lf ev fs (Setattr ino sz to_set) = chfs_setattr ev fs ino sz to_set"
| "handle lf ev fs (Open ino) = chfs_open fs ino"
| "handle lf ev fs (Mknod parent name) = chfs_mknod ev fs parent name"
| "handle lf ev fs (Mkdir parent name) = chfs_mkdir ev fs parent name"
| "handle lf ev fs (Unlink parent name) = chfs_unlink ev fs parent name"
| "handle lf ev fs (Readlink ino) = chfs_readlink ino"
| "handle lf ev fs (Rmdir parent name) = chfs_rmdir parent name"
| "handle lf ev fs (Symlink link parent name) = chfs_symlink link parent name"
| "handle lf ev fs (Rename p1 n1 p2 n2) = chfs_rename p1 n1 p2 n2"
| "handle lf ev fs (Link ino parent name) = chfs_link ino parent name"
| "handle lf ev fs (Statfs ino) = chfs_statfs ino"

end
