(* ===== verification/Daemon_Replies.thy ===== *)
theory Daemon_Replies
  imports Fuse_Daemon
begin

text \<open>
  What the handlers reply, in terms of the abstract file system. \<open>node_ok\<close> says a file has one
  of the two types the code knows and, if it is a directory, that its bytes are the text of a
  list of entries; \<open>daemon_ok\<close> is the state the daemon works in.
\<close>

subsection \<open>The state of the daemon\<close>

definition entries_of :: "fnode \<Rightarrow> directory_entry list" where
  "entries_of f = parse_directory 0 (text_of (fdata f))"

definition node_ok :: "fnode \<Rightarrow> bool" where
  "node_ok f \<longleftrightarrow> ftype f = type_code FILE \<or> ftype f = type_code Directory
     \<and> fdata f = bytes_of (dir_text (entries_of f)) \<and> (\<forall>e \<in> set (entries_of f). entry_ok e \<and> 0 < eid e)"

definition tree_ok :: "(nat \<Rightarrow> fnode option) \<Rightarrow> bool" where
  "tree_ok A \<longleftrightarrow> (\<forall>p f. A p = Some f \<longrightarrow> node_ok f)"

definition daemon_ok :: "file_operation \<Rightarrow> block_manager \<Rightarrow> bool" where
  "daemon_ok fs bm \<longleftrightarrow> fs_ok fs bm \<and> max_size (block_sz bm) < 2 ^ 32 \<and> tree_ok (abs_fs fs bm)"

lemma daemon_okD:
  assumes "daemon_ok fs bm"
  shows "fs_ok fs bm" and "max_size (block_sz bm) < 2 ^ 32" and "tree_ok (abs_fs fs bm)"
    and "abs_fs fs bm p = Some f \<Longrightarrow> node_ok f"
  using assms by (auto simp: daemon_ok_def tree_ok_def)

lemma tree_ok_upd: "tree_ok A \<Longrightarrow> node_ok f \<Longrightarrow> tree_ok (A(p \<mapsto> f))"
  by (simp add: tree_ok_def)

lemma tree_ok_del: "tree_ok A \<Longrightarrow> tree_ok (A(p := None))"
  by (simp add: tree_ok_def)

lemma node_ok_file: "ftype f = type_code FILE \<Longrightarrow> node_ok f"
  by (simp add: node_ok_def)

lemma node_ok_dir:
  assumes "ftype f = type_code Directory" and "fdata f = bytes_of (dir_text es)"
    and "\<forall>e \<in> set es. entry_ok e \<and> 0 < eid e"
  shows "node_ok f" and "entries_of f = es"
proof -
  show "entries_of f = es" using assms by (simp add: entries_of_def parse_directory_text)
  then show "node_ok f" using assms by (simp add: node_ok_def)
qed

lemma node_ok_new: "t \<noteq> Unknown \<Longrightarrow> node_ok (new_file t now)"
  by (cases t) (simp_all add: node_ok_def new_file_def entries_of_def parse_directory_def bytes_of_def text_of_def)

text \<open>A directory of the daemon's state is one of theory Directory.\<close>

lemma daemon_dir:
  assumes "daemon_ok fs bm" and "usable fs p" and "abs_fs fs bm p = Some f" and "ftype f = type_code Directory"
  shows "dir_at fs bm p f (entries_of f)" and "\<forall>e \<in> set (entries_of f). entry_ok e \<and> 0 < eid e"
    and "length (dir_text (entries_of f)) < 2 ^ 32"
proof -
  have n: "fdata f = bytes_of (dir_text (entries_of f))" "\<forall>e \<in> set (entries_of f). entry_ok e \<and> 0 < eid e"
    using daemon_okD(4) [OF assms(1,3)] assms(4) by (auto simp: node_ok_def)
  then show "dir_at fs bm p f (entries_of f)" "\<forall>e \<in> set (entries_of f). entry_ok e \<and> 0 < eid e"
    using assms daemon_okD(1) [OF assms(1)] by (simp_all add: dir_at_def)
  have "length (fdata f) = length (dir_text (entries_of f))" using n(1) by (metis length_bytes_of)
  then show "length (dir_text (entries_of f)) < 2 ^ 32"
    using blocks_of_file(2) [OF daemon_okD(1) [OF assms(1)] assms(3)] daemon_okD(2) [OF assms(1)] by simp
qed

subsection \<open>Attributes\<close>

definition stat_of :: "fnode \<Rightarrow> stat" where
  "stat_of f = \<lparr>st_mode = (if ftype f = type_code FILE then S_IFREG OR 438 else S_IFDIR OR 511),
     st_nlink = (if ftype f = type_code FILE then 1 else 2), st_atime = word_of_nat (atime (fattr f)),
     st_mtime = word_of_nat (mtime (fattr f)), st_ctime = word_of_nat (ctime (fattr f)),
     st_size = word_of_nat (fsize (fattr f))\<rparr>"

lemma getattr_helper_ok [chfs_exec]: "node_ok f \<Longrightarrow> getattr_helper (ftype f) (fattr f) = Inr (stat_of f)"
  by (auto simp: node_ok_def getattr_helper_def stat_of_def Let_def)

text \<open>What \<open>get_type_attr\<close> and \<open>read_file\<close> find under an id.\<close>

definition visible :: "file_operation \<Rightarrow> block_manager \<Rightarrow> nat \<Rightarrow> fnode option" where
  "visible fs bm ino = (if usable fs ino then abs_fs fs bm ino else None)"

lemma visible_Some: "visible fs bm ino = Some f \<longleftrightarrow> usable fs ino \<and> abs_fs fs bm ino = Some f"
  by (simp add: visible_def)

lemma visible_None: "visible fs bm ino = None \<longleftrightarrow> abs_fs fs bm ino = None \<or> \<not> usable fs ino"
  by (auto simp: visible_def)

lemma attrs_visible:
  assumes "fs_ok fs bm" and "0 < ino"
  shows "get_type_attr fs ino bm = Inr (case visible fs bm ino of None \<Rightarrow> Err INVALID_ARG | Some f \<Rightarrow> Ok (ftype f, fattr f), bm)"
    and "gettype fs ino bm = Inr (case visible fs bm ino of None \<Rightarrow> Err INVALID_ARG | Some f \<Rightarrow> Ok (ftype f), bm)"
    and "read_file fs ino bm = Inr (case visible fs bm ino of None \<Rightarrow> Err INVALID_ARG | Some f \<Rightarrow> Ok (fdata f), bm)"
proof -
  have "visible fs bm ino = None \<Longrightarrow> abs_fs fs bm ino = None \<or> \<not> usable fs ino" by (simp add: visible_None)
  then show "get_type_attr fs ino bm = Inr (case visible fs bm ino of None \<Rightarrow> Err INVALID_ARG | Some f \<Rightarrow> Ok (ftype f, fattr f), bm)"
    "gettype fs ino bm = Inr (case visible fs bm ino of None \<Rightarrow> Err INVALID_ARG | Some f \<Rightarrow> Ok (ftype f), bm)"
    "read_file fs ino bm = Inr (case visible fs bm ino of None \<Rightarrow> Err INVALID_ARG | Some f \<Rightarrow> Ok (fdata f), bm)"
    using assms
    by (auto split: option.split simp: attr_none read_file_none visible_Some attr_ok read_file_ok)
qed

lemma visible_node_ok: "daemon_ok fs bm \<Longrightarrow> visible fs bm ino = Some f \<Longrightarrow> node_ok f"
  by (auto simp: visible_Some intro: daemon_okD(4))

lemma getattr_visible:
  assumes "fs_ok fs bm" and "0 < ino"
  shows "getattr fs ino bm = Inr (case visible fs bm ino of None \<Rightarrow> Err INVALID_ARG | Some f \<Rightarrow> Ok (fattr f), bm)"
proof -
  have "visible fs bm ino = None \<Longrightarrow> abs_fs fs bm ino = None \<or> \<not> usable fs ino" by (simp add: visible_None)
  then show ?thesis using assms by (auto split: option.split simp: attr_none(1) visible_Some attr_ok(1))
qed

text \<open>\<open>write_file\<close> in one statement.\<close>

lemma write_outcome:
  assumes ok: "fs_ok fs bm" and f: "visible fs bm ino = Some f" and now: "now < 2 ^ 64"
  shows "\<exists>r bm'. write_file fs ino content now bm = Inr (r, bm') \<and> fs_ok fs bm' \<and> block_sz bm' = block_sz bm
    \<and> (if length content \<le> max_size (block_sz bm)
         \<and> blocks_for bm (length content) \<le> card (free_set (block_allocator_of fs) bm) + blocks_for bm (length (fdata f))
       then r = Ok () \<and> abs_fs fs bm' = (abs_fs fs bm)(ino \<mapsto> f\<lparr>fattr := stamped now (length content), fdata := content\<rparr>)
         \<and> card (free_set (block_allocator_of fs) bm') + blocks_for bm (length content)
           = card (free_set (block_allocator_of fs) bm) + blocks_for bm (length (fdata f))
       else r = Err OUT_OF_RESOURCE \<and> abs_fs fs bm' = abs_fs fs bm
         \<and> free_set (block_allocator_of fs) bm'
           = (if length content \<le> max_size (block_sz bm) then {} else free_set (block_allocator_of fs) bm))"
proof -
  have v: "usable fs ino" "abs_fs fs bm ino = Some f" using f by (simp_all add: visible_Some)
  show ?thesis
  proof (cases "length content \<le> max_size (block_sz bm)")
    case False
    then show ?thesis using write_file_too_large [OF ok v, of content now] ok by simp
  next
    case True
    show ?thesis
    proof (cases rule: write_file_ok [OF ok v True now])
      case (1 bm')
      have "blocks_for bm (length content) \<le> card (free_set (block_allocator_of fs) bm) + blocks_for bm (length (fdata f))"
        using 1(4) by linarith
      then show ?thesis using 1 True by (simp add: written_fs_def)
    next
      case (2 bm')
      then show ?thesis using True by simp
    qed
  qed
qed

text \<open>\<open>resize\<close> in one statement.\<close>

lemma resize_outcome:
  assumes ok: "fs_ok fs bm" and f: "visible fs bm ino = Some f" and now: "now < 2 ^ 64"
  shows "if length (fdata f) = sz then resize_file fs ino sz now bm = Inr (Ok (fattr f), bm)
    else \<exists>r bm'. resize_file fs ino sz now bm = Inr (r, bm') \<and> fs_ok fs bm'
      \<and> (if sz \<le> max_size (block_sz bm)
           \<and> blocks_for bm sz \<le> card (free_set (block_allocator_of fs) bm) + blocks_for bm (length (fdata f))
         then r = Ok (fattr f\<lparr>fsize := sz\<rparr>)
           \<and> abs_fs fs bm' = (abs_fs fs bm)(ino \<mapsto> f\<lparr>fattr := stamped now sz,
                 fdata := take sz (fdata f) @ replicate (sz - length (fdata f)) 0\<rparr>)
         else r = Err OUT_OF_RESOURCE \<and> abs_fs fs bm' = abs_fs fs bm)"
proof -
  have v: "usable fs ino" "abs_fs fs bm ino = Some f" using f by (simp_all add: visible_Some)
  note eq = resize_file_eq [OF ok v, of sz now]
  show ?thesis
  proof (cases "length (fdata f) = sz")
    case False
    let ?c = "take sz (fdata f) @ replicate (sz - length (fdata f)) 0"
    have c: "resize_to sz (fdata f) = ?c" "length ?c = sz" by (simp_all add: resize_to_def)
    from write_outcome [OF ok f now, of ?c] obtain r bm' where w: "write_file fs ino ?c now bm = Inr (r, bm')" "fs_ok fs bm'"
      "if sz \<le> max_size (block_sz bm)
           \<and> blocks_for bm sz \<le> card (free_set (block_allocator_of fs) bm) + blocks_for bm (length (fdata f))
         then r = Ok () \<and> abs_fs fs bm' = (abs_fs fs bm)(ino \<mapsto> f\<lparr>fattr := stamped now sz, fdata := ?c\<rparr>)
         else r = Err OUT_OF_RESOURCE \<and> abs_fs fs bm' = abs_fs fs bm"
      unfolding c(2) by (auto split: if_splits)
    let ?r = "case r of Ok _ \<Rightarrow> Ok (fattr f\<lparr>fsize := sz\<rparr>) | Err e \<Rightarrow> Err e"
    have "resize_file fs ino sz now bm = Inr (?r, bm')"
      using eq False w(1) unfolding c(1) by (cases r) (simp_all add: chain_def)
    then show ?thesis using False w(2,3) by (cases r) (auto split: if_splits)
  qed (simp add: eq)
qed

lemma chfs_getattr_ok [chfs_exec]:
  assumes "daemon_ok fs bm" and "0 < ino"
  shows "chfs_getattr fs ino bm = Inr (case visible fs bm ino of None \<Rightarrow> Reply_err ENOENT | Some f \<Rightarrow> Reply_attr (stat_of f), bm)"
  using attrs_visible(1) [OF daemon_okD(1) [OF assms(1)] assms(2)] visible_node_ok [OF assms(1), of ino]
  by (cases "visible fs bm ino") (simp_all add: chfs_getattr_def chain_def getattr_helper_ok)

lemma reply_entry_ok [chfs_exec]:
  assumes "daemon_ok fs bm" and "0 < ino"
  shows "reply_entry fs ino bm = Inr (case visible fs bm ino of None \<Rightarrow> Reply_err (-1) | Some f \<Rightarrow> Reply_entry ino (stat_of f), bm)"
  using attrs_visible(1) [OF daemon_okD(1) [OF assms(1)] assms(2)] visible_node_ok [OF assms(1), of ino]
  by (cases "visible fs bm ino") (simp_all add: reply_entry_def chain_def getattr_helper_ok)

subsection \<open>Lookup and listing\<close>

definition dir_entries :: "file_operation \<Rightarrow> block_manager \<Rightarrow> nat \<Rightarrow> directory_entry list option" where
  "dir_entries fs bm p = map_option entries_of (visible fs bm p)"

text \<open>\<open>p\<close> is a directory, if it is anything.\<close>

definition dir_id :: "(nat \<Rightarrow> fnode option) \<Rightarrow> nat \<Rightarrow> bool" where
  "dir_id A p \<longleftrightarrow> 0 < p \<and> (case A p of None \<Rightarrow> True | Some f \<Rightarrow> ftype f = type_code Directory)"

definition file_id :: "(nat \<Rightarrow> fnode option) \<Rightarrow> nat \<Rightarrow> bool" where
  "file_id A p \<longleftrightarrow> 0 < p \<and> (case A p of None \<Rightarrow> True | Some f \<Rightarrow> ftype f = type_code FILE)"

lemma visible_dir:
  assumes "daemon_ok fs bm" and "dir_id (abs_fs fs bm) p" and "visible fs bm p = Some f"
  shows "dir_at fs bm p f (entries_of f)" and "\<forall>e \<in> set (entries_of f). entry_ok e \<and> 0 < eid e"
    and "length (dir_text (entries_of f)) < 2 ^ 32" and "ftype f = type_code Directory"
proof -
  have v: "usable fs p" "abs_fs fs bm p = Some f" using assms(3) by (simp_all add: visible_Some)
  show t: "ftype f = type_code Directory" using assms(2) v(2) by (simp add: dir_id_def)
  show "dir_at fs bm p f (entries_of f)" "\<forall>e \<in> set (entries_of f). entry_ok e \<and> 0 < eid e"
    "length (dir_text (entries_of f)) < 2 ^ 32"
    using daemon_dir [OF assms(1) v t] by simp_all
qed

lemma dir_id_pos: "dir_id A p \<Longrightarrow> 0 < p"
  by (simp add: dir_id_def)

lemma file_id_pos: "file_id A p \<Longrightarrow> 0 < p"
  by (simp add: file_id_def)

lemma read_directory_visible:
  assumes ok: "daemon_ok fs bm" and p: "dir_id (abs_fs fs bm) p"
  shows "read_directory ev fs p bm = Inr (case dir_entries fs bm p of None \<Rightarrow> Err INVALID_ARG | Some es \<Rightarrow> Ok es, bm)"
proof (cases "visible fs bm p")
  case None
  then have "abs_fs fs bm p = None \<or> \<not> usable fs p" by (simp add: visible_None)
  then show ?thesis using read_directory_none [OF daemon_okD(1) [OF ok] dir_id_pos [OF p]] None
    by (simp add: dir_entries_def)
next
  case (Some f)
  then show ?thesis using read_directory_ok [OF visible_dir(1) [OF ok p Some]] by (simp add: dir_entries_def)
qed

lemma find_entry_pos:
  "find_entry name es = Ok i \<Longrightarrow> \<forall>e \<in> set es. P (eid e) \<Longrightarrow> P i"
  by (induction es) (auto split: if_splits)

lemma chfs_lookup_ok [chfs_exec]:
  assumes ok: "daemon_ok fs bm" and p: "dir_id (abs_fs fs bm) p"
  shows "chfs_lookup ev fs p name bm = Inr (case dir_entries fs bm p of
      None \<Rightarrow> Reply_err (-1)
    | Some es \<Rightarrow> (case find_entry name es of
        Err _ \<Rightarrow> Reply_err ENOENT
      | Ok i \<Rightarrow> (case visible fs bm i of None \<Rightarrow> Reply_err (-1) | Some f \<Rightarrow> Reply_entry i (stat_of f))), bm)"
proof (cases "visible fs bm p")
  case None
  then show ?thesis using read_directory_visible [OF ok p] by (simp add: chfs_lookup_def chain_def dir_entries_def)
next
  case (Some f)
  show ?thesis
  proof (cases "find_entry name (entries_of f)")
    case (Ok i)
    then have "0 < i" using find_entry_pos [of name "entries_of f" i "\<lambda>i. 0 < i"] visible_dir(2) [OF ok p Some] by blast
    then show ?thesis
      using read_directory_visible [OF ok p] Some Ok reply_entry_ok [OF ok]
      by (simp add: chfs_lookup_def chain_def dir_entries_def)
  next
    case (Err e)
    then show ?thesis using read_directory_visible [OF ok p] Some
      by (simp add: chfs_lookup_def chain_def dir_entries_def)
  qed
qed

text \<open>
  A listing is the concatenation of the records libfuse makes, if \<open>direntry_size\<close> is the length
  of the record it announces.
\<close>

definition sizes_agree :: "libfuse \<Rightarrow> bool" where
  "sizes_agree lf \<longleftrightarrow> (\<forall>name ino off. length (direntry lf name ino off) = direntry_size lf name)"

fun records :: "libfuse \<Rightarrow> nat \<Rightarrow> directory_entry list \<Rightarrow> byte list" where
  "records lf pos [] = []"
| "records lf pos (e # es) = (let r = direntry lf (c_str (ename e)) (eid e) (pos + direntry_size lf (c_str (ename e)))
                              in r @ records lf (pos + length r) es)"

lemma dirbuf_add_eq:
  assumes "sizes_agree lf"
  shows "dirbuf_add lf buf name ino = buf @ direntry lf name ino (length buf + direntry_size lf name)"
proof -
  have "length (direntry lf name ino off) = direntry_size lf name" for off
    using assms by (simp add: sizes_agree_def)
  then show ?thesis by (simp add: dirbuf_add_def Let_def store_def)
qed

lemma dirbuf_add_all_eq:
  "sizes_agree lf \<Longrightarrow> dirbuf_add_all lf buf es = buf @ records lf (length buf) es"
  by (induction es arbitrary: buf) (simp_all add: dirbuf_add_eq Let_def sizes_agree_def)

lemma chfs_readdir_ok [chfs_exec]:
  assumes ok: "daemon_ok fs bm" and p: "0 < p"
  shows "chfs_readdir lf ev fs p sz off bm = (case visible fs bm p of
      None \<Rightarrow> Inl UncaughtThrow
    | Some f \<Rightarrow> Inr (if ftype f = type_code Directory
        then reply_buf_limited (dirbuf_add_all lf [] (entries_of f)) off sz else Reply_err ENOTDIR, bm))"
proof (cases "visible fs bm p")
  case None
  then show ?thesis using attrs_visible(2) [OF daemon_okD(1) [OF ok] p] by (simp add: chfs_readdir_def chain_def)
next
  case (Some f)
  have v: "usable fs p" "abs_fs fs bm p = Some f" using Some by (simp_all add: visible_Some)
  have t: "gettype fs p bm = Inr (Ok (ftype f), bm)" using attr_ok(2) [OF daemon_okD(1) [OF ok] v] .
  show ?thesis
  proof (cases "ftype f = type_code Directory")
    case True
    then show ?thesis using read_directory_ok [OF daemon_dir(1) [OF ok v]] t Some
      by (simp add: chfs_readdir_def chain_def)
  next
    case False
    then show ?thesis using t Some by (simp add: chfs_readdir_def chain_def)
  qed
qed

subsection \<open>Reading\<close>

lemma sint_small:
  assumes "unat (w :: 64 word) < 2 ^ 63"
  shows "sint w = int (unat w)"
proof -
  have "int (unat w) < int (2 ^ 63)" using assms by (simp only: of_nat_less_iff)
  then have u: "uint w < 2 ^ 63" by simp
  have "- (2 ^ 63) \<le> uint w" by (rule order_trans [of _ 0]) simp_all
  with u have "signed_take_bit 63 (uint w) = uint w" by (intro signed_take_bit_int_eq_self)
  then show ?thesis by (simp add: sint_uint)
qed

lemma chfs_read_ok [chfs_exec]:
  assumes ok: "daemon_ok fs bm" and p: "0 < ino" and off: "unat off + unat sz < 2 ^ 63"
  shows "chfs_read fs ino sz off bm = Inr (case visible fs bm ino of
      None \<Rightarrow> Reply_err (-1)
    | Some f \<Rightarrow> Reply_buf (take (unat sz) (drop (unat off) (fdata f))), bm)"
proof (cases "visible fs bm ino")
  case None
  then show ?thesis using attrs_visible(1) [OF daemon_okD(1) [OF ok] p] by (simp add: chfs_read_def chain_def)
next
  case (Some f)
  have v: "usable fs ino" "abs_fs fs bm ino = Some f" using Some by (simp_all add: visible_Some)
  have ta: "get_type_attr fs ino bm = Inr (Ok (ftype f, fattr f), bm)"
    using attr_ok(3) [OF daemon_okD(1) [OF ok] v] .
  have h: "getattr_helper (ftype f) (fattr f) = Inr (stat_of f)"
    using getattr_helper_ok [OF visible_node_ok [OF ok Some]] .
  let ?n = "length (fdata f)" and ?s = "st_size (stat_of f)"
  have n32: "?n < 2 ^ 32"
    using blocks_of_file(2) [OF daemon_okD(1) [OF ok] v(2)] daemon_okD(2) [OF ok] by linarith
  have fs: "fsize (fattr f) = ?n" using blocks_of_file(3) [OF daemon_okD(1) [OF ok] v(2)] .
  then have us: "unat ?s = ?n" using n32 by (simp add: stat_of_def unat_of_nat)
  have sum: "unat (off + sz) = unat off + unat sz"
    using off by (intro unat_add_lem [THEN iffD1]) simp
  have si: "sint ?s = int ?n" "sint off = int (unat off)" "sint (off + sz) = int (unat off + unat sz)"
    using sint_small [of ?s] sint_small [of off] sint_small [of "off + sz"] us n32 off sum by simp_all
  have cmp: "sint ?s \<le> sint off \<longleftrightarrow> ?n \<le> unat off" "sint ?s < sint (off + sz) \<longleftrightarrow> ?n < unat off + unat sz"
    unfolding si of_nat_le_iff of_nat_less_iff by (rule refl)+
  note rd = read_file_w_off_ok [OF daemon_okD(1) [OF ok] v]
  show ?thesis
  proof (cases "?n \<le> unat off")
    case True
    then show ?thesis using ta h cmp Some by (simp add: chfs_read_def chain_def)
  next
    case False
    define r where "r = (if ?n < unat off + unat sz then ?s - off else sz)"
    have r: "unat r = min (unat sz) (?n - unat off)"
    proof (cases "?n < unat off + unat sz")
      case True
      have "off \<le> ?s" using False us by (simp add: word_le_nat_alt)
      then have "unat (?s - off) = ?n - unat off" using us by (simp add: unat_sub)
      then show ?thesis using True by (simp add: r_def)
    next
      case False
      then show ?thesis by (simp add: r_def)
    qed
    have "unat off + unat r \<le> ?n" using r False by simp
    then have d: "read_file_w_off fs ino (unat r) (unat off) bm = Inr (Ok (take (unat r) (drop (unat off) (fdata f))), bm)"
      using rd [of "unat r" "unat off"] by simp
    have "load_checked (take (unat r) (drop (unat off) (fdata f))) 0 (unat r)
        = Inr (take (unat r) (drop (unat off) (fdata f)))"
      using \<open>unat off + unat r \<le> ?n\<close> by (simp add: load_checked_def load_def)
    then have "chfs_read fs ino sz off bm = Inr (Reply_buf (take (unat r) (drop (unat off) (fdata f))), bm)"
      using ta h cmp False d by (simp add: chfs_read_def chain_def Let_def r_def [symmetric])
    moreover have "take (unat r) (drop (unat off) (fdata f)) = take (unat sz) (drop (unat off) (fdata f))"
      using r by (simp add: min_def)
    ultimately show ?thesis using Some by simp
  qed
qed

end
