(* ===== verification/Daemon_Steps.thy ===== *)
theory Daemon_Steps
  imports Daemon_Replies
begin

text \<open>
  The daemon as a state machine. \<open>daemon_step\<close> serves one request or stops; \<open>reachable\<close> starts
  at the file system that \<open>make_root\<close> leaves. \<open>request_ok\<close> is what the kernel guarantees of a
  request: ids are not 0, offsets are not negative, the parent of a name is a directory, data is
  written to regular files only, and so are sizes (a change of other attributes, of a directory
  too, comes with size 0); a name to be created has no \<open>:\<close> (the kernel rules out only
  \<open>/\<close>). Under it \<open>daemon_ok\<close> is an invariant, and \<open>stops\<close> lists exactly what ends the daemon.
\<close>

subsection \<open>Writing keeps the daemon's state\<close>

lemma write_keeps:
  assumes ok: "daemon_ok fs bm" and p: "0 < p" and now: "now < 2 ^ 64"
    and node: "\<And>f. visible fs bm p = Some f \<Longrightarrow> node_ok (f\<lparr>fattr := stamped now (length content), fdata := content\<rparr>)"
  shows "\<exists>r bm'. write_file fs p content now bm = Inr (r, bm') \<and> daemon_ok fs bm' \<and> r \<noteq> Err AlreadyExist"
proof (cases "visible fs bm p")
  case None
  then show ?thesis using write_file_none [OF daemon_okD(1) [OF ok] p] ok by (simp add: visible_None)
next
  case (Some f)
  then have v: "usable fs p" "abs_fs fs bm p = Some f" by (simp_all add: visible_Some)
  note D = daemon_okD [OF ok]
  show ?thesis
  proof (cases "length content \<le> max_size (block_sz bm)")
    case False
    then show ?thesis using write_file_too_large [OF D(1) v, of content now] ok by simp
  next
    case True
    show ?thesis
    proof (cases rule: write_file_ok [OF D(1) v True now])
      case (1 bm')
      then have "daemon_ok fs bm'"
        using D(2,3) tree_ok_upd [OF D(3) node [OF Some], of p] by (simp add: daemon_ok_def written_fs_def)
      then show ?thesis using 1(1) by simp
    next
      case (2 bm')
      then have "daemon_ok fs bm'" using D(2,3) by (simp add: daemon_ok_def)
      then show ?thesis using 2(1) by simp
    qed
  qed
qed

subsection \<open>Creation\<close>

definition has_entry :: "file_operation \<Rightarrow> block_manager \<Rightarrow> nat \<Rightarrow> string \<Rightarrow> bool" where
  "has_entry fs bm p name = (case dir_entries fs bm p of None \<Rightarrow> False | Some es \<Rightarrow> name \<in> ename ` set es)"

lemma is_ok_find_entry: "is_ok (find_entry name es) \<longleftrightarrow> name \<in> ename ` set es"
  by (induction es) auto

lemma lookup_visible:
  assumes "daemon_ok fs bm" and "dir_id (abs_fs fs bm) p"
  shows "\<exists>r. lookup ev fs p name bm = Inr (r, bm) \<and> (is_ok r \<longleftrightarrow> has_entry fs bm p name)"
  using read_directory_visible [OF assms, of ev]
  by (cases "dir_entries fs bm p") (simp_all add: lookup_def chain_def has_entry_def is_ok_find_entry)

lemma append_node_ok:
  assumes n: "node_ok f" and name: "clean_name name" and i: "0 < i" "i < 2 ^ 64"
  shows "node_ok (f\<lparr>fattr := a, fdata := bytes_of (append_to_directory (text_of (fdata f)) name i)\<rparr>)"
proof (cases "ftype f = type_code FILE")
  case False
  then have d: "ftype f = type_code Directory" "fdata f = bytes_of (dir_text (entries_of f))"
    "\<forall>e \<in> set (entries_of f). entry_ok e \<and> 0 < eid e" using n by (auto simp: node_ok_def)
  have "append_to_directory (text_of (fdata f)) name i = dir_text (entries_of f @ [\<lparr>ename = name, eid = i\<rparr>])"
    by (subst d(2)) (simp add: append_to_directory_text)
  then show ?thesis using d(1,3) name i
    by (intro node_ok_dir [where es = "entries_of f @ [\<lparr>ename = name, eid = i\<rparr>]"]) (auto simp: entry_ok_def)
qed (simp add: node_ok_def)

lemma mk_helper_keeps:
  assumes ok: "daemon_ok fs bm" and p: "dir_id (abs_fs fs bm) p" and name: "clean_name name"
    and t: "t \<noteq> Unknown" and now: "env_now ev < 2 ^ 64"
  shows "has_entry fs bm p name \<Longrightarrow> mk_helper ev fs p name t bm = Inr (Err AlreadyExist, bm)"
    and "\<not> has_entry fs bm p name \<Longrightarrow> free_set (block_allocator_of fs) bm = {} \<Longrightarrow>
         mk_helper ev fs p name t bm = Inl UncaughtThrow"
    and "\<not> has_entry fs bm p name \<Longrightarrow> free_set (block_allocator_of fs) bm \<noteq> {} \<Longrightarrow>
         \<exists>r bm'. mk_helper ev fs p name t bm = Inr (r, bm') \<and> daemon_ok fs bm' \<and> r \<noteq> Err AlreadyExist
           \<and> (\<forall>i. r = Ok i \<longrightarrow> 0 < i)"
proof -
  note D = daemon_okD [OF ok]
  obtain r where l: "lookup ev fs p name bm = Inr (r, bm)" "is_ok r \<longleftrightarrow> has_entry fs bm p name"
    using lookup_visible [OF ok p] by blast
  show "has_entry fs bm p name \<Longrightarrow> mk_helper ev fs p name t bm = Inr (Err AlreadyExist, bm)"
    using l by (simp add: mk_helper_def chain_def)
  assume nh: "\<not> has_entry fs bm p name"
  show "mk_helper ev fs p name t bm = Inl UncaughtThrow" if "free_set (block_allocator_of fs) bm = {}"
    using l nh alloc_inode_no_block [OF D(1) that] by (simp add: mk_helper_def chain_def)
  assume b: "free_set (block_allocator_of fs) bm \<noteq> {}"
  show "\<exists>r bm'. mk_helper ev fs p name t bm = Inr (r, bm') \<and> daemon_ok fs bm' \<and> r \<noteq> Err AlreadyExist
          \<and> (\<forall>i. r = Ok i \<longrightarrow> 0 < i)"
  proof (cases "ino_free (inode_manager_of fs) bm = {}")
    case True
    note a = alloc_inode_no_inode(1) [OF D(1) b True now, of t "env_heap ev"]
      alloc_inode_no_inode(2,3) [OF D(1) b True now]
    let ?bm = "mark (block_allocator_of fs) True (Min (free_set (block_allocator_of fs) bm)) bm"
    have "daemon_ok fs ?bm" using a D(2,3) by (simp add: daemon_ok_def)
    then show ?thesis using l nh a(1) by (simp add: mk_helper_def chain_def)
  next
    case False
    let ?i = "Min (ino_free (inode_manager_of fs) bm)"
    from alloc_inode_ok [OF D(1) b False now, of t "env_heap ev"] obtain bm1 where a:
        "alloc_inode fs t (env_now ev) (env_heap ev) bm = Inr (Ok (Suc ?i), bm1)" "fs_ok fs bm1"
        "abs_fs fs bm1 = (abs_fs fs bm)(Suc ?i \<mapsto> new_file t (env_now ev))" "block_sz bm1 = block_sz bm"
        "?i \<in> ino_free (inode_manager_of fs) bm"
      by metis
    have ok1: "daemon_ok fs bm1"
      using a(2-4) D(2) tree_ok_upd [OF D(3) node_ok_new [OF t]] by (simp add: daemon_ok_def)
    have "Suc ?i \<le> max_ino fs" using a(5) by (simp add: ino_free_def max_ino_def)
    moreover have "max_ino fs < 2 ^ 64" using im_geometry(5) [OF fs_ok_im [OF D(1)]] by (simp add: max_ino_def)
    ultimately have i64: "Suc ?i < 2 ^ 64" by (rule le_less_trans)
    note rd = attrs_visible(3) [OF a(2) dir_id_pos [OF p]]
    show ?thesis
    proof (cases "visible fs bm1 p")
      case None
      then show ?thesis using l nh a(1) rd ok1 by (simp add: mk_helper_def chain_def)
    next
      case (Some f)
      let ?c = "bytes_of (append_to_directory (text_of (fdata f)) name (Suc ?i))"
      have "\<And>g. visible fs bm1 p = Some g \<Longrightarrow> node_ok (g\<lparr>fattr := stamped (env_later ev) (length ?c), fdata := ?c\<rparr>)"
        using append_node_ok [OF visible_node_ok [OF ok1 Some] name _ i64] Some by auto
      from write_keeps [OF ok1 dir_id_pos [OF p] env_later_less this] obtain r2 bm2 where
        w: "write_file fs p ?c (env_later ev) bm1 = Inr (r2, bm2)" "daemon_ok fs bm2" "r2 \<noteq> Err AlreadyExist"
        by auto
      then show ?thesis using l nh a(1) rd Some
        by (cases r2) (simp_all add: mk_helper_def chain_def)
    qed
  qed
qed

subsection \<open>Removal\<close>

text \<open>The file \<open>unlink\<close> would remove: the entry exists and is not a directory.\<close>

definition unlink_target :: "file_operation \<Rightarrow> block_manager \<Rightarrow> nat \<Rightarrow> string \<Rightarrow> fnode option" where
  "unlink_target fs bm p name = (case dir_entries fs bm p of None \<Rightarrow> None
     | Some es \<Rightarrow> (case find_entry name es of Err _ \<Rightarrow> None
       | Ok i \<Rightarrow> (case visible fs bm i of None \<Rightarrow> None
         | Some g \<Rightarrow> if ftype g = type_code Directory then None else Some g)))"

definition needs_indirect :: "block_manager \<Rightarrow> fnode \<Rightarrow> bool" where
  "needs_indirect bm g \<longleftrightarrow> ndirect (block_sz bm) * block_sz bm < length (fdata g)"

lemma unlink_keeps:
  assumes ok: "daemon_ok fs bm" and p: "dir_id (abs_fs fs bm) p" and now: "env_now ev < 2 ^ 64"
  shows "unlink_target fs bm p name = Some g \<Longrightarrow> needs_indirect bm g \<Longrightarrow> unlink ev fs p name bm = Inl OutOfBounds"
    and "unlink_target fs bm p name = None \<or> (\<exists>g. unlink_target fs bm p name = Some g \<and> \<not> needs_indirect bm g) \<Longrightarrow>
      \<exists>r bm'. unlink ev fs p name bm = Inr (r, bm') \<and> daemon_ok fs bm' \<and> (r = Ok () \<or> bm' = bm)"
proof -
  note D = daemon_okD [OF ok]
  have tgt: "\<exists>f i. visible fs bm p = Some f \<and> find_entry name (entries_of f) = Ok i \<and> visible fs bm i = Some g
      \<and> ftype g \<noteq> type_code Directory" if "unlink_target fs bm p name = Some g" for g
    using that by (auto simp: unlink_target_def dir_entries_def split: option.splits chfs_result.splits if_splits)
  show "unlink ev fs p name bm = Inl OutOfBounds" if tg: "unlink_target fs bm p name = Some g" and big: "needs_indirect bm g"
  proof -
    from tgt [OF tg] obtain f i where t: "visible fs bm p = Some f" "find_entry name (entries_of f) = Ok i"
      "visible fs bm i = Some g" "ftype g \<noteq> type_code Directory" by blast
    have v: "usable fs i" "abs_fs fs bm i = Some g" using t(3) by (simp_all add: visible_Some)
    show ?thesis by (rule unlink_big_file [OF visible_dir(1) [OF ok p t(1)] t(2) v t(4) big [unfolded needs_indirect_def]])
  qed
  assume other: "unlink_target fs bm p name = None \<or> (\<exists>g. unlink_target fs bm p name = Some g \<and> \<not> needs_indirect bm g)"
  show "\<exists>r bm'. unlink ev fs p name bm = Inr (r, bm') \<and> daemon_ok fs bm' \<and> (r = Ok () \<or> bm' = bm)"
  proof (cases "unlink_target fs bm p name")
    case None
    obtain r where l: "lookup ev fs p name bm = Inr (r, bm)" using lookup_visible [OF ok p] by blast
    show ?thesis
    proof (cases r)
      case (Err e)
      then show ?thesis using l ok by (simp add: unlink_def chain_def)
    next
      case (Ok i)
      from l Ok obtain f where f: "visible fs bm p = Some f" "find_entry name (entries_of f) = Ok i"
        using read_directory_visible [OF ok p, of ev]
        by (cases "visible fs bm p") (auto simp: lookup_def chain_def dir_entries_def)
      have i: "0 < i" using find_entry_pos [OF f(2), of "\<lambda>i. 0 < i"] visible_dir(2) [OF ok p f(1)] by blast
      have "visible fs bm i = None \<or> (\<exists>g. visible fs bm i = Some g \<and> ftype g = type_code Directory)"
        using None f by (auto simp: unlink_target_def dir_entries_def split: option.splits if_splits)
      then show ?thesis
        using l Ok attrs_visible(2) [OF D(1) i] ok by (auto simp: unlink_def chain_def)
    qed
  next
    case (Some g)
    with other have small: "length (fdata g) \<le> ndirect (block_sz bm) * block_sz bm"
      by (simp add: needs_indirect_def)
    from tgt [OF Some] obtain f i where t: "visible fs bm p = Some f" "find_entry name (entries_of f) = Ok i"
      "visible fs bm i = Some g" "ftype g \<noteq> type_code Directory" by blast
    have v: "usable fs i" "abs_fs fs bm i = Some g" using t(3) by (simp_all add: visible_Some)
    note vd = visible_dir [OF ok p t(1)]
    have "p \<noteq> i" using t vd(4) by auto
    from unlink_ok [OF vd(1) t(2) this v t(4) small now vd(3)] obtain bm' f' where u:
      "unlink ev fs p name bm = Inr (Ok (), bm')" "dir_at fs bm' p f' (filter (\<lambda>e. ename e \<noteq> name) (entries_of f))"
      "ftype f' = ftype f" "abs_fs fs bm' = (abs_fs fs bm)(i := None, p \<mapsto> f')" "block_sz bm' = block_sz bm" by blast
    have "node_ok f'"
      using vd(2,4) u(3) by (intro node_ok_dir(1) [OF _ dir_atD(4) [OF u(2)]]) auto
    then have "daemon_ok fs bm'"
      using u(4,5) dir_atD(1) [OF u(2)] D(2) tree_ok_upd [OF tree_ok_del [OF D(3)]] by (simp add: daemon_ok_def)
    then show ?thesis using u(1) by blast
  qed
qed

subsection \<open>Requests\<close>

fun request_ok :: "(nat \<Rightarrow> fnode option) \<Rightarrow> request \<Rightarrow> bool" where
  "request_ok A (Getattr ino) = (0 < ino)"
| "request_ok A (Lookup parent name) = dir_id A parent"
| "request_ok A (Readdir ino sz off) = (0 < ino)"
| "request_ok A (Read ino sz off) = (0 < ino \<and> unat off + unat sz < 2 ^ 63)"
| "request_ok A (Write ino buf sz off) = (file_id A ino \<and> length buf = unat sz \<and> unat off + unat sz < 2 ^ 63)"
| "request_ok A (Setattr ino sz to_set) = (file_id A ino \<or> dir_id A ino \<and> sz = 0)"
| "request_ok A (Mknod parent name) = (dir_id A parent \<and> clean_name name)"
| "request_ok A (Mkdir parent name) = (dir_id A parent \<and> clean_name name)"
| "request_ok A (Unlink parent name) = dir_id A parent"
| "request_ok A _ = True"

text \<open>What ends the daemon.\<close>

fun stops :: "file_operation \<Rightarrow> block_manager \<Rightarrow> request \<Rightarrow> crash option" where
  "stops fs bm (Readdir ino sz off) = (if visible fs bm ino = None then Some UncaughtThrow else None)"
| "stops fs bm (Write ino buf sz off) = (if visible fs bm ino = None then Some Unimplemented else None)"
| "stops fs bm (Mknod parent name) =
     (if \<not> has_entry fs bm parent name \<and> free_set (block_allocator_of fs) bm = {} then Some UncaughtThrow else None)"
| "stops fs bm (Mkdir parent name) =
     (if \<not> has_entry fs bm parent name \<and> free_set (block_allocator_of fs) bm = {} then Some UncaughtThrow else None)"
| "stops fs bm (Unlink parent name) = (case unlink_target fs bm parent name of
     None \<Rightarrow> None | Some g \<Rightarrow> if needs_indirect bm g then Some OutOfBounds else None)"
| "stops fs bm (Readlink ino) = Some Unimplemented"
| "stops fs bm (Rmdir parent name) = Some Unimplemented"
| "stops fs bm (Symlink link parent name) = Some Unimplemented"
| "stops fs bm (Rename p1 n1 p2 n2) = Some Unimplemented"
| "stops fs bm (Link ino parent name) = Some Unimplemented"
| "stops fs bm (Statfs ino) = Some Unimplemented"
| "stops fs bm _ = None"

text \<open>A request is served, and the daemon's state kept, or the daemon stops as announced.\<close>

definition served :: "libfuse \<Rightarrow> env \<Rightarrow> file_operation \<Rightarrow> block_manager \<Rightarrow> request \<Rightarrow> bool" where
  "served lf ev fs bm r \<longleftrightarrow> (case stops fs bm r of
     Some c \<Rightarrow> handle lf ev fs r bm = Inl c
   | None \<Rightarrow> (\<exists>rep bm'. handle lf ev fs r bm = Inr (rep, bm') \<and> daemon_ok fs bm'))"

lemma served_reads:
  assumes ok: "daemon_ok fs bm"
  shows "0 < ino \<Longrightarrow> served lf ev fs bm (Getattr ino)"
    and "dir_id (abs_fs fs bm) p \<Longrightarrow> served lf ev fs bm (Lookup p name)"
    and "0 < ino \<Longrightarrow> served lf ev fs bm (Readdir ino sz off)"
    and "0 < ino \<Longrightarrow> unat off + unat sz < 2 ^ 63 \<Longrightarrow> served lf ev fs bm (Read ino sz off)"
  using ok by (auto simp: served_def chfs_getattr_ok chfs_lookup_ok chfs_readdir_ok chfs_read_ok split: option.split)

lemma file_node:
  "file_id A p \<Longrightarrow> A p = Some f \<Longrightarrow> node_ok (f\<lparr>fattr := a, fdata := c\<rparr>)"
  by (simp add: file_id_def node_ok_def)

lemma served_write:
  assumes ok: "daemon_ok fs bm" and p: "file_id (abs_fs fs bm) ino" and len: "length buf = unat sz"
    and off: "unat off + unat sz < 2 ^ 63" and now: "env_now ev < 2 ^ 64"
  shows "served lf ev fs bm (Write ino buf sz off)"
proof (cases "visible fs bm ino")
  case None
  then show ?thesis using write_file_w_off_none [OF daemon_okD(1) [OF ok] file_id_pos [OF p]]
    by (simp add: served_def chfs_write_def chain_def visible_None)
next
  case (Some f)
  then have v: "usable fs ino" "abs_fs fs bm ino = Some f" by (simp_all add: visible_Some)
  let ?c = "spliced (fdata f) (unat off) buf"
  have w64: "unat off + unat sz < 2 ^ 64" using off by simp
  note eq = write_file_w_off_eq [OF daemon_okD(1) [OF ok] v len w64, of "env_now ev"]
  have "\<And>g. visible fs bm ino = Some g \<Longrightarrow> node_ok (g\<lparr>fattr := stamped (env_now ev) (length ?c), fdata := ?c\<rparr>)"
    using file_node [OF p v(2)] Some by simp
  from write_keeps [OF ok file_id_pos [OF p] now this] obtain r bm' where
    w: "write_file fs ino ?c (env_now ev) bm = Inr (r, bm')" "daemon_ok fs bm'" by auto
  have "r = Ok () \<or> r = Err OUT_OF_RESOURCE"
  proof (cases "length ?c \<le> max_size (block_sz bm)")
    case True
    show ?thesis by (cases rule: write_file_ok [OF daemon_okD(1) [OF ok] v True now]) (use w(1) in auto)
  next
    case False
    then show ?thesis using write_file_too_large [OF daemon_okD(1) [OF ok] v, of ?c "env_now ev"] w(1) by simp
  qed
  then show ?thesis
    using eq w Some fs_counts(1) [OF daemon_okD(1) [OF w(2)]]
    by (auto simp: served_def chfs_write_def chain_def)
qed

text \<open>The handler of \<open>setattr\<close> resizes, whatever attributes the request is about.\<close>

lemma chfs_setattr_ok:
  assumes ok: "daemon_ok fs bm" and f: "visible fs bm ino = Some f" and ino: "0 < ino" and now: "env_now ev < 2 ^ 64"
    and f': "f' = f\<lparr>fattr := stamped (env_now ev) (unat sz),
                  fdata := take (unat sz) (fdata f) @ replicate (unat sz - length (fdata f)) 0\<rparr>" "node_ok f'"
  shows "\<exists>rep bm'. chfs_setattr ev fs ino sz to_set bm = Inr (rep, bm') \<and> daemon_ok fs bm'
    \<and> (if length (fdata f) = unat sz then rep = Reply_attr (stat_of f) \<and> bm' = bm
       else if unat sz \<le> max_size (block_sz bm) \<and> blocks_for bm (unat sz)
         \<le> card (free_set (block_allocator_of fs) bm) + blocks_for bm (length (fdata f))
       then rep = Reply_attr (stat_of f') \<and> abs_fs fs bm' = (abs_fs fs bm)(ino \<mapsto> f')
       else rep = Reply_err ENOSYS \<and> abs_fs fs bm' = abs_fs fs bm)"
proof -
  have v: "usable fs ino" "abs_fs fs bm ino = Some f" using f by (simp_all add: visible_Some)
  note D = daemon_okD [OF ok]
  note out = resize_outcome [OF D(1) f now, of "unat sz"]
  note eq = resize_file_eq [OF D(1) v, of "unat sz" "env_now ev"]
  have tail: "get_type_attr fs ino bm1 = Inr (Ok (ftype g, fattr g), bm1) \<and> getattr_helper (ftype g) (fattr g) = Inr (stat_of g)"
    if "daemon_ok fs bm1" "abs_fs fs bm1 ino = Some g" for bm1 g
    using attrs_visible(1) [OF daemon_okD(1) [OF that(1)] ino] that v(1) daemon_okD(4) [OF that]
    by (simp add: visible_def getattr_helper_ok)
  show ?thesis
  proof (cases "length (fdata f) = unat sz")
    case True
    then show ?thesis using out tail [OF ok v(2)] ok by (simp add: chfs_setattr_def chain_Inr)
  next
    case False
    let ?c = "resize_to (unat sz) (fdata f)"
    have c: "?c = take (unat sz) (fdata f) @ replicate (unat sz - length (fdata f)) 0" "length ?c = unat sz"
      by (simp_all add: resize_to_def)
    have "\<And>g. visible fs bm ino = Some g \<Longrightarrow> node_ok (g\<lparr>fattr := stamped (env_now ev) (length ?c), fdata := ?c\<rparr>)"
      using f f' unfolding c(2) unfolding c(1) by simp
    from write_keeps [OF ok ino now this] obtain r bm' where
      w: "write_file fs ino ?c (env_now ev) bm = Inr (r, bm')" "daemon_ok fs bm'" by auto
    have rs: "resize_file fs ino (unat sz) (env_now ev) bm
        = Inr (case r of Ok _ \<Rightarrow> Ok (fattr f\<lparr>fsize := unat sz\<rparr>) | Err e \<Rightarrow> Err e, bm')"
      using eq False w(1) by (cases r) (simp_all add: chain_def)
    show ?thesis
    proof (cases r)
      case (Ok u)
      then have A: "abs_fs fs bm' = (abs_fs fs bm)(ino \<mapsto> f')" "unat sz \<le> max_size (block_sz bm)"
        "blocks_for bm (unat sz) \<le> card (free_set (block_allocator_of fs) bm) + blocks_for bm (length (fdata f))"
        using out rs False f'(1) by (auto split: if_splits)
      then show ?thesis using rs Ok w(2) False tail [OF w(2), of f'] by (simp add: chfs_setattr_def chain_Inr)
    next
      case (Err e)
      then show ?thesis using out rs False w(2) by (auto simp: chfs_setattr_def chain_Inr split: if_splits)
    qed
  qed
qed

lemma resized_node:
  assumes p: "file_id A ino \<or> dir_id A ino \<and> sz = 0" and v: "A ino = Some f"
  shows "node_ok (f\<lparr>fattr := a, fdata := take (unat sz) (fdata f) @ replicate (unat sz - length (fdata f)) 0\<rparr>)"
  using p
proof
  assume "dir_id A ino \<and> sz = 0"
  then show ?thesis
    using v by (intro node_ok_dir(1) [of _ "[]"]) (simp_all add: dir_id_def bytes_of_def)
qed (simp add: file_node v)

lemma served_setattr:
  assumes ok: "daemon_ok fs bm" and now: "env_now ev < 2 ^ 64"
    and p: "file_id (abs_fs fs bm) ino \<or> dir_id (abs_fs fs bm) ino \<and> sz = 0"
  shows "served lf ev fs bm (Setattr ino sz to_set)"
proof (cases "visible fs bm ino")
  case None
  have "0 < ino" using p by (auto simp: file_id_def dir_id_def)
  then show ?thesis using resize_file_none [OF daemon_okD(1) [OF ok]] None ok
    by (simp add: served_def chfs_setattr_def chain_def visible_None)
next
  case (Some f)
  have ino: "0 < ino" using p by (auto simp: file_id_def dir_id_def)
  let ?f = "f\<lparr>fattr := stamped (env_now ev) (unat sz),
             fdata := take (unat sz) (fdata f) @ replicate (unat sz - length (fdata f)) 0\<rparr>"
  have "node_ok ?f" using resized_node [OF p] Some by (simp add: visible_Some)
  from chfs_setattr_ok [OF ok Some ino now refl this, of to_set] show ?thesis
    by (auto simp: served_def)
qed

lemma served_create:
  assumes ok: "daemon_ok fs bm" and p: "dir_id (abs_fs fs bm) p" and name: "clean_name name"
    and now: "env_now ev < 2 ^ 64"
  shows "served lf ev fs bm (Mknod p name)" and "served lf ev fs bm (Mkdir p name)"
proof -
  note k = mk_helper_keeps [OF ok p name _ now]
  have tail: "\<exists>rep. reply_entry fs i bm' = Inr (rep, bm')" if "daemon_ok fs bm'" "0 < i" for i bm'
    using reply_entry_ok [OF that] by blast
  consider (old) "has_entry fs bm p name" | (full) "\<not> has_entry fs bm p name" "free_set (block_allocator_of fs) bm = {}"
    | (new) "\<not> has_entry fs bm p name" "free_set (block_allocator_of fs) bm \<noteq> {}" by blast
  then have "served lf ev fs bm (Mknod p name) \<and> served lf ev fs bm (Mkdir p name)"
  proof cases
    case old
    then show ?thesis using k(1) [OF _ old] ok
      by (simp add: served_def chfs_mknod_def chfs_mkdir_def mkfile_def mkdir_op_def chain_def)
  next
    case full
    then show ?thesis using k(2) [OF _ full]
      by (simp add: served_def chfs_mknod_def chfs_mkdir_def mkfile_def mkdir_op_def chain_def)
  next
    case new
    have fin: "\<exists>rep bm2. chain (mk_helper ev fs p name t) f bm = Inr (rep, bm2) \<and> daemon_ok fs bm2"
      if t: "t \<noteq> Unknown" and f: "\<And>i bm'. f (Ok i) bm' = reply_entry fs i bm'"
        and g: "\<And>e bm'. \<exists>rep. f (Err e) bm' = Inr (rep, bm')" for t f
    proof -
      from k(3) [OF t new] obtain r bm' where m: "mk_helper ev fs p name t bm = Inr (r, bm')" "daemon_ok fs bm'"
        "\<forall>i. r = Ok i \<longrightarrow> 0 < i" by blast
      show ?thesis
      proof (cases r)
        case (Ok i)
        then show ?thesis using m tail [of bm' i] f [of i bm'] by (auto simp: chain_Inr)
      next
        case (Err e)
        then show ?thesis using m g [of e bm'] by (auto simp: chain_Inr)
      qed
    qed
    show ?thesis
      unfolding served_def handle.simps chfs_mknod_def chfs_mkdir_def mkfile_def mkdir_op_def
      using new by (simp add: fin)
  qed
  then show "served lf ev fs bm (Mknod p name)" "served lf ev fs bm (Mkdir p name)" by simp_all
qed

lemma served_unlink:
  assumes ok: "daemon_ok fs bm" and p: "dir_id (abs_fs fs bm) p" and now: "env_now ev < 2 ^ 64"
  shows "served lf ev fs bm (Unlink p name)"
proof (cases "\<exists>g. unlink_target fs bm p name = Some g \<and> needs_indirect bm g")
  case True
  then obtain g where g: "unlink_target fs bm p name = Some g" "needs_indirect bm g" by blast
  then show ?thesis using unlink_keeps(1) [OF ok p now g]
    by (simp add: served_def chfs_unlink_def chain_def)
next
  case False
  then have "unlink_target fs bm p name = None \<or> (\<exists>g. unlink_target fs bm p name = Some g \<and> \<not> needs_indirect bm g)"
    by (cases "unlink_target fs bm p name") auto
  from unlink_keeps(2) [OF ok p now this] obtain r bm' where u: "unlink ev fs p name bm = Inr (r, bm')" "daemon_ok fs bm'"
    by blast
  have "stops fs bm (Unlink p name) = None" using False by (auto split: option.split)
  then show ?thesis using u by (cases r) (simp_all add: served_def chfs_unlink_def chain_def)
qed

lemma handle_served:
  assumes "daemon_ok fs bm" and "request_ok (abs_fs fs bm) r" and "env_now ev < 2 ^ 64"
  shows "served lf ev fs bm r"
  using assms
  by (cases r)
    (simp_all add: served_reads served_write served_setattr served_create served_unlink,
     simp_all add: served_def chfs_open_def chfs_readlink_def chfs_rmdir_def chfs_symlink_def chfs_rename_def
       chfs_link_def chfs_statfs_def)

subsection \<open>The state machine\<close>

datatype daemon_state = Serving block_manager | Stopped crash

inductive daemon_step :: "libfuse \<Rightarrow> file_operation \<Rightarrow> daemon_state \<Rightarrow> request \<times> reply option \<Rightarrow> daemon_state \<Rightarrow> bool"
  for lf :: libfuse and fs :: file_operation where
  reply: "request_ok (abs_fs fs bm) r \<Longrightarrow> env_now ev < 2 ^ 64 \<Longrightarrow> handle lf ev fs r bm = Inr (rep, bm')
    \<Longrightarrow> daemon_step lf fs (Serving bm) (r, Some rep) (Serving bm')"
| stop: "request_ok (abs_fs fs bm) r \<Longrightarrow> env_now ev < 2 ^ 64 \<Longrightarrow> handle lf ev fs r bm = Inl c
    \<Longrightarrow> daemon_step lf fs (Serving bm) (r, None) (Stopped c)"

inductive_cases daemon_stepE: "daemon_step lf fs s x s'"
inductive_simps daemon_step_stopped [simp]: "daemon_step lf fs (Stopped c) x s'"
inductive_simps daemon_step_to_stopped: "daemon_step lf fs (Serving bm) x (Stopped c)"
inductive_simps daemon_step_serving: "daemon_step lf fs (Serving bm) x (Serving bm')"

inductive reachable :: "libfuse \<Rightarrow> block_manager \<Rightarrow> nat \<Rightarrow> file_operation \<Rightarrow> daemon_state \<Rightarrow> bool"
  for lf :: libfuse and dev :: block_manager and n :: nat where
  boot: "make_root n ev dev = Inr (Some fs, bm) \<Longrightarrow> env_now ev < 2 ^ 64 \<Longrightarrow> reachable lf dev n fs (Serving bm)"
| step: "reachable lf dev n fs s \<Longrightarrow> daemon_step lf fs s x s' \<Longrightarrow> reachable lf dev n fs s'"

subsection \<open>Start-up\<close>

lemma make_root_ok:
  assumes fit: "fits_device dev n" and room: "im_end (manager_for dev n) + bitmap_blocks dev < block_cnt dev"
    and now: "env_now ev < 2 ^ 64"
  shows "\<exists>bm. make_root n ev dev = Inr (Some (handles_for dev n), bm) \<and> fs_ok (handles_for dev n) bm
    \<and> abs_fs (handles_for dev n) bm = [1 \<mapsto> new_file Directory (env_now ev)]
    \<and> block_sz bm = block_sz dev
    \<and> card (free_set (block_allocator_of (handles_for dev n)) bm) + 1
      = block_cnt dev - (im_end (manager_for dev n) + bitmap_blocks dev)"
proof -
  let ?fs = "handles_for dev n"
  have inodes: "0 < max_inode_supported (manager_for dev n)"
    using manager_for_ok(2) [of dev n] fit bitmap_blocks_bounds(1) [of dev] room
    by (auto simp: fits_device_def simp del: manager_for_sel)
  from new_file_operation_ok [OF fit, of "heap_part ev 1"] obtain bm0 where m:
    "new_file_operation n (heap_part ev 1) dev = Inr (?fs, bm0)" "fs_ok ?fs bm0" "abs_fs ?fs bm0 = Map.empty"
    "block_sz bm0 = block_sz dev"
    "card (free_set (block_allocator_of ?fs) bm0) = block_cnt dev - (im_end (manager_for dev n) + bitmap_blocks dev)"
    "card (ino_free (manager_for dev n) bm0) = max_inode_supported (manager_for dev n)" by blast
  have im: "inode_manager_of ?fs = manager_for dev n" by (simp add: handles_for_def)
  have b: "free_set (block_allocator_of ?fs) bm0 \<noteq> {}" using m(5) room by auto
  have i: "ino_free (inode_manager_of ?fs) bm0 = {..<max_inode_supported (manager_for dev n)}"
  proof (rule card_subset_eq)
    show "card (ino_free (inode_manager_of ?fs) bm0) = card {..<max_inode_supported (manager_for dev n)}"
      using m(6) im by simp
  qed (auto simp: ino_free_def im)
  have mn: "Min (ino_free (inode_manager_of ?fs) bm0) = 0"
    using inodes unfolding i by (intro Min_eqI) auto
  have "0 \<in> ino_free (inode_manager_of ?fs) bm0" unfolding i using inodes by simp
  then have ine: "ino_free (inode_manager_of ?fs) bm0 \<noteq> {}" by blast
  from alloc_inode_ok [OF m(2) b ine now, of Directory "heap_part ev 2"] obtain bm1 where a:
    "alloc_inode ?fs Directory (env_now ev) (heap_part ev 2) bm0 = Inr (Ok 1, bm1)" "fs_ok ?fs bm1"
    "abs_fs ?fs bm1 = (abs_fs ?fs bm0)(1 \<mapsto> new_file Directory (env_now ev))" "block_sz bm1 = block_sz bm0"
    "card (free_set (block_allocator_of ?fs) bm1) + 1 = card (free_set (block_allocator_of ?fs) bm0)"
    unfolding mn by auto
  then show ?thesis using m by (auto simp: make_root_def chain_def)
qed

text \<open>The device the daemon is started with: 16384 blocks of 1024 bytes.\<close>

definition disk :: "(nat \<Rightarrow> byte) \<Rightarrow> block_manager" where
  "disk junk = \<lparr>block_sz = 1024, block_cnt = 16384, block_data = map junk [0..<16777216], in_memory = True\<rparr>"

lemma disk_geometry [simp]:
  "block_sz (disk junk) = 1024" "block_cnt (disk junk) = 16384"
  "length (block_data (disk junk)) = 16777216"
  by (simp_all only: disk_def block_manager.simps length_map length_upt diff_zero)

lemma disk_layout:
  "wf_bm (disk junk)" "bitmap_blocks_for (disk junk) 1024 = 1" "bitmap_blocks (disk junk) = 2"
  "im_end (manager_for (disk junk) 1024) = 66"
  by (simp_all add: wf_bm_def bitmap_blocks_for_def bitmap_blocks_def im_end_def manager_for_def Let_def inode_per_block_def)

lemma disk_fits: "fits_device (disk junk) 1024"
  by (simp add: fits_device_def disk_layout)

lemma new_memory_disk:
  "new_memory_manager (kDiskSize div KBlockSize) KBlockSize junk = Inr (disk junk)"
proof -
  have "kDiskSize div KBlockSize = 16384" "KBlockSize = 1024" "wrap64 (16384 * 1024) = 16777216"
    by (simp_all add: kDiskSize_def KBlockSize_def wrap64_def)
  then show ?thesis unfolding new_memory_manager_def Let_def disk_def by (simp only: if_True zero_less_numeral)
qed

lemma bootstrap_ok:
  assumes now: "env_now ev < 2 ^ 64"
  defines "fs \<equiv> handles_for (disk (heap_part ev 0)) 1024"
  shows "\<exists>bm. bootstrap_fuse ev = Inr (Some fs, bm) \<and> daemon_ok fs bm
    \<and> abs_fs fs bm = [1 \<mapsto> new_file Directory (env_now ev)] \<and> block_sz bm = 1024
    \<and> card (free_set (block_allocator_of fs) bm) = 16315"
proof -
  have "im_end (manager_for (disk (heap_part ev 0)) 1024) + bitmap_blocks (disk (heap_part ev 0)) < block_cnt (disk (heap_part ev 0))"
    by (simp add: disk_layout)
  from make_root_ok [OF disk_fits this now] obtain bm where m:
    "make_root 1024 ev (disk (heap_part ev 0)) = Inr (Some fs, bm)" "fs_ok fs bm"
    "abs_fs fs bm = [1 \<mapsto> new_file Directory (env_now ev)]" "block_sz bm = 1024"
    "card (free_set (block_allocator_of fs) bm) + 1 = 16384 - (66 + 2)"
    unfolding fs_def disk_geometry disk_layout by blast
  have "max_size 1024 < 2 ^ 32" by (simp add: max_size_def ndirect_def nslots_def)
  moreover have "tree_ok [1 \<mapsto> new_file Directory (env_now ev)]"
    by (simp add: tree_ok_def node_ok_new)
  ultimately have "daemon_ok fs bm" using m by (simp add: daemon_ok_def)
  then show ?thesis using m by (simp add: bootstrap_fuse_def new_memory_disk KMaxInodeNum_def)
qed

subsection \<open>Reachable states\<close>

lemma daemon_step_ok:
  assumes "daemon_ok fs bm" and "daemon_step lf fs (Serving bm) x s'"
  shows "\<exists>r ev. (\<exists>rep bm'. x = (r, Some rep) \<and> s' = Serving bm' \<and> daemon_ok fs bm' \<and> stops fs bm r = None
             \<and> handle lf ev fs r bm = Inr (rep, bm'))
           \<or> (\<exists>c. x = (r, None) \<and> s' = Stopped c \<and> stops fs bm r = Some c)"
  using assms(2)
proof (cases rule: daemon_step.cases)
  case (reply r ev rep bm')
  have "served lf ev fs bm r" using handle_served [OF assms(1)] reply by auto
  then show ?thesis using reply by (auto simp: served_def split: option.splits)
next
  case (stop r ev c)
  have "served lf ev fs bm r" using handle_served [OF assms(1)] stop by auto
  then show ?thesis using stop by (auto simp: served_def split: option.splits)
qed

lemma reachable_ok:
  assumes "reachable lf dev n fs s" and "fits_device dev n" and "max_size (block_sz dev) < 2 ^ 32"
    and "im_end (manager_for dev n) + bitmap_blocks dev < block_cnt dev"
  shows "s = Serving bm \<Longrightarrow> daemon_ok fs bm"
  using assms(1)
proof (induction arbitrary: bm rule: reachable.induct)
  case (boot ev fs bm0)
  from make_root_ok [OF assms(2,4) boot(2)] boot(1) have
    m: "fs_ok fs bm0" "abs_fs fs bm0 = [1 \<mapsto> new_file Directory (env_now ev)]" "block_sz bm0 = block_sz dev"
    by auto
  have "tree_ok [1 \<mapsto> new_file Directory (env_now ev)]" by (simp add: tree_ok_def node_ok_new)
  then show ?case using m assms(3) boot(3) by (simp add: daemon_ok_def)
next
  case (step fs s x s')
  from step(2) obtain bm0 where s: "s = Serving bm0" by (cases s) simp_all
  from daemon_step_ok [OF step(3) [OF s] step(2) [unfolded s]] step(4) show ?case by blast
qed

lemmas reach_facts = reachable_ok daemon_step_ok handle_served

end
