(* ===== verification/Daemon_Spec.thy ===== *)
theory Daemon_Spec
  imports Daemon_Steps
begin

text \<open>
  What the daemon promises, without blocks: the abstract specification of every request. A
  \<open>world\<close> is the files by id, the number of free blocks, and two constants; \<open>spec_handle\<close> is a
  function on it, and the handlers of the code refine it. A device of the daemon stands for one
  world (\<open>world_of\<close>): what a handler answers and leaves depends on nothing else on the device,
  neither on the places of the blocks nor on the bytes of free ones.

  The locale \<open>simulation\<close> holds the rules by which a refinement is composed along \<open>chain\<close>; it is
  interpreted on the daemon's devices and worlds.
\<close>

subsection \<open>Composing refinements\<close>

locale simulation =
  fixes fine :: "'s \<Rightarrow> bool" and abs :: "'s \<Rightarrow> 'w"
begin

text \<open>The program \<open>m\<close>, started in \<open>s\<close>, does what the specification \<open>p\<close> does in the state it stands for.\<close>

definition sim :: "('s, 'a) exec \<Rightarrow> ('w, 'a) exec \<Rightarrow> 's \<Rightarrow> bool" where
  "sim m p s \<longleftrightarrow> (case p (abs s) of
     Inl c \<Rightarrow> m s = Inl c
   | Inr (a, w) \<Rightarrow> \<exists>s'. m s = Inr (a, s') \<and> fine s' \<and> abs s' = w)"

lemma sim_crash: "p (abs s) = Inl c \<Longrightarrow> m s = Inl c \<Longrightarrow> sim m p s"
  by (simp add: sim_def)

lemma simI: "m s = Inr (a, s') \<Longrightarrow> fine s' \<Longrightarrow> p (abs s) = Inr (a, abs s') \<Longrightarrow> sim m p s"
  by (simp add: sim_def)

text \<open>Only the run from \<open>s\<close> matters.\<close>

lemma sim_run: "sim m' p' s \<Longrightarrow> m s = m' s \<Longrightarrow> p (abs s) = p' (abs s) \<Longrightarrow> sim m p s"
  by (simp only: sim_def)

lemma sim_give: "fine s \<Longrightarrow> sim (give a) (give a) s"
  by (rule simI) simp_all

lemma sim_stop: "sim (crash_with c) (crash_with c) s"
  by (rule sim_crash) simp_all

lemma sim_chain:
  assumes m: "sim m p s"
    and k: "\<And>a s'. p (abs s) = Inr (a, abs s') \<Longrightarrow> m s = Inr (a, s') \<Longrightarrow> fine s' \<Longrightarrow> sim (k a) (l a) s'"
  shows "sim (chain m k) (chain p l) s"
proof (cases "p (abs s)")
  case (Inl c)
  then show ?thesis using m by (simp add: sim_def chain_def)
next
  case (Inr aw)
  then obtain a s' where a: "p (abs s) = Inr (a, abs s')" "m s = Inr (a, s')" "fine s'"
    using m by (cases aw) (auto simp: sim_def)
  then have "sim (k a) (l a) s'" by (rule k)
  then show ?thesis unfolding sim_def chain_Inr [of p, OF a(1)] chain_Inr [of m, OF a(2)] .
qed

lemma sim_on_ok:
  assumes "fine s" and "\<And>x. r = Ok x \<Longrightarrow> sim (k x) (l x) s"
  shows "sim (on_ok r k) (on_ok r l) s"
  using assms by (cases r) (simp_all add: sim_give)

text \<open>Only the abstract state matters.\<close>

lemma sim_same_world:
  assumes "sim m p s" and "sim m p t" and "abs s = abs t"
  shows "(\<exists>c. m s = Inl c \<and> m t = Inl c)
    \<or> (\<exists>a s' t'. m s = Inr (a, s') \<and> m t = Inr (a, t') \<and> abs s' = abs t')"
  using assms by (auto simp: sim_def split: sum.splits)

end

subsection \<open>Worlds\<close>

record world =
  files :: "nat \<Rightarrow> fnode option"
  room :: nat
  block_bytes :: nat
  id_limit :: nat

definition seen :: "world \<Rightarrow> nat \<Rightarrow> fnode option" where
  "seen w i = (if 0 < i \<and> i < id_limit w - 1 then files w i else None)"

text \<open>Blocks for a content of \<open>n\<close> bytes, the indirect block included, and the largest content that the
  direct pointers cover.\<close>

definition cost :: "world \<Rightarrow> nat \<Rightarrow> nat" where
  "cost w n = total_blks (block_bytes w) (nblk (block_bytes w) n)"

definition direct_bytes :: "world \<Rightarrow> nat" where
  "direct_bytes w = ndirect (block_bytes w) * block_bytes w"

text \<open>The operations on files. A content that does not fit uses up all the room there is.\<close>

definition spec_put :: "nat \<Rightarrow> nat \<Rightarrow> byte list \<Rightarrow> (world, unit chfs_result) exec" where
  "spec_put now i c w = (case seen w i of
     None \<Rightarrow> Inr (Err INVALID_ARG, w)
   | Some f \<Rightarrow>
       if max_size (block_bytes w) < length c then Inr (Err OUT_OF_RESOURCE, w)
       else if room w + cost w (length (fdata f)) < cost w (length c)
       then Inr (Err OUT_OF_RESOURCE, w\<lparr>room := 0\<rparr>)
       else Inr (Ok (), w\<lparr>files := (files w)(i \<mapsto> f\<lparr>fattr := stamped now (length c), fdata := c\<rparr>),
                        room := room w + cost w (length (fdata f)) - cost w (length c)\<rparr>))"

definition spec_new :: "nat \<Rightarrow> inode_type \<Rightarrow> (world, nat chfs_result) exec" where
  "spec_new now t w = (if room w = 0 then Inl UncaughtThrow
     else case find (\<lambda>i. files w i = None) [1..<Suc (id_limit w)] of
       None \<Rightarrow> Inr (Err OUT_OF_RESOURCE, w\<lparr>room := room w - 1\<rparr>)
     | Some i \<Rightarrow> Inr (Ok i, w\<lparr>files := (files w)(i \<mapsto> new_file t now), room := room w - 1\<rparr>))"

definition spec_drop :: "nat \<Rightarrow> (world, unit chfs_result) exec" where
  "spec_drop i w = (case seen w i of
     None \<Rightarrow> Inr (Err INVALID_ARG, w)
   | Some f \<Rightarrow>
       if direct_bytes w < length (fdata f) then Inl OutOfBounds
       else Inr (Ok (), w\<lparr>files := (files w)(i := None), room := room w + cost w (length (fdata f)) + 1\<rparr>))"

text \<open>Directories.\<close>

definition spec_find :: "nat \<Rightarrow> string \<Rightarrow> world \<Rightarrow> nat chfs_result" where
  "spec_find p name w = (case seen w p of None \<Rightarrow> Err INVALID_ARG | Some f \<Rightarrow> find_entry name (entries_of f))"

definition put_entries :: "nat \<Rightarrow> nat \<Rightarrow> (directory_entry list \<Rightarrow> directory_entry list) \<Rightarrow> (world, unit chfs_result) exec" where
  "put_entries now p change = chain (reads (\<lambda>w. seen w p)) (\<lambda>d. case d of
     None \<Rightarrow> give (Err INVALID_ARG)
   | Some f \<Rightarrow> spec_put now p (bytes_of (dir_text (change (entries_of f)))))"

definition spec_create :: "nat \<Rightarrow> nat \<Rightarrow> inode_type \<Rightarrow> nat \<Rightarrow> string \<Rightarrow> (world, nat chfs_result) exec" where
  "spec_create now later t p name = chain (reads (spec_find p name)) (\<lambda>found.
     if is_ok found then give (Err AlreadyExist)
     else chain (spec_new now t) (\<lambda>new. on_ok new (\<lambda>i.
          chain (put_entries later p (\<lambda>es. es @ [\<lparr>ename = name, eid = i\<rparr>])) (\<lambda>r. on_ok r (\<lambda>_. give (Ok i))))))"

definition spec_unlink :: "nat \<Rightarrow> nat \<Rightarrow> string \<Rightarrow> (world, unit chfs_result) exec" where
  "spec_unlink now p name = chain (reads (spec_find p name)) (\<lambda>found. on_ok found (\<lambda>i.
     chain (reads (\<lambda>w. seen w i)) (\<lambda>target. case target of
       None \<Rightarrow> give (Err INVALID_ARG)
     | Some g \<Rightarrow>
         if ftype g = type_code Directory then give (Err NotEmpty)
         else chain (spec_drop i) (\<lambda>r. on_ok r (\<lambda>_.
              put_entries now p (filter (\<lambda>e. ename e \<noteq> name)))))))"

subsection \<open>Requests\<close>

definition entry_reply :: "nat \<Rightarrow> world \<Rightarrow> reply" where
  "entry_reply i w = (case seen w i of None \<Rightarrow> Reply_err (-1) | Some f \<Rightarrow> Reply_entry i (stat_of f))"

fun spec_handle :: "libfuse \<Rightarrow> nat \<Rightarrow> nat \<Rightarrow> request \<Rightarrow> (world, reply) exec" where
  "spec_handle lf now later (Getattr i) =
     reads (\<lambda>w. case seen w i of None \<Rightarrow> Reply_err ENOENT | Some f \<Rightarrow> Reply_attr (stat_of f))"
| "spec_handle lf now later (Lookup p name) = reads (\<lambda>w. case seen w p of
     None \<Rightarrow> Reply_err (-1)
   | Some f \<Rightarrow> (case find_entry name (entries_of f) of Err _ \<Rightarrow> Reply_err ENOENT | Ok i \<Rightarrow> entry_reply i w))"
| "spec_handle lf now later (Readdir i sz off) = chain (reads (\<lambda>w. seen w i)) (\<lambda>d. case d of
     None \<Rightarrow> crash_with UncaughtThrow
   | Some f \<Rightarrow> give (if ftype f = type_code Directory
       then Reply_buf (take (unat sz) (drop (unat off) (records lf 0 (entries_of f)))) else Reply_err ENOTDIR))"
| "spec_handle lf now later (Read i sz off) = reads (\<lambda>w. case seen w i of
     None \<Rightarrow> Reply_err (-1) | Some f \<Rightarrow> Reply_buf (take (unat sz) (drop (unat off) (fdata f))))"
| "spec_handle lf now later (Write i buf sz off) = chain (reads (\<lambda>w. seen w i)) (\<lambda>d. case d of
     None \<Rightarrow> crash_with Unimplemented
   | Some f \<Rightarrow> chain (spec_put now i (spliced (fdata f) (unat off) buf)) (\<lambda>r.
       give (case r of Ok _ \<Rightarrow> Reply_write (unat sz) | Err _ \<Rightarrow> Reply_err ENOSYS)))"
| "spec_handle lf now later (Setattr i sz to_set) = chain (reads (\<lambda>w. seen w i)) (\<lambda>d. case d of
     None \<Rightarrow> give (Reply_err ENOSYS)
   | Some f \<Rightarrow>
       if length (fdata f) = unat sz then give (Reply_attr (stat_of f))
       else chain (spec_put now i (take (unat sz) (fdata f) @ replicate (unat sz - length (fdata f)) 0)) (\<lambda>r.
            reads (\<lambda>w. if is_ok r then Reply_attr (stat_of (the (seen w i))) else Reply_err ENOSYS)))"
| "spec_handle lf now later (Mknod p name) = chain (spec_create now later FILE p name) (\<lambda>r. case r of
     Ok i \<Rightarrow> reads (entry_reply i)
   | Err e \<Rightarrow> give (Reply_err (if e = AlreadyExist then EEXIST else ENOENT)))"
| "spec_handle lf now later (Mkdir p name) = chain (spec_create now later Directory p name) (\<lambda>r. case r of
     Ok i \<Rightarrow> reads (entry_reply i)
   | Err e \<Rightarrow> give (Reply_err (if e = AlreadyExist then EEXIST else ENOSYS)))"
| "spec_handle lf now later (Unlink p name) = chain (spec_unlink now p name) (\<lambda>r. give (Reply_err (case r of
     Ok _ \<Rightarrow> 0
   | Err e \<Rightarrow> if e = NotExist then ENOENT else if e = NotEmpty then ENOTEMPTY else ENOSYS)))"
| "spec_handle lf now later (Open i) = give Reply_open"
| "spec_handle lf now later _ = crash_with Unimplemented"

subsection \<open>The world a device stands for\<close>

definition world_of :: "file_operation \<Rightarrow> block_manager \<Rightarrow> world" where
  "world_of fs bm = \<lparr>files = abs_fs fs bm, room = card (free_set (block_allocator_of fs) bm),
     block_bytes = block_sz bm, id_limit = max_ino fs\<rparr>"

lemma world_sel [simp]:
  "files (world_of fs bm) = abs_fs fs bm" "room (world_of fs bm) = card (free_set (block_allocator_of fs) bm)"
  "block_bytes (world_of fs bm) = block_sz bm" "id_limit (world_of fs bm) = max_ino fs"
  by (simp_all add: world_of_def)

lemma world_eq: "w = world_of fs bm \<longleftrightarrow> files w = abs_fs fs bm \<and> room w = card (free_set (block_allocator_of fs) bm)
    \<and> block_bytes w = block_sz bm \<and> id_limit w = max_ino fs"
  by (cases w) (auto simp: world_of_def)

lemma seen_world [simp]: "seen (world_of fs bm) i = visible fs bm i"
  by (simp add: seen_def visible_def usable_def)

lemma cost_world [simp]: "cost (world_of fs bm) n = blocks_for bm n"
  by (simp add: cost_def blocks_for_def)

lemma direct_bytes_world: "direct_bytes (world_of fs bm) < length (fdata f) \<longleftrightarrow> needs_indirect bm f"
  by (simp add: direct_bytes_def needs_indirect_def)

interpretation refine: simulation "daemon_ok fs" "world_of fs" for fs .

subsection \<open>Files\<close>

lemma put_sim:
  assumes ok: "daemon_ok fs bm" and i: "0 < i" and now: "now < 2 ^ 64"
    and node: "\<And>f. visible fs bm i = Some f \<Longrightarrow> node_ok (f\<lparr>fattr := stamped now (length c), fdata := c\<rparr>)"
  shows "refine.sim fs (write_file fs i c now) (spec_put now i c) bm"
proof -
  from write_keeps [OF ok i now node] obtain r bm' where
    w: "write_file fs i c now bm = Inr (r, bm')" "daemon_ok fs bm'" by blast
  show ?thesis
  proof (cases "visible fs bm i")
    case None
    then have "write_file fs i c now bm = Inr (Err INVALID_ARG, bm)"
      using write_file_none [OF daemon_okD(1) [OF ok] i] by (simp add: visible_None)
    then show ?thesis using ok None by (intro refine.simI) (simp_all add: spec_put_def)
  next
    case (Some f)
    note out = write_outcome [OF daemon_okD(1) [OF ok] Some now, of c, unfolded w(1)]
    have "spec_put now i c (world_of fs bm) = Inr (r, world_of fs bm')"
      using out Some by (auto simp: spec_put_def world_eq split: if_splits)
    with w show ?thesis by (intro refine.simI)
  qed
qed

lemma spec_put_Ok:
  assumes "spec_put now i c (world_of fs bm) = Inr (Ok u, world_of fs bm')" and f: "visible fs bm i = Some f"
  shows "visible fs bm' i = Some (f\<lparr>fattr := stamped now (length c), fdata := c\<rparr>)"
proof -
  have "world_of fs bm' = (world_of fs bm)\<lparr>files := (abs_fs fs bm)(i \<mapsto> f\<lparr>fattr := stamped now (length c), fdata := c\<rparr>),
      room := card (free_set (block_allocator_of fs) bm) + blocks_for bm (length (fdata f)) - blocks_for bm (length c)\<rparr>"
    using assms by (auto simp: spec_put_def split: if_splits)
  from arg_cong [OF this, of "\<lambda>w. seen w i"] show ?thesis using f by (simp add: seen_def visible_def usable_def split: if_splits)
qed

lemma ino_free_abs:
  "ino_free (inode_manager_of fs) bm = {i. i < max_ino fs \<and> abs_fs fs bm (Suc i) = None}"
  by (auto simp: ino_free_def abs_fs_def max_ino_def)

lemma least_free_id:
  "find (\<lambda>i. abs_fs fs bm i = None) [1..<Suc (max_ino fs)]
   = (if ino_free (inode_manager_of fs) bm = {} then None else Some (Suc (Min (ino_free (inode_manager_of fs) bm))))"
proof (cases "ino_free (inode_manager_of fs) bm = {}")
  case True
  then have "abs_fs fs bm i \<noteq> None" if "0 < i" "i \<le> max_ino fs" for i
    using that by (cases i) (auto simp: ino_free_abs)
  then show ?thesis using True by (auto simp: find_None_iff)
next
  case False
  let ?m = "Min (ino_free (inode_manager_of fs) bm)"
  have m: "?m \<in> ino_free (inode_manager_of fs) bm" using False by simp
  have less: "j \<notin> ino_free (inode_manager_of fs) bm" if "j < ?m" for j
    using that by (meson Min_le finite_ino_free linorder_not_less)
  have nth: "[1..<Suc (max_ino fs)] ! k = Suc k" if "k < max_ino fs" for k
    using nth_upt [of 1 k "Suc (max_ino fs)"] that by simp
  have "find (\<lambda>i. abs_fs fs bm i = None) [1..<Suc (max_ino fs)] = Some (Suc ?m)"
    unfolding find_Some_iff
  proof (intro exI [of _ ?m] conjI allI impI)
    show "?m < length [1..<Suc (max_ino fs)]" "abs_fs fs bm ([1..<Suc (max_ino fs)] ! ?m) = None"
      "Suc ?m = [1..<Suc (max_ino fs)] ! ?m"
      using m nth by (simp_all add: ino_free_abs del: upt_Suc)
    fix j assume "j < ?m"
    then show "abs_fs fs bm ([1..<Suc (max_ino fs)] ! j) \<noteq> None"
      using less [of j] m nth [of j] by (simp add: ino_free_abs del: upt_Suc)
  qed
  then show ?thesis using False by simp
qed

lemmas spec_new_id = spec_new_def [unfolded One_nat_def] least_free_id [unfolded One_nat_def]

lemma new_sim:
  assumes ok: "daemon_ok fs bm" and t: "t \<noteq> Unknown" and now: "now < 2 ^ 64"
  shows "refine.sim fs (alloc_inode fs t now junk) (spec_new now t) bm"
proof -
  note D = daemon_okD [OF ok]
  let ?al = "block_allocator_of fs"
  consider (full) "free_set ?al bm = {}"
    | (no_id) "free_set ?al bm \<noteq> {}" "ino_free (inode_manager_of fs) bm = {}"
    | (new) "free_set ?al bm \<noteq> {}" "ino_free (inode_manager_of fs) bm \<noteq> {}" by blast
  then show ?thesis
  proof cases
    case full
    then show ?thesis using alloc_inode_no_block [OF D(1) full]
      by (intro refine.sim_crash) (simp_all add: spec_new_def)
  next
    case no_id
    note a = alloc_inode_no_inode(1) [OF D(1) no_id now, of t junk] alloc_inode_no_inode(2-4) [OF D(1) no_id now]
    have sz: "block_sz (mark ?al True b bm) = block_sz bm" for b by simp
    show ?thesis
      using no_id a D(2,3) card_gt_0_iff [of "free_set ?al bm"]
      by (intro refine.simI [where s' = "mark ?al True (Min (free_set ?al bm)) bm" and a = "Err OUT_OF_RESOURCE"])
        (simp_all add: daemon_ok_def spec_new_id world_eq del: upt_Suc)
  next
    case new
    from alloc_inode_ok [OF D(1) new now, of t junk] obtain bm1 where a:
        "alloc_inode fs t now junk bm = Inr (Ok (Suc (Min (ino_free (inode_manager_of fs) bm))), bm1)" "fs_ok fs bm1"
        "abs_fs fs bm1 = (abs_fs fs bm)(Suc (Min (ino_free (inode_manager_of fs) bm)) \<mapsto> new_file t now)"
        "card (free_set ?al bm1) + 1 = card (free_set ?al bm)" "block_sz bm1 = block_sz bm"
      by metis
    have "daemon_ok fs bm1" using a D(2) tree_ok_upd [OF D(3) node_ok_new [OF t]] by (simp add: daemon_ok_def)
    then show ?thesis
      using new a
      by (intro refine.simI [where s' = bm1 and a = "Ok (Suc (Min (ino_free (inode_manager_of fs) bm)))"]) (auto simp: spec_new_id world_eq simp del: upt_Suc)
  qed
qed

lemma spec_new_Ok:
  assumes "spec_new now t (world_of fs bm) = Inr (Ok i, world_of fs bm')"
  shows "abs_fs fs bm' = (abs_fs fs bm)(i \<mapsto> new_file t now)" and "0 < i" and "i \<le> max_ino fs"
proof -
  from assms have f: "find (\<lambda>i. abs_fs fs bm i = None) [1..<Suc (max_ino fs)] = Some i"
    and w: "world_of fs bm' = (world_of fs bm)\<lparr>files := (abs_fs fs bm)(i \<mapsto> new_file t now), room := room (world_of fs bm) - 1\<rparr>"
    by (auto simp: spec_new_def simp del: upt_Suc split: if_splits option.splits)
  show "abs_fs fs bm' = (abs_fs fs bm)(i \<mapsto> new_file t now)" using arg_cong [OF w, of files] by simp
  have "i \<in> set [1..<Suc (max_ino fs)]" using f by (auto simp: find_Some_iff simp del: upt_Suc)
  then show "0 < i" "i \<le> max_ino fs" by auto
qed

lemma drop_sim:
  assumes ok: "daemon_ok fs bm" and i: "0 < i"
  shows "refine.sim fs (remove_file fs i) (spec_drop i) bm"
proof (cases "visible fs bm i")
  case None
  then have "remove_file fs i bm = Inr (Err INVALID_ARG, bm)"
    using remove_file_none [OF daemon_okD(1) [OF ok] i] by (simp add: visible_None)
  then show ?thesis using ok None by (intro refine.simI) (simp_all add: spec_drop_def)
next
  case (Some f)
  then have v: "usable fs i" "abs_fs fs bm i = Some f" by (simp_all add: visible_Some)
  note D = daemon_okD [OF ok]
  show ?thesis
  proof (cases "needs_indirect bm f")
    case True
    then show ?thesis
      using remove_file_indirect [OF D(1) v] Some
      by (intro refine.sim_crash [where c = OutOfBounds]) (simp_all add: spec_drop_def direct_bytes_world needs_indirect_def)
  next
    case False
    then have "length (fdata f) \<le> ndirect (block_sz bm) * block_sz bm" by (simp add: needs_indirect_def)
    from remove_file_ok [OF D(1) v this] obtain bm' where r: "remove_file fs i bm = Inr (Ok (), bm')" "fs_ok fs bm'"
      "abs_fs fs bm' = (abs_fs fs bm)(i := None)"
      "card (free_set (block_allocator_of fs) bm') = card (free_set (block_allocator_of fs) bm) + blocks_for bm (length (fdata f)) + 1"
      "block_sz bm' = block_sz bm" .
    have "daemon_ok fs bm'" using r D(2) tree_ok_del [OF D(3)] by (simp add: daemon_ok_def)
    then show ?thesis
      using r False Some
      by (intro refine.simI [where s' = bm' and a = "Ok ()"]) (simp_all add: spec_drop_def direct_bytes_world world_eq)
  qed
qed

subsection \<open>Directories\<close>

lemma find_sim:
  assumes ok: "daemon_ok fs bm" and p: "dir_id (abs_fs fs bm) p"
  shows "refine.sim fs (lookup ev fs p name) (reads (spec_find p name)) bm"
proof -
  have "lookup ev fs p name bm = Inr (spec_find p name (world_of fs bm), bm)"
    using read_directory_visible [OF ok p, of ev]
    by (cases "visible fs bm p") (simp_all add: lookup_def chain_def dir_entries_def spec_find_def)
  then show ?thesis using ok by (intro refine.simI [where s' = bm]) simp_all
qed

text \<open>Reading the parent and writing the changed text is the change of its list of entries.\<close>

lemma entries_sim:
  assumes ok: "daemon_ok fs bm" and p: "0 < p" and now: "now < 2 ^ 64"
    and cont: "\<And>f. visible fs bm p = Some f \<Longrightarrow> g (fdata f) = bytes_of (dir_text (change (entries_of f)))"
    and node: "\<And>f a. visible fs bm p = Some f \<Longrightarrow>
        node_ok (f\<lparr>fattr := a, fdata := bytes_of (dir_text (change (entries_of f)))\<rparr>)"
  shows "refine.sim fs (chain (read_file fs p) (\<lambda>rd. on_ok rd (\<lambda>dir. write_file fs p (g dir) now)))
    (put_entries now p change) bm"
proof (cases "visible fs bm p")
  case None
  then show ?thesis
    using attrs_visible(3) [OF daemon_okD(1) [OF ok] p] ok
    by (intro refine.simI [where s' = bm and a = "Err INVALID_ARG"]) (simp_all add: chain_def put_entries_def)
next
  case (Some f)
  let ?c = "bytes_of (dir_text (change (entries_of f)))"
  have "refine.sim fs (write_file fs p ?c now) (spec_put now p ?c) bm"
    by (rule put_sim [OF ok p now]) (use node Some in auto)
  moreover have "chain (read_file fs p) (\<lambda>rd. on_ok rd (\<lambda>dir. write_file fs p (g dir) now)) bm = write_file fs p ?c now bm"
    using attrs_visible(3) [OF daemon_okD(1) [OF ok] p] Some cont [OF Some] by (simp add: chain_def)
  moreover have "put_entries now p change (world_of fs bm) = spec_put now p ?c (world_of fs bm)"
    using Some by (simp add: put_entries_def)
  ultimately show ?thesis by (rule refine.sim_run)
qed

lemma mk_helper_eq:
  "mk_helper ev fs p name t = chain (lookup ev fs p name) (\<lambda>found.
     if is_ok found then give (Err AlreadyExist)
     else chain (alloc_inode fs t (env_now ev) (env_heap ev)) (\<lambda>new. on_ok new (\<lambda>i.
          chain (chain (read_file fs p) (\<lambda>rd. on_ok rd (\<lambda>dir.
            write_file fs p (bytes_of (append_to_directory (text_of dir) name i)) (env_later ev)))) (\<lambda>wr.
          on_ok wr (\<lambda>_. give (Ok i))))))"
  unfolding mk_helper_def chain_assoc
  by (intro arg_cong2 [where f = chain] refl ext if_cong arg_cong2 [where f = on_ok])
    (simp add: on_ok_def split: chfs_result.split)

lemma create_sim:
  assumes ok: "daemon_ok fs bm" and p: "dir_id (abs_fs fs bm) p" and name: "clean_name name"
    and t: "t \<noteq> Unknown" and now: "env_now ev < 2 ^ 64"
  shows "refine.sim fs (mk_helper ev fs p name t) (spec_create (env_now ev) (env_later ev) t p name) bm"
  unfolding mk_helper_eq spec_create_def
proof (rule refine.sim_chain [OF find_sim [OF ok p]])
  fix found bm1
  assume found: "reads (spec_find p name) (world_of fs bm) = Inr (found, world_of fs bm1)" and ok1: "daemon_ok fs bm1"
  then have A1: "abs_fs fs bm1 = abs_fs fs bm" by (simp add: world_eq)
  have "refine.sim fs (chain (alloc_inode fs t (env_now ev) (env_heap ev)) (\<lambda>new. on_ok new (\<lambda>i.
          chain (chain (read_file fs p) (\<lambda>rd. on_ok rd (\<lambda>dir.
            write_file fs p (bytes_of (append_to_directory (text_of dir) name i)) (env_later ev)))) (\<lambda>wr.
          on_ok wr (\<lambda>_. give (Ok i))))))
      (chain (spec_new (env_now ev) t) (\<lambda>new. on_ok new (\<lambda>i.
        chain (put_entries (env_later ev) p (\<lambda>es. es @ [\<lparr>ename = name, eid = i\<rparr>])) (\<lambda>r. on_ok r (\<lambda>_. give (Ok i)))))) bm1"
  proof (intro refine.sim_chain [OF new_sim [OF ok1 t now]] refine.sim_on_ok)
    fix r bm2 i
    assume s: "spec_new (env_now ev) t (world_of fs bm1) = Inr (r, world_of fs bm2)" and ok2: "daemon_ok fs bm2"
      and r: "r = Ok i"
    note new = spec_new_Ok [OF s [unfolded r], unfolded A1]
    have "max_ino fs < 2 ^ 64" using im_geometry(5) [OF fs_ok_im [OF daemon_okD(1) [OF ok]]] by (simp add: max_ino_def)
    then have e: "entry_ok \<lparr>ename = name, eid = i\<rparr>" using new(3) name by (simp add: entry_ok_def)
    have f: "fdata g = bytes_of (dir_text (entries_of g)) \<and> (\<forall>e \<in> set (entries_of g). entry_ok e \<and> 0 < eid e)
        \<and> (ftype g = type_code FILE \<or> ftype g = type_code Directory)"
      if "visible fs bm2 p = Some g" for g
      using that new(1) p visible_node_ok [OF ok2 that]
      by (cases "p = i") (auto simp: visible_Some dir_id_def node_ok_def new_file_def entries_of_def parse_directory_def
          text_of_def bytes_of_def)
    show "refine.sim fs (chain (chain (read_file fs p) (\<lambda>rd. on_ok rd (\<lambda>dir.
            write_file fs p (bytes_of (append_to_directory (text_of dir) name i)) (env_later ev)))) (\<lambda>wr.
          on_ok wr (\<lambda>_. give (Ok i))))
        (chain (put_entries (env_later ev) p (\<lambda>es. es @ [\<lparr>ename = name, eid = i\<rparr>])) (\<lambda>r. on_ok r (\<lambda>_. give (Ok i)))) bm2"
    proof (intro refine.sim_chain [OF entries_sim [OF ok2 dir_id_pos [OF p] env_later_less]] refine.sim_on_ok refine.sim_give)
      fix g assume g: "visible fs bm2 p = Some g"
      show "bytes_of (append_to_directory (text_of (fdata g)) name i)
          = bytes_of (dir_text (entries_of g @ [\<lparr>ename = name, eid = i\<rparr>]))"
        using f [OF g] by (metis append_to_directory_text text_bytes)
      fix a
      show "node_ok (g\<lparr>fattr := a, fdata := bytes_of (dir_text (entries_of g @ [\<lparr>ename = name, eid = i\<rparr>]))\<rparr>)"
        using f [OF g] e new(2)
        by (cases "ftype g = type_code FILE")
          (auto simp: node_ok_file intro!: node_ok_dir(1) [of _ "entries_of g @ [\<lparr>ename = name, eid = i\<rparr>]"])
    qed
  qed
  with ok1 show "refine.sim fs (if is_ok found then give (Err AlreadyExist) else chain (alloc_inode fs t (env_now ev) (env_heap ev)) (\<lambda>new. on_ok new (\<lambda>i.
          chain (chain (read_file fs p) (\<lambda>rd. on_ok rd (\<lambda>dir.
            write_file fs p (bytes_of (append_to_directory (text_of dir) name i)) (env_later ev)))) (\<lambda>wr.
          on_ok wr (\<lambda>_. give (Ok i))))))
      (if is_ok found then give (Err AlreadyExist) else chain (spec_new (env_now ev) t) (\<lambda>new. on_ok new (\<lambda>i.
        chain (put_entries (env_later ev) p (\<lambda>es. es @ [\<lparr>ename = name, eid = i\<rparr>])) (\<lambda>r. on_ok r (\<lambda>_. give (Ok i)))))) bm1"
    by (cases "is_ok found") (simp_all add: refine.sim_give)
qed

lemma dir_id_del: "dir_id A p \<Longrightarrow> dir_id (A(i := None)) p"
  by (simp add: dir_id_def)

lemma remove_entry_sim:
  assumes ok: "daemon_ok fs bm" and p: "dir_id (abs_fs fs bm) p" and i: "0 < i" and now: "env_now ev < 2 ^ 64"
  shows "refine.sim fs
    (chain (remove_file fs i) (\<lambda>rm. on_ok rm (\<lambda>_. chain (read_file fs p) (\<lambda>rd. on_ok rd (\<lambda>dir.
          write_file fs p (bytes_of (rm_from_directory (env_id ev) (text_of dir) name)) (env_now ev))))))
    (chain (spec_drop i) (\<lambda>r. on_ok r (\<lambda>_. put_entries (env_now ev) p (filter (\<lambda>e. ename e \<noteq> name))))) bm"
proof (intro refine.sim_chain [OF drop_sim [OF ok i]] refine.sim_on_ok)
  fix r bm2 u
  assume s: "spec_drop i (world_of fs bm) = Inr (r, world_of fs bm2)" and ok2: "daemon_ok fs bm2" and "r = Ok u"
  then have "abs_fs fs bm2 = (abs_fs fs bm)(i := None)"
    by (auto simp: spec_drop_def world_eq split: option.splits if_splits)
  with p have p2: "dir_id (abs_fs fs bm2) p" by (simp add: dir_id_del)
  show "refine.sim fs (chain (read_file fs p) (\<lambda>rd. on_ok rd (\<lambda>dir.
          write_file fs p (bytes_of (rm_from_directory (env_id ev) (text_of dir) name)) (env_now ev)))) (put_entries (env_now ev) p (filter (\<lambda>e. ename e \<noteq> name))) bm2"
  proof (rule entries_sim [OF ok2 dir_id_pos [OF p2] now])
    fix f assume f: "visible fs bm2 p = Some f"
    note vd = visible_dir [OF ok2 p2 f]
    show "bytes_of (rm_from_directory (env_id ev) (text_of (fdata f)) name)
        = bytes_of (dir_text (filter (\<lambda>e. ename e \<noteq> name) (entries_of f)))"
      using rm_from_directory_text [OF dir_atD(5) [OF vd(1)] vd(3)] dir_atD(4) [OF vd(1)] by simp
    fix a
    show "node_ok (f\<lparr>fattr := a, fdata := bytes_of (dir_text (filter (\<lambda>e. ename e \<noteq> name) (entries_of f)))\<rparr>)"
      using vd(2,4) by (intro node_ok_dir(1) [of _ "filter (\<lambda>e. ename e \<noteq> name) (entries_of f)"]) auto
  qed
qed

lemma unlink_sim:
  assumes ok: "daemon_ok fs bm" and p: "dir_id (abs_fs fs bm) p" and now: "env_now ev < 2 ^ 64"
  shows "refine.sim fs (unlink ev fs p name) (spec_unlink (env_now ev) p name) bm"
  unfolding unlink_def spec_unlink_def
proof (intro refine.sim_chain [OF find_sim [OF ok p]] refine.sim_on_ok)
  fix found bm1 i
  assume found: "reads (spec_find p name) (world_of fs bm) = Inr (found, world_of fs bm1)" "found = Ok i"
    and ok1: "daemon_ok fs bm1"
  have A1: "abs_fs fs bm1 = abs_fs fs bm" using found(1) by (simp add: world_eq)
  then have p1: "dir_id (abs_fs fs bm1) p" using p by simp
  have "spec_find p name (world_of fs bm1) = Ok i" using found by auto
  then obtain f where f: "visible fs bm1 p = Some f" "find_entry name (entries_of f) = Ok i"
    by (auto simp: spec_find_def split: option.splits)
  have i: "0 < i" using find_entry_pos [OF f(2), of "\<lambda>i. 0 < i"] visible_dir(2) [OF ok1 p1 f(1)] by blast
  note ty = attrs_visible(2) [OF daemon_okD(1) [OF ok1] i]
  show "refine.sim fs
     (chain (gettype fs i) (\<lambda>type_res. on_ok type_res (\<lambda>t.
        if t = type_code Directory then give (Err NotEmpty)
        else chain (remove_file fs i) (\<lambda>rm. on_ok rm (\<lambda>_. chain (read_file fs p) (\<lambda>rd. on_ok rd (\<lambda>dir.
          write_file fs p (bytes_of (rm_from_directory (env_id ev) (text_of dir) name)) (env_now ev))))))))
     (chain (reads (\<lambda>w. seen w i)) (\<lambda>target. case target of
        None \<Rightarrow> give (Err INVALID_ARG)
      | Some g \<Rightarrow> if ftype g = type_code Directory then give (Err NotEmpty)
          else chain (spec_drop i) (\<lambda>r. on_ok r (\<lambda>_. put_entries (env_now ev) p (filter (\<lambda>e. ename e \<noteq> name)))))) bm1"
  proof (cases "visible fs bm1 i")
    case None
    then show ?thesis using ty ok1 by (intro refine.simI [where s' = bm1]) (simp_all add: chain_def)
  next
    case (Some g)
    then have "gettype fs i bm1 = Inr (Ok (ftype g), bm1)" using ty by simp
    note step = chain_Inr [of "gettype fs i", OF this]
    show ?thesis
    proof (cases "ftype g = type_code Directory")
      case True
      then show ?thesis using Some ok1 by (intro refine.simI [where s' = bm1]) (simp_all add: step)
    next
      case False
      then show ?thesis
        using Some by (intro refine.sim_run [OF remove_entry_sim [OF ok1 p1 i now, of name]]) (simp_all add: step)
    qed
  qed
qed

subsection \<open>Handlers\<close>

lemma entry_reply_sim:
  assumes "daemon_ok fs bm" and "0 < i"
  shows "refine.sim fs (reply_entry fs i) (reads (entry_reply i)) bm"
  using reply_entry_ok [OF assms] assms(1)
  by (intro refine.simI [where s' = bm]) (simp_all add: entry_reply_def)

lemma reads_sim:
  assumes ok: "daemon_ok fs bm" and lf: "sizes_agree lf"
  shows "0 < i \<Longrightarrow> refine.sim fs (chfs_getattr fs i) (spec_handle lf now later (Getattr i)) bm"
    and "dir_id (abs_fs fs bm) p \<Longrightarrow> refine.sim fs (chfs_lookup ev fs p name) (spec_handle lf now later (Lookup p name)) bm"
    and "0 < i \<Longrightarrow> refine.sim fs (chfs_readdir lf ev fs i sz off) (spec_handle lf now later (Readdir i sz off)) bm"
    and "0 < i \<Longrightarrow> unat off + unat sz < 2 ^ 63 \<Longrightarrow>
      refine.sim fs (chfs_read fs i sz off) (spec_handle lf now later (Read i sz off)) bm"
proof -
  assume i: "0 < i"
  show "refine.sim fs (chfs_getattr fs i) (spec_handle lf now later (Getattr i)) bm"
    using chfs_getattr_ok [OF ok i] ok by (intro refine.simI [where s' = bm]) simp_all
  have buf: "reply_buf_limited (dirbuf_add_all lf [] es) off sz
      = Reply_buf (take (unat sz) (drop (unat off) (records lf 0 es)))" for es
    using dirbuf_add_all_eq [OF lf, of "[]" es] by (simp add: reply_buf_limited_def min_def)
  show "refine.sim fs (chfs_readdir lf ev fs i sz off) (spec_handle lf now later (Readdir i sz off)) bm"
  proof (cases "visible fs bm i")
    case None
    then show ?thesis
      using chfs_readdir_ok [OF ok i, of lf ev sz off] by (intro refine.sim_crash [where c = UncaughtThrow]) simp_all
  next
    case (Some f)
    then show ?thesis
      using chfs_readdir_ok [OF ok i, of lf ev sz off] ok by (intro refine.simI [where s' = bm]) (simp_all add: buf)
  qed
  show "refine.sim fs (chfs_read fs i sz off) (spec_handle lf now later (Read i sz off)) bm" if "unat off + unat sz < 2 ^ 63"
    using chfs_read_ok [OF ok i that] ok by (intro refine.simI [where s' = bm]) simp_all
next
  assume "dir_id (abs_fs fs bm) p"
  from chfs_lookup_ok [OF ok this, of ev name] ok
  show "refine.sim fs (chfs_lookup ev fs p name) (spec_handle lf now later (Lookup p name)) bm"
    by (intro refine.simI [where s' = bm])
      (simp_all add: dir_entries_def entry_reply_def split: option.split chfs_result.split)
qed

lemma write_sim:
  assumes ok: "daemon_ok fs bm" and p: "file_id (abs_fs fs bm) i" and len: "length buf = unat sz"
    and off: "unat off + unat sz < 2 ^ 63" and now: "env_now ev < 2 ^ 64"
  shows "refine.sim fs (chfs_write ev fs i buf sz off) (spec_handle lf (env_now ev) (env_later ev) (Write i buf sz off)) bm"
proof (cases "visible fs bm i")
  case None
  then have "write_file_w_off fs i buf (unat sz) (unat off) (env_now ev) bm = Inr (Err INVALID_ARG, bm)"
    using write_file_w_off_none [OF daemon_okD(1) [OF ok] file_id_pos [OF p]] by (simp add: visible_None)
  then show ?thesis
    using None by (intro refine.sim_crash [where c = Unimplemented]) (simp_all add: chfs_write_def chain_def)
next
  case (Some f)
  then have v: "usable fs i" "abs_fs fs bm i = Some f" by (simp_all add: visible_Some)
  let ?c = "spliced (fdata f) (unat off) buf"
  have w64: "unat off + unat sz < 2 ^ 64" using off by simp
  let ?reply = "\<lambda>r. case r of Ok _ \<Rightarrow> Reply_write (unat sz) | Err _ \<Rightarrow> Reply_err ENOSYS"
  have "refine.sim fs (write_file fs i ?c (env_now ev)) (spec_put (env_now ev) i ?c) bm"
    by (rule put_sim [OF ok file_id_pos [OF p] now]) (use file_node [OF p v(2)] Some in auto)
  then have "refine.sim fs
      (chain (write_file fs i ?c (env_now ev)) (\<lambda>r. chain (on_ok r (\<lambda>_. give (Ok (unat sz)))) (\<lambda>res. case res of
         Err e \<Rightarrow> (if e = OUT_OF_RESOURCE
                   then chain (get_free_blocks_num fs) (\<lambda>n. chain (lift_run (unwrap n)) (\<lambda>_. give (Reply_err ENOSYS)))
                   else crash_with Unimplemented)
       | Ok n \<Rightarrow> give (Reply_write n))))
      (chain (spec_put (env_now ev) i ?c) (\<lambda>r. give (?reply r))) bm"
  proof (rule refine.sim_chain)
    fix r bm'
    assume s: "spec_put (env_now ev) i ?c (world_of fs bm) = Inr (r, world_of fs bm')" and ok': "daemon_ok fs bm'"
    have "r = Ok () \<or> r = Err OUT_OF_RESOURCE"
      using s Some by (auto simp: spec_put_def split: if_splits)
    then show "refine.sim fs (chain (on_ok r (\<lambda>_. give (Ok (unat sz)))) (\<lambda>res. case res of
         Err e \<Rightarrow> (if e = OUT_OF_RESOURCE
                   then chain (get_free_blocks_num fs) (\<lambda>n. chain (lift_run (unwrap n)) (\<lambda>_. give (Reply_err ENOSYS)))
                   else crash_with Unimplemented)
       | Ok n \<Rightarrow> give (Reply_write n))) (give (?reply r)) bm'"
      using ok' fs_counts(1) [OF daemon_okD(1) [OF ok']]
      by (intro refine.simI [where s' = bm']) (auto simp: chain_def)
  qed
  then show ?thesis
  proof (rule refine.sim_run)
    show "chfs_write ev fs i buf sz off bm
      = chain (write_file fs i ?c (env_now ev)) (\<lambda>r. chain (on_ok r (\<lambda>_. give (Ok (unat sz)))) (\<lambda>res. case res of
         Err e \<Rightarrow> (if e = OUT_OF_RESOURCE
                   then chain (get_free_blocks_num fs) (\<lambda>n. chain (lift_run (unwrap n)) (\<lambda>_. give (Reply_err ENOSYS)))
                   else crash_with Unimplemented)
       | Ok n \<Rightarrow> give (Reply_write n))) bm"
      unfolding chfs_write_def chain_assoc [symmetric]
      by (rule chain_run) (rule write_file_w_off_eq [OF daemon_okD(1) [OF ok] v len w64])
  qed (simp add: Some)
qed

lemma setattr_sim:
  assumes ok: "daemon_ok fs bm" and now: "env_now ev < 2 ^ 64"
    and p: "file_id (abs_fs fs bm) i \<or> dir_id (abs_fs fs bm) i \<and> sz = 0"
  shows "refine.sim fs (chfs_setattr ev fs i sz to_set) (spec_handle lf (env_now ev) (env_later ev) (Setattr i sz to_set)) bm"
proof (cases "visible fs bm i")
  case None
  have i: "0 < i" using p by (auto simp: file_id_def dir_id_def)
  have "resize_file fs i (unat sz) (env_now ev) bm = Inr (Err INVALID_ARG, bm)"
    using resize_file_none [OF daemon_okD(1) [OF ok] i] None by (simp add: visible_None)
  then show ?thesis
    using ok None by (intro refine.simI [where s' = bm]) (simp_all add: chfs_setattr_def chain_def)
next
  case (Some f)
  have i: "0 < i" using p by (auto simp: file_id_def dir_id_def)
  have v: "usable fs i" "abs_fs fs bm i = Some f" using Some by (simp_all add: visible_Some)
  let ?c = "take (unat sz) (fdata f) @ replicate (unat sz - length (fdata f)) 0"
  have attr: "chain (get_type_attr fs i) (\<lambda>attr_res. case attr_res of
         Err _ \<Rightarrow> give (Reply_err (-1))
       | Ok (t, a) \<Rightarrow> chain (lift_run (getattr_helper t a)) (\<lambda>st. give (Reply_attr st))) bm1
      = Inr (Reply_attr (stat_of g), bm1)"
    if "daemon_ok fs bm1" "visible fs bm1 i = Some g" for bm1 g
    using attrs_visible(1) [OF daemon_okD(1) [OF that(1)] i] that visible_node_ok [OF that]
    by (simp add: chain_def getattr_helper_ok)
  note eq = resize_file_eq [OF daemon_okD(1) [OF ok] v, of "unat sz" "env_now ev"]
  have c: "resize_to (unat sz) (fdata f) = ?c" by (simp add: resize_to_def)
  show ?thesis
  proof (cases "length (fdata f) = unat sz")
    case True
    then show ?thesis
      using eq attr [OF ok Some] ok Some by (intro refine.simI [where s' = bm]) (simp_all add: chfs_setattr_def chain_Inr)
  next
    case False
    let ?tail = "\<lambda>res. case res of
       Err _ \<Rightarrow> give (Reply_err ENOSYS)
     | Ok _ \<Rightarrow> chain (get_type_attr fs i) (\<lambda>attr_res. case attr_res of
           Err _ \<Rightarrow> give (Reply_err (-1))
         | Ok (t, a) \<Rightarrow> chain (lift_run (getattr_helper t a)) (\<lambda>st. give (Reply_attr st)))"
    have "refine.sim fs (write_file fs i ?c (env_now ev)) (spec_put (env_now ev) i ?c) bm"
      by (rule put_sim [OF ok i now]) (use resized_node [OF p v(2)] Some in auto)
    then have "refine.sim fs
        (chain (write_file fs i ?c (env_now ev)) (\<lambda>r. chain (on_ok r (\<lambda>_. give (Ok (fattr f\<lparr>fsize := unat sz\<rparr>)))) ?tail))
        (chain (spec_put (env_now ev) i ?c) (\<lambda>r.
            reads (\<lambda>w. if is_ok r then Reply_attr (stat_of (the (seen w i))) else Reply_err ENOSYS))) bm"
    proof (rule refine.sim_chain)
      fix r bm'
      assume s: "spec_put (env_now ev) i ?c (world_of fs bm) = Inr (r, world_of fs bm')" and ok': "daemon_ok fs bm'"
      show "refine.sim fs (chain (on_ok r (\<lambda>_. give (Ok (fattr f\<lparr>fsize := unat sz\<rparr>)))) ?tail)
          (reads (\<lambda>w. if is_ok r then Reply_attr (stat_of (the (seen w i))) else Reply_err ENOSYS)) bm'"
      proof (cases r)
        case (Ok u)
        from spec_put_Ok [OF s [unfolded Ok] Some] obtain g where g: "visible fs bm' i = Some g" by blast
        show ?thesis
          unfolding Ok on_ok_simps chain_simps chfs_result.case
          by (rule refine.simI, rule attr [OF ok' g], rule ok') (simp add: g)
      qed (simp add: refine.simI [where s' = bm'] ok')
    qed
    then show ?thesis
    proof (rule refine.sim_run)
      show "chfs_setattr ev fs i sz to_set bm
        = chain (write_file fs i ?c (env_now ev)) (\<lambda>r. chain (on_ok r (\<lambda>_. give (Ok (fattr f\<lparr>fsize := unat sz\<rparr>)))) ?tail) bm"
        unfolding chfs_setattr_def chain_assoc [symmetric]
        by (rule chain_run) (use eq False c in simp)
    qed (simp add: Some False)
  qed
qed

lemma mk_sim:
  assumes ok: "daemon_ok fs bm" and p: "dir_id (abs_fs fs bm) p" and name: "clean_name name"
    and now: "env_now ev < 2 ^ 64"
  shows "refine.sim fs (chfs_mknod ev fs p name) (spec_handle lf (env_now ev) (env_later ev) (Mknod p name)) bm"
    and "refine.sim fs (chfs_mkdir ev fs p name) (spec_handle lf (env_now ev) (env_later ev) (Mkdir p name)) bm"
proof -
  have pos: "0 < i"
    if "mk_helper ev fs p name t bm = Inr (Ok i, bm')" "t \<noteq> Unknown" for t i bm'
    using mk_helper_keeps [OF ok p name that(2) now] that(1)
    by (cases "has_entry fs bm p name"; cases "free_set (block_allocator_of fs) bm = {}") auto
  show "refine.sim fs (chfs_mknod ev fs p name) (spec_handle lf (env_now ev) (env_later ev) (Mknod p name)) bm"
    unfolding chfs_mknod_def spec_handle.simps mkfile_def
  proof (rule refine.sim_chain [OF create_sim [OF ok p name _ now]])
    fix r bm'
    assume "mk_helper ev fs p name FILE bm = Inr (r, bm')" "daemon_ok fs bm'"
    then show "refine.sim fs (case r of Ok i \<Rightarrow> reply_entry fs i
        | Err e \<Rightarrow> if e = AlreadyExist then give (Reply_err EEXIST) else give (Reply_err ENOENT))
      (case r of Ok i \<Rightarrow> reads (entry_reply i) | Err e \<Rightarrow> give (Reply_err (if e = AlreadyExist then EEXIST else ENOENT))) bm'"
      using pos [of FILE] by (cases r) (simp_all add: entry_reply_sim refine.sim_give)
  qed simp
  show "refine.sim fs (chfs_mkdir ev fs p name) (spec_handle lf (env_now ev) (env_later ev) (Mkdir p name)) bm"
    unfolding chfs_mkdir_def spec_handle.simps mkdir_op_def
  proof (rule refine.sim_chain [OF create_sim [OF ok p name _ now]])
    fix r bm'
    assume "mk_helper ev fs p name Directory bm = Inr (r, bm')" "daemon_ok fs bm'"
    then show "refine.sim fs (case r of Err e \<Rightarrow> give (Reply_err (if e = AlreadyExist then EEXIST else ENOSYS))
        | Ok i \<Rightarrow> reply_entry fs i)
      (case r of Ok i \<Rightarrow> reads (entry_reply i) | Err e \<Rightarrow> give (Reply_err (if e = AlreadyExist then EEXIST else ENOSYS))) bm'"
      using pos [of Directory] by (cases r) (simp_all add: entry_reply_sim refine.sim_give)
  qed simp
qed

lemma handle_sim:
  assumes ok: "daemon_ok fs bm" and rq: "request_ok (abs_fs fs bm) r" and now: "env_now ev < 2 ^ 64"
    and lf: "sizes_agree lf"
  shows "refine.sim fs (handle lf ev fs r) (spec_handle lf (env_now ev) (env_later ev) r) bm"
proof (cases r)
  case (Unlink p name)
  have "refine.sim fs (chfs_unlink ev fs p name) (spec_handle lf (env_now ev) (env_later ev) (Unlink p name)) bm"
    unfolding chfs_unlink_def spec_handle.simps
  proof (rule refine.sim_chain [OF unlink_sim [OF ok _ now]])
    fix res bm' assume "daemon_ok fs bm'"
    then show "refine.sim fs (case res of
         Err e \<Rightarrow> give (Reply_err (case e of NotExist \<Rightarrow> ENOENT | NotEmpty \<Rightarrow> ENOTEMPTY | _ \<Rightarrow> ENOSYS))
       | Ok _ \<Rightarrow> give (Reply_err 0))
      (give (Reply_err (case res of Ok _ \<Rightarrow> 0
         | Err e \<Rightarrow> if e = NotExist then ENOENT else if e = NotEmpty then ENOTEMPTY else ENOSYS))) bm'"
      by (cases res) (auto intro!: refine.simI [where s' = bm'] split: error_type.split)
  qed (use rq Unlink in simp)
  then show ?thesis using Unlink by simp
qed (use assms in \<open>simp_all add: reads_sim write_sim setattr_sim mk_sim del: spec_handle.simps(1-9)\<close>,
     auto intro!: refine.sim_crash simp: chfs_open_def chfs_readlink_def chfs_rmdir_def chfs_symlink_def
       chfs_rename_def chfs_link_def chfs_statfs_def refine.sim_give)

subsection \<open>Runs\<close>

text \<open>Sequences of labelled steps.\<close>

inductive runs :: "('s \<Rightarrow> 'x \<Rightarrow> 's \<Rightarrow> bool) \<Rightarrow> 's \<Rightarrow> 'x list \<Rightarrow> 's \<Rightarrow> bool" for step where
  runs_Nil: "runs step s [] s"
| runs_Cons: "step s x s' \<Longrightarrow> runs step s' xs s'' \<Longrightarrow> runs step s (x # xs) s''"

inductive_simps runs_simps: "runs step s [] s'" "runs step s (x # xs) s'"

text \<open>The specification as a state machine with the labels of \<open>daemon_step\<close>.\<close>

datatype spec_state = Up world | Down crash

inductive spec_step :: "libfuse \<Rightarrow> spec_state \<Rightarrow> request \<times> reply option \<Rightarrow> spec_state \<Rightarrow> bool" for lf where
  spec_reply: "request_ok (files w) r \<Longrightarrow> now < 2 ^ 64 \<Longrightarrow> later < 2 ^ 64 \<Longrightarrow> spec_handle lf now later r w = Inr (rep, w') \<Longrightarrow> spec_step lf (Up w) (r, Some rep) (Up w')"
| spec_stop: "request_ok (files w) r \<Longrightarrow> now < 2 ^ 64 \<Longrightarrow> later < 2 ^ 64 \<Longrightarrow> spec_handle lf now later r w = Inl c \<Longrightarrow> spec_step lf (Up w) (r, None) (Down c)"

inductive_cases spec_stepE: "spec_step lf (Up w) x s'"
inductive_simps spec_step_down [simp]: "spec_step lf (Down c) x s'"

fun stands_for :: "file_operation \<Rightarrow> daemon_state \<Rightarrow> spec_state" where
  "stands_for fs (Serving bm) = Up (world_of fs bm)"
| "stands_for fs (Stopped c) = Down c"

lemma step_refines:
  assumes "daemon_step lf fs s x s'" and "s = Serving bm" and ok: "daemon_ok fs bm" and lf: "sizes_agree lf"
  shows "spec_step lf (stands_for fs s) x (stands_for fs s') \<and> (\<forall>bm'. s' = Serving bm' \<longrightarrow> daemon_ok fs bm')"
  using assms(1,2)
proof cases
  case (reply bm0 r ev rep bm')
  then show ?thesis
    using handle_sim [OF ok _ _ lf, of r ev] assms(2)
    by (auto simp: refine.sim_def split: sum.splits intro!: spec_reply [where later = "env_later ev"])
next
  case (stop bm0 r ev c)
  then show ?thesis
    using handle_sim [OF ok _ _ lf, of r ev] assms(2)
    by (auto simp: refine.sim_def split: sum.splits intro!: spec_stop [where later = "env_later ev"])
qed

text \<open>And the daemon can do every step of the specification.\<close>

lemma step_realised:
  assumes "spec_step lf (Up (world_of fs bm)) x t" and ok: "daemon_ok fs bm" and lf: "sizes_agree lf"
  shows "\<exists>s'. daemon_step lf fs (Serving bm) x s' \<and> t = stands_for fs s' \<and> (\<forall>bm'. s' = Serving bm' \<longrightarrow> daemon_ok fs bm')"
  using assms(1)
proof cases
  case (spec_reply r now later rep w')
  let ?ev = "\<lparr>env_now = now, env_wait = later + 2 ^ 64 - now, env_heap = (\<lambda>_. 0), env_id = 0\<rparr>"
  have r: "request_ok (abs_fs fs bm) r" "env_now ?ev < 2 ^ 64" "env_later ?ev = later"
    using spec_reply by (simp_all add: env_later_def wrap64_def)
  from handle_sim [OF ok r(1,2) lf] r(3) spec_reply obtain bm' where "handle lf ?ev fs r bm = Inr (rep, bm')" "daemon_ok fs bm'"
    "w' = world_of fs bm'" by (auto simp: refine.sim_def)
  then show ?thesis using spec_reply daemon_step.reply [OF r(1,2)] by (intro exI [of _ "Serving bm'"]) simp
next
  case (spec_stop r now later c)
  let ?ev = "\<lparr>env_now = now, env_wait = later + 2 ^ 64 - now, env_heap = (\<lambda>_. 0), env_id = 0\<rparr>"
  have r: "request_ok (abs_fs fs bm) r" "env_now ?ev < 2 ^ 64" "env_later ?ev = later"
    using spec_stop by (simp_all add: env_later_def wrap64_def)
  from handle_sim [OF ok r(1,2) lf] r(3) spec_stop have "handle lf ?ev fs r bm = Inl c" by (simp add: refine.sim_def)
  then show ?thesis using spec_stop daemon_step.stop [OF r(1,2)] by (intro exI [of _ "Stopped c"]) simp
qed

definition state_ok :: "file_operation \<Rightarrow> daemon_state \<Rightarrow> bool" where
  "state_ok fs s \<longleftrightarrow> (\<forall>bm. s = Serving bm \<longrightarrow> daemon_ok fs bm)"

lemma runs_refine:
  assumes run: "runs (daemon_step lf fs) s tr s'" and lf: "sizes_agree lf"
  shows "state_ok fs s \<Longrightarrow> runs (spec_step lf) (stands_for fs s) tr (stands_for fs s')"
  using run
proof (induction rule: runs.induct)
  case (runs_Cons s x s1 xs s2)
  then obtain bm where bm: "s = Serving bm" "daemon_ok fs bm" by (cases s) (auto simp: state_ok_def)
  from step_refines [OF runs_Cons.hyps(1) bm lf] runs_Cons.IH show ?case
    by (auto simp: state_ok_def intro: runs.runs_Cons)
qed (simp add: runs.runs_Nil)

lemma runs_realised:
  assumes run: "runs (spec_step lf) t tr t'" and lf: "sizes_agree lf"
  shows "t = stands_for fs s \<Longrightarrow> state_ok fs s \<Longrightarrow> \<exists>s'. runs (daemon_step lf fs) s tr s' \<and> t' = stands_for fs s'"
  using run
proof (induction arbitrary: s rule: runs.induct)
  case (runs_Cons t x t1 xs t2)
  then obtain bm where bm: "s = Serving bm" "daemon_ok fs bm" by (cases s) (auto simp: state_ok_def)
  then have "spec_step lf (Up (world_of fs bm)) x t1" using runs_Cons.hyps(1) runs_Cons.prems(1) by simp
  from step_realised [OF this bm(2) lf] obtain s1 where
    "daemon_step lf fs s x s1" "t1 = stands_for fs s1" "state_ok fs s1" by (auto simp: bm(1) state_ok_def)
  then show ?case using runs_Cons.IH [of s1] by (auto intro: runs.runs_Cons)
qed (auto intro: runs.runs_Nil)

end
