(* ===== verification/Demo_States.thy ===== *)
theory Demo_States
  imports Daemon_Spec
begin

text \<open>
  Concrete runs of the model, used by the witnesses: the daemon's file system right after its
  start, then with an empty file \<open>f\<close> in the root directory, then with a file too large for the
  direct pointers of its inode, and small devices that are almost or completely full.
\<close>

definition state_after :: "('a \<times> 's) run \<Rightarrow> 's" where
  "state_after r = snd (projr r)"

lemma state_after_simps [simp]: "state_after (Inr (a, s)) = s"
  by (simp add: state_after_def)

definition demo_env :: env where
  "demo_env = \<lparr>env_now = 7, env_wait = 0, env_heap = (\<lambda>_. 0), env_id = 0\<rparr>"

lemma demo_env_sel [simp]: "env_now demo_env = 7" "env_heap demo_env = (\<lambda>_. 0)" "env_id demo_env = 0"
  "env_later demo_env = 7" "heap_part demo_env n = (\<lambda>_. 0)"
  by (simp_all add: demo_env_def env_later_def heap_part_def fun_eq_iff wrap64_def)

subsection \<open>The daemon's disk\<close>

definition demo_fs :: file_operation where
  "demo_fs = handles_for (disk (\<lambda>_. 0)) 1024"

lemma demo_max [simp]: "max_ino demo_fs = 8192"
  by (simp add: demo_fs_def handles_for_def max_ino_def disk_layout)

lemma demo_usable: "usable demo_fs ino \<longleftrightarrow> 0 < ino \<and> ino < 8191"
  by (simp add: usable_def)

definition demo_root :: block_manager where
  "demo_root = state_after (bootstrap_fuse demo_env)"

lemma demo_root_ok:
  "bootstrap_fuse demo_env = Inr (Some demo_fs, demo_root)" "daemon_ok demo_fs demo_root"
  "abs_fs demo_fs demo_root = [1 \<mapsto> new_file Directory 7]" "block_sz demo_root = 1024"
  "card (free_set (block_allocator_of demo_fs) demo_root) = 16315"
proof -
  have "env_now demo_env < 2 ^ 64" by simp
  from bootstrap_ok [OF this] obtain bm where b:
    "bootstrap_fuse demo_env = Inr (Some demo_fs, bm)" "daemon_ok demo_fs bm"
    "abs_fs demo_fs bm = [1 \<mapsto> new_file Directory 7]" "block_sz bm = 1024"
    "card (free_set (block_allocator_of demo_fs) bm) = 16315"
    by (auto simp: demo_fs_def)
  then have "demo_root = bm" by (simp add: demo_root_def)
  then show "bootstrap_fuse demo_env = Inr (Some demo_fs, demo_root)" "daemon_ok demo_fs demo_root"
    "abs_fs demo_fs demo_root = [1 \<mapsto> new_file Directory 7]" "block_sz demo_root = 1024"
    "card (free_set (block_allocator_of demo_fs) demo_root) = 16315" using b by simp_all
qed

lemmas demo_root_fs = daemon_okD(1) [OF demo_root_ok(2)]

lemma demo_root_dir: "dir_at demo_fs demo_root 1 (new_file Directory 7) []"
  using demo_root_fs by (simp add: dir_at_def demo_usable demo_root_ok new_file_def bytes_of_def)

lemma demo_root_free: "free_set (block_allocator_of demo_fs) demo_root \<noteq> {}"
  "ino_free (inode_manager_of demo_fs) demo_root = {1..<8192}"
  "Min (ino_free (inode_manager_of demo_fs) demo_root) = 1"
proof -
  show "free_set (block_allocator_of demo_fs) demo_root \<noteq> {}" using demo_root_ok(5) by auto
  show "ino_free (inode_manager_of demo_fs) demo_root = {1..<8192}"
    by (auto simp: ino_free_abs demo_root_ok(3))
  then show "Min (ino_free (inode_manager_of demo_fs) demo_root) = 1" by (intro Min_eqI) simp_all
qed

subsection \<open>A file\<close>

definition demo_file :: block_manager where
  "demo_file = state_after (mkfile demo_env demo_fs 1 ''f'' demo_root)"

lemma blocks_for_1024: "block_sz bm = 1024 \<Longrightarrow> blocks_for bm n = total_blks 1024 (nblk 1024 n)"
  by (simp add: blocks_for_def)

lemma max_size_1024: "max_size 1024 = 255 * 1024 - 6 * 1024"
  by (simp add: max_size_def ndirect_def nslots_def)

lemma demo_text: "dir_text [\<lparr>ename = ''f'', eid = 2\<rparr>] = ''f:2''"
  by code_simp

lemma demo_file_ok:
  "mkfile demo_env demo_fs 1 ''f'' demo_root = Inr (Ok 2, demo_file)"
  "dir_at demo_fs demo_file 1 (the (abs_fs demo_fs demo_file 1)) [\<lparr>ename = ''f'', eid = 2\<rparr>]"
  "abs_fs demo_fs demo_file 2 = Some (new_file FILE 7)"
  "ftype (the (abs_fs demo_fs demo_file 1)) = type_code Directory"
  "dom (abs_fs demo_fs demo_file) = {1, 2}" "block_sz demo_file = 1024"
  "card (free_set (block_allocator_of demo_fs) demo_file) = 16313"
proof -
  have bf: "blocks_for demo_root 3 = 1" "blocks_for demo_root 0 = 0"
    by (simp_all add: blocks_for_def demo_root_ok total_blks_def nblk_def ndirect_def nslots_def)
  have i: "ino_free (inode_manager_of demo_fs) demo_root \<noteq> {}" by (simp add: demo_root_free)
  have c: "clean_name ''f''" by (simp add: clean_name_def colon_def slash_def)
  have sz: "length (dir_text [\<lparr>ename = ''f'', eid = 2\<rparr>]) = 3" by (simp only: demo_text) simp
  have i2: "Suc (Min (ino_free (inode_manager_of demo_fs) demo_root)) = 2" by (simp add: demo_root_free(3))
  have fits: "length (dir_text [\<lparr>ename = ''f'', eid = 2\<rparr>]) \<le> max_size (block_sz demo_root)"
    unfolding sz demo_root_ok max_size_1024 by simp
  have room: "blocks_for demo_root (length (dir_text [\<lparr>ename = ''f'', eid = 2\<rparr>]))
      < card (free_set (block_allocator_of demo_fs) demo_root) + blocks_for demo_root (length (dir_text []))"
    unfolding sz demo_root_ok using bf by simp
  have now: "env_now demo_env < 2 ^ 64" by simp
  have new: "''f'' \<notin> ename ` set ([] :: directory_entry list)" by simp
  have en: "env_now demo_env = 7" "ftype (new_file Directory 7) = type_code Directory" "dir_text [] = []"
    by (simp_all add: new_file_def)
  from mk_helper_ok [OF demo_root_dir new now c i, unfolded i2 append_Nil, OF fits room demo_root_free(1), of FILE,
      unfolded sz demo_root_ok en list.size bf]
  obtain bm' f' where m: "mk_helper demo_env demo_fs 1 ''f'' FILE demo_root = Inr (Ok 2, bm')"
    "dir_at demo_fs bm' 1 f' [\<lparr>ename = ''f'', eid = 2\<rparr>]" "ftype f' = type_code Directory"
    "abs_fs demo_fs bm' = [1 \<mapsto> new_file Directory 7, 2 \<mapsto> new_file FILE 7, 1 \<mapsto> f']" "block_sz bm' = 1024"
    "card (free_set (block_allocator_of demo_fs) bm') + 1 + 1 = 16315 + 0" by blast
  have d: "demo_file = bm'" unfolding demo_file_def mkfile_def m(1) by simp
  show "mkfile demo_env demo_fs 1 ''f'' demo_root = Inr (Ok 2, demo_file)"
    "dir_at demo_fs demo_file 1 (the (abs_fs demo_fs demo_file 1)) [\<lparr>ename = ''f'', eid = 2\<rparr>]"
    "abs_fs demo_fs demo_file 2 = Some (new_file FILE 7)"
    "ftype (the (abs_fs demo_fs demo_file 1)) = type_code Directory"
    "dom (abs_fs demo_fs demo_file) = {1, 2}" "block_sz demo_file = 1024"
    "card (free_set (block_allocator_of demo_fs) demo_file) = 16313"
    using m by (auto simp: d mkfile_def)
qed

lemma demo_file_daemon: "daemon_ok demo_fs demo_file"
proof -
  have p: "dir_id (abs_fs demo_fs demo_root) 1" by (simp add: dir_id_def demo_root_ok new_file_def)
  have c: "clean_name ''f''" by (simp add: clean_name_def colon_def slash_def)
  have now: "env_now demo_env < 2 ^ 64" by simp
  have "visible demo_fs demo_root 1 = Some (new_file Directory 7)"
    by (simp add: visible_Some demo_usable demo_root_ok)
  then have "\<not> has_entry demo_fs demo_root 1 ''f''"
    by (simp add: has_entry_def dir_entries_def entries_of_def new_file_def parse_directory_def text_of_def)
  from mk_helper_keeps(3) [OF demo_root_ok(2) p c _ now this demo_root_free(1), of FILE]
  obtain r bm' where "mk_helper demo_env demo_fs 1 ''f'' FILE demo_root = Inr (r, bm')" "daemon_ok demo_fs bm'"
    by auto
  then show ?thesis using demo_file_ok(1) unfolding mkfile_def by simp
qed

lemmas demo_file_fs = daemon_okD(1) [OF demo_file_daemon]

lemma demo_file_entry: "usable demo_fs 2" "abs_fs demo_fs demo_file 2 = Some (new_file FILE 7)"
  by (simp add: demo_usable) (rule demo_file_ok(3))

lemma demo_file_visible: "visible demo_fs demo_file 2 = Some (new_file FILE 7)"
  using demo_file_entry by (simp add: visible_Some)

subsection \<open>A large file\<close>

definition demo_big :: block_manager where
  "demo_big = state_after (write_file demo_fs 2 (replicate 124000 0) 7 demo_file)"

definition big_node :: fnode where
  "big_node = \<lparr>ftype = type_code FILE, fattr = stamped 7 124000, fdata = replicate 124000 0\<rparr>"

lemma demo_big_ok:
  "fs_ok demo_fs demo_big" "block_sz demo_big = 1024"
  "abs_fs demo_fs demo_big = (abs_fs demo_fs demo_file)(2 \<mapsto> big_node)"
proof -
  let ?c = "replicate 124000 (0 :: byte)"
  have len: "length ?c = 124000" by (rule length_replicate)
  have sz: "length ?c \<le> max_size (block_sz demo_file)"
    unfolding len demo_file_ok max_size_1024 by simp
  have bf: "blocks_for demo_file (length ?c) = 123"
    unfolding len by (simp add: blocks_for_def demo_file_ok total_blks_def nblk_def ndirect_def nslots_def)
  have now: "(7 :: nat) < 2 ^ 64" by simp
  have "fs_ok demo_fs demo_big \<and> block_sz demo_big = 1024
    \<and> abs_fs demo_fs demo_big = written_fs (abs_fs demo_fs demo_file) 2 (new_file FILE 7) 7 ?c"
  proof (cases rule: write_file_ok [OF demo_file_fs demo_file_entry sz now])
    case (1 bm')
    then have "demo_big = bm'" unfolding demo_big_def by simp
    then show ?thesis using 1 demo_file_ok(6) by simp
  next
    case (2 bm')
    from 2(4) show ?thesis unfolding bf demo_file_ok by simp
  qed
  then show "fs_ok demo_fs demo_big" "block_sz demo_big = 1024"
    "abs_fs demo_fs demo_big = (abs_fs demo_fs demo_file)(2 \<mapsto> big_node)"
    by (simp_all only: written_fs_def big_node_def new_file_def fnode.simps len)
qed

subsection \<open>Small devices\<close>

definition tiny :: "nat \<Rightarrow> block_manager" where
  "tiny n = \<lparr>block_sz = 64, block_cnt = n, block_data = replicate (n * 64) 0, in_memory = True\<rparr>"

definition tiny_fs :: "nat \<Rightarrow> file_operation" where
  "tiny_fs n = handles_for (tiny n) 1"

definition tiny_new :: "nat \<Rightarrow> block_manager" where
  "tiny_new n = state_after (new_file_operation 1 (\<lambda>_. 0) (tiny n))"

lemma tiny_layout:
  "block_sz (tiny n) = 64" "block_cnt (tiny n) = n" "im_end (manager_for (tiny n) 1) = 66"
  "bitmap_blocks_for (tiny n) 1 = 1" "max_ino (tiny_fs n) = 512"
  "0 < n \<Longrightarrow> n < 2 ^ 32 \<Longrightarrow> wf_bm (tiny n)"
  by (simp_all add: tiny_def wf_bm_def im_end_def manager_for_def Let_def inode_per_block_def
      bitmap_blocks_for_def tiny_fs_def handles_for_def max_ino_def)

lemma tiny_fits: "n = 67 \<or> n = 600 \<Longrightarrow> fits_device (tiny n) 1"
proof -
  assume n: "n = 67 \<or> n = 600"
  have "im_end (manager_for (tiny n) 1) + bitmap_blocks (tiny n) \<le> block_cnt (tiny n)"
    unfolding tiny_layout bitmap_blocks_def using n by auto
  moreover have "wf_bm (tiny n)" using n by (intro tiny_layout(6)) auto
  ultimately show ?thesis using n unfolding fits_device_def by (auto simp: tiny_layout(1,2))
qed

lemma tiny_new_ok:
  assumes "n = 67 \<or> n = 600"
  shows "new_file_operation 1 (\<lambda>_. 0) (tiny n) = Inr (tiny_fs n, tiny_new n)" "fs_ok (tiny_fs n) (tiny_new n)"
    "abs_fs (tiny_fs n) (tiny_new n) = Map.empty"
    "card (free_set (block_allocator_of (tiny_fs n)) (tiny_new n)) = n - (66 + bitmap_blocks (tiny n))"
    "card (ino_free (inode_manager_of (tiny_fs n)) (tiny_new n)) = 512"
proof -
  from new_file_operation_ok [OF tiny_fits [OF assms], of "\<lambda>_. 0", folded tiny_fs_def, unfolded tiny_layout(1-3)
      manager_for_sel tiny_layout(4)] obtain bm where b:
    "new_file_operation 1 (\<lambda>_. 0) (tiny n) = Inr (tiny_fs n, bm)" "fs_ok (tiny_fs n) bm"
    "abs_fs (tiny_fs n) bm = Map.empty"
    "card (free_set (block_allocator_of (tiny_fs n)) bm) = n - (66 + bitmap_blocks (tiny n))"
    "card (ino_free (manager_for (tiny n) 1) bm) = 1 * (8 * 64)"
    by blast
  have "tiny_new n = bm" unfolding tiny_new_def b(1) by simp
  moreover have "inode_manager_of (tiny_fs n) = manager_for (tiny n) 1" by (simp add: tiny_fs_def handles_for_def)
  ultimately show "new_file_operation 1 (\<lambda>_. 0) (tiny n) = Inr (tiny_fs n, tiny_new n)" "fs_ok (tiny_fs n) (tiny_new n)"
    "abs_fs (tiny_fs n) (tiny_new n) = Map.empty"
    "card (free_set (block_allocator_of (tiny_fs n)) (tiny_new n)) = n - (66 + bitmap_blocks (tiny n))"
    "card (ino_free (inode_manager_of (tiny_fs n)) (tiny_new n)) = 512" using b by simp_all
qed

text \<open>Every inode taken, and some blocks left.\<close>

fun take_inodes :: "file_operation \<Rightarrow> nat \<Rightarrow> block_manager \<Rightarrow> block_manager" where
  "take_inodes fs 0 bm = bm"
| "take_inodes fs (Suc k) bm = state_after (alloc_inode fs FILE 7 (\<lambda>_. 0) (take_inodes fs k bm))"

lemma take_inodes_ok:
  assumes "fs_ok fs bm"
  shows "k \<le> card (ino_free (inode_manager_of fs) bm) \<Longrightarrow> k \<le> card (free_set (block_allocator_of fs) bm) \<Longrightarrow>
    fs_ok fs (take_inodes fs k bm)
    \<and> card (ino_free (inode_manager_of fs) (take_inodes fs k bm)) + k = card (ino_free (inode_manager_of fs) bm)
    \<and> card (free_set (block_allocator_of fs) (take_inodes fs k bm)) + k = card (free_set (block_allocator_of fs) bm)"
proof (induction k)
  case (Suc k)
  let ?bm = "take_inodes fs k bm"
  have k: "fs_ok fs ?bm"
    "card (ino_free (inode_manager_of fs) ?bm) + k = card (ino_free (inode_manager_of fs) bm)"
    "card (free_set (block_allocator_of fs) ?bm) + k = card (free_set (block_allocator_of fs) bm)"
    using Suc by simp_all
  have ne: "free_set (block_allocator_of fs) ?bm \<noteq> {}" "ino_free (inode_manager_of fs) ?bm \<noteq> {}"
    using k(2,3) Suc.prems by auto
  have now: "(7 :: nat) < 2 ^ 64" by simp
  from alloc_inode_ok [OF k(1) ne now, of FILE "\<lambda>_. 0"] obtain bm' where a:
    "alloc_inode fs FILE 7 (\<lambda>_. 0) ?bm = Inr (Ok (Suc (Min (ino_free (inode_manager_of fs) ?bm))), bm')" "fs_ok fs bm'"
    "card (free_set (block_allocator_of fs) bm') + 1 = card (free_set (block_allocator_of fs) ?bm)"
    "ino_free (inode_manager_of fs) bm' = ino_free (inode_manager_of fs) ?bm - {Min (ino_free (inode_manager_of fs) ?bm)}"
    by metis
  have "card (ino_free (inode_manager_of fs) bm') + 1 = card (ino_free (inode_manager_of fs) ?bm)"
    unfolding a(4) using ne(2) card_Suc_Diff1 [OF finite_ino_free Min_in [OF finite_ino_free ne(2)]] by simp
  then show ?case using a(1-3) k by simp
qed (use assms in simp)

definition tiny_no_inode :: block_manager where
  "tiny_no_inode = take_inodes (tiny_fs 600) 512 (tiny_new 600)"

lemma tiny_no_inode_ok:
  "fs_ok (tiny_fs 600) tiny_no_inode" "ino_free (inode_manager_of (tiny_fs 600)) tiny_no_inode = {}"
  "card (free_set (block_allocator_of (tiny_fs 600)) tiny_no_inode) = 20"
proof -
  note t = tiny_new_ok [of 600, simplified]
  have "bitmap_blocks (tiny 600) = 2" by (simp add: bitmap_blocks_def tiny_layout)
  then have f: "card (free_set (block_allocator_of (tiny_fs 600)) (tiny_new 600)) = 532" using t(4) by simp
  have "fs_ok (tiny_fs 600) tiny_no_inode
    \<and> card (ino_free (inode_manager_of (tiny_fs 600)) tiny_no_inode) + 512 = 512
    \<and> card (free_set (block_allocator_of (tiny_fs 600)) tiny_no_inode) + 512 = 532"
    using take_inodes_ok [OF t(2), of 512] unfolding tiny_no_inode_def t(5) f by simp
  then show "fs_ok (tiny_fs 600) tiny_no_inode" "ino_free (inode_manager_of (tiny_fs 600)) tiny_no_inode = {}"
    "card (free_set (block_allocator_of (tiny_fs 600)) tiny_no_inode) = 20" by auto
qed

end
