(* ===== verification/Stress_Test.thy ===== *)
theory Stress_Test
  imports Allocator_Laws "HOL-Library.Multiset"
begin

text \<open>
  The stress test of the block allocator (src/stress-test/allocator.cc): a run of random
  allocations and releases on a device of a million blocks, with the blocks held in an
  \<open>unordered_set\<close>. The random generator and the order in which the set is traversed belong to the
  C++ library and are parameters; a failed \<open>ASSERT\<close> or \<open>FAIL\<close> of the test framework returns from
  the test.
\<close>

subsection \<open>The test\<close>

datatype verdict = Test_passed | Test_failed

text \<open>One draw of each distribution: \<open>dis1(gen) <= threshold\<close>, and \<open>dis(gen)\<close>.\<close>

record 'g random_source =
  below_threshold :: "'g \<Rightarrow> bool \<times> 'g"
  zero_or_one :: "'g \<Rightarrow> nat \<times> 'g"

text \<open>
  The iterations. \<open>traverse i active\<close> is the set in the order in which iteration \<open>i\<close> traverses it.
  The result is the set of active blocks, or \<open>None\<close> when the test has failed.
\<close>

fun stress_loop ::
    "block_allocator \<Rightarrow> 'g random_source \<Rightarrow> (nat \<Rightarrow> nat list \<Rightarrow> nat list) \<Rightarrow> nat \<Rightarrow> nat \<Rightarrow> 'g \<Rightarrow> nat list
     \<Rightarrow> (block_manager, nat list option) exec" where
  "stress_loop al rs traverse 0 i g active = give (Some active)"
| "stress_loop al rs traverse (Suc n) i g active =
     (let (grow, g1) = (if active = [] then (True, g) else below_threshold rs g)
      in if grow
         then chain (allocate al) (\<lambda>block.
              if \<not> is_ok block then give None
              else chain (lift_run (unwrap block)) (\<lambda>b.
                   if b \<in> set active then give None
                   else stress_loop al rs traverse n (Suc i) g1 (b # active)))
         else let (k, g2) = zero_or_one rs g1;
                  b = traverse i active ! (k mod length active)
              in chain (deallocate al b) (\<lambda>res.
                 if \<not> is_ok res then give None
                 else stress_loop al rs traverse n (Suc i) g2 (remove1 b active)))"

definition stress_on ::
    "nat \<Rightarrow> 'g random_source \<Rightarrow> (nat \<Rightarrow> nat list \<Rightarrow> nat list) \<Rightarrow> 'g \<Rightarrow> (block_manager, verdict) exec" where
  "stress_on test_iterations rs traverse seed =
     chain new_block_allocator_at_start (\<lambda>al.
     if \<not> 0 < total_bitmap_block al then give Test_failed
     else if \<not> 0 < test_iterations then give Test_failed
     else chain (free_block_cnt al) (\<lambda>before.
          chain (stress_loop al rs traverse test_iterations 0 seed []) (\<lambda>res. case res of
            None \<Rightarrow> give Test_failed
          | Some active \<Rightarrow> chain (free_block_cnt al) (\<lambda>after.
              give (if wrap64 (after + length active) = before then Test_passed else Test_failed)))))"

definition stress_block_sz :: nat where "stress_block_sz = 4096"
definition stress_block_cnt :: nat where "stress_block_cnt = 1024 * 1024"

definition StressTest1 ::
    "'g random_source \<Rightarrow> (nat \<Rightarrow> nat list \<Rightarrow> nat list) \<Rightarrow> 'g \<Rightarrow> (nat \<Rightarrow> byte) \<Rightarrow> (verdict \<times> block_manager) run" where
  "StressTest1 rs traverse seed junk =
     andthen (new_memory_manager stress_block_cnt stress_block_sz junk) (stress_on 100000 rs traverse seed)"

subsection \<open>The test passes\<close>

text \<open>What holds between the iterations: the active blocks are distinct, in use, and together with the
  free ones as many as there were free blocks at the start.\<close>

definition stress_inv :: "block_allocator \<Rightarrow> nat \<Rightarrow> nat list \<Rightarrow> block_manager \<Rightarrow> bool" where
  "stress_inv al before active bm \<longleftrightarrow> alloc_ok al bm \<and> distinct active
     \<and> set active \<subseteq> {..<block_cnt bm} - free_set al bm
     \<and> card (free_set al bm) + length active = before"

lemma stress_allocate:
  assumes inv: "stress_inv al before active bm" and room: "length active < before"
  shows "\<exists>b bm'. allocate al bm = Inr (Ok b, bm') \<and> b \<notin> set active \<and> stress_inv al before (b # active) bm'"
proof -
  have ok: "alloc_ok al bm" using inv by (simp add: stress_inv_def)
  have ne: "free_set al bm \<noteq> {}" using inv room by (auto simp: stress_inv_def)
  let ?b = "Min (free_set al bm)"
  have fin: "finite (free_set al bm)" by (rule ba.finite_free [OF ok])
  have b: "?b \<in> free_set al bm" using fin ne by simp
  from ba.acquire_least [OF ok ne] obtain bm' where a: "allocate al bm = Inr (Ok ?b, bm')" "alloc_ok al bm'"
    "block_cnt bm' = block_cnt bm" "free_set al bm' = free_set al bm - {?b}" by blast
  have "Suc (card (free_set al bm')) = card (free_set al bm)"
    unfolding a(4) using card.remove [OF fin b] by simp
  then have "stress_inv al before (?b # active) bm'"
    using inv a b ba.free_bound [OF ok] by (auto simp: stress_inv_def)
  moreover have "?b \<notin> set active" using inv b by (auto simp: stress_inv_def)
  ultimately show ?thesis using a(1) by blast
qed

lemma stress_release:
  assumes inv: "stress_inv al before active bm" and b: "b \<in> set active"
  shows "\<exists>bm'. deallocate al b bm = Inr (Ok (), bm') \<and> stress_inv al before (remove1 b active) bm'"
proof -
  have ok: "alloc_ok al bm" using inv by (simp add: stress_inv_def)
  have u: "b < block_cnt bm" "b \<notin> free_set al bm" using inv b by (auto simp: stress_inv_def)
  from ba.release_used [OF ok u] obtain bm' where r: "deallocate al b bm = Inr (Ok (), bm')" "alloc_ok al bm'"
    "block_cnt bm' = block_cnt bm" "free_set al bm' = insert b (free_set al bm)" by blast
  have "card (free_set al bm') = Suc (card (free_set al bm))"
    unfolding r(4) using u(2) ba.finite_free [OF ok] by simp
  moreover have "Suc (length (remove1 b active)) = length active"
    using b length_pos_if_in_set [OF b] by (simp add: length_remove1)
  ultimately have "stress_inv al before (remove1 b active) bm'"
    using inv r by (auto simp: stress_inv_def)
  then show ?thesis using r(1) by blast
qed

text \<open>A traversal visits every element of the set once.\<close>

definition visits_all :: "(nat \<Rightarrow> nat list \<Rightarrow> nat list) \<Rightarrow> bool" where
  "visits_all traverse \<longleftrightarrow> (\<forall>i xs. mset (traverse i xs) = mset xs)"

lemma visits_allD:
  assumes "visits_all traverse"
  shows "set (traverse i xs) = set xs" and "length (traverse i xs) = length xs"
  using assms mset_eq_setD mset_eq_length unfolding visits_all_def by blast+

lemma stress_loop_ok:
  assumes traverse: "visits_all traverse"
  shows "stress_inv al before active bm \<Longrightarrow> length active + n \<le> before \<Longrightarrow>
    \<exists>active' bm'. stress_loop al rs traverse n i g active bm = Inr (Some active', bm') \<and> stress_inv al before active' bm'"
proof (induction n arbitrary: i g active bm)
  case (Suc n)
  obtain grow g1 where d: "(if active = [] then (True, g) else below_threshold rs g) = (grow, g1)"
    by fastforce
  obtain k g2 where z: "zero_or_one rs g1 = (k, g2)" by fastforce
  show ?case
  proof (cases grow)
    case True
    from stress_allocate [OF Suc.prems(1)] Suc.prems(2) obtain b bm1 where
      a: "allocate al bm = Inr (Ok b, bm1)" "b \<notin> set active" "stress_inv al before (b # active) bm1" by auto
    then show ?thesis using Suc.IH [OF a(3), of "Suc i" g1] Suc.prems(2) d True by (simp add: chain_def)
  next
    case False
    then have ne: "active \<noteq> []" using d by auto
    let ?b = "traverse i active ! (k mod length active)"
    have "?b \<in> set (traverse i active)" using visits_allD(2) [OF traverse] ne by (intro nth_mem) simp
    then have b: "?b \<in> set active" using visits_allD(1) [OF traverse] by blast
    from stress_release [OF Suc.prems(1) b] obtain bm1 where
      r: "deallocate al ?b bm = Inr (Ok (), bm1)" "stress_inv al before (remove1 ?b active) bm1" by blast
    have "length (remove1 ?b active) + n \<le> before" using Suc.prems(2) b by (simp add: length_remove1 Suc_le_eq)
    from Suc.IH [OF r(2) this, of "Suc i" g2] show ?thesis using r(1) d z False by (simp add: chain_def Let_def)
  qed
qed simp

lemma stress_on_ok:
  assumes wf: "wf_bm bm" and T: "bpb bm < 2 ^ 32" and cnt: "0 < block_cnt bm" "block_cnt bm < 2 ^ 64"
    and fits: "bitmap_blocks bm < 2 ^ 32" and n: "0 < n" "bitmap_blocks bm + n \<le> block_cnt bm"
    and traverse: "visits_all traverse"
  shows "\<exists>bm'. stress_on n rs traverse seed bm = Inr (Test_passed, bm')"
proof -
  let ?al = "allocator_for 0 bm"
  from new_block_allocator_ok [OF wf T cnt(1), of 0] n obtain bm1 where b:
    "new_block_allocator 0 True bm = Inr (?al, bm1)" "alloc_ok ?al bm1" "block_cnt bm1 = block_cnt bm"
    "\<forall>b < block_cnt bm. used ?al bm1 b \<longleftrightarrow> b < bitmap_blocks bm" by auto
  have free: "free_set ?al bm1 = {bitmap_blocks bm..<block_cnt bm}"
    using b(3,4) by (auto simp: free_set_def)
  have "0 < bitmap_blocks bm" using bitmap_blocks_bounds(1) [OF wf cnt(1)] .
  then have tb: "0 < total_bitmap_block ?al" using fits by (simp add: total_bitmap_block_def allocator_for_def)
  let ?before = "card (free_set ?al bm1)"
  have inv: "stress_inv ?al ?before [] bm1" using b(2) by (simp add: stress_inv_def)
  have "length [] + n \<le> ?before" using n free by simp
  from stress_loop_ok [OF traverse inv this, where rs = rs and i = 0 and g = seed] obtain active bm2 where l:
    "stress_loop ?al rs traverse n 0 seed [] bm1 = Inr (Some active, bm2)" "stress_inv ?al ?before active bm2"
    by blast
  have c: "free_block_cnt ?al bm1 = Inr (?before, bm1)" "free_block_cnt ?al bm2 = Inr (card (free_set ?al bm2), bm2)"
    using b(2) l(2) ba.count_free by (simp_all add: stress_inv_def)
  have "card (free_set ?al bm2) + length active = ?before" using l(2) by (simp add: stress_inv_def)
  moreover have "?before < 2 ^ 64" using free cnt(2) by simp
  ultimately show ?thesis
    using b(1) tb n(1) c l(1) by (simp add: stress_on_def new_block_allocator_at_start_def chain_def)
qed

text \<open>The device of the test: 32 blocks of bitmap for a million blocks.\<close>

definition stress_disk :: "(nat \<Rightarrow> byte) \<Rightarrow> block_manager" where
  "stress_disk junk = \<lparr>block_sz = 4096, block_cnt = 1048576, block_data = map junk [0..<4294967296], in_memory = True\<rparr>"

lemma stress_disk_geometry:
  "block_sz (stress_disk junk) = 4096" "block_cnt (stress_disk junk) = 1048576"
  "length (block_data (stress_disk junk)) = 4294967296"
  by (simp_all only: stress_disk_def block_manager.simps length_map length_upt diff_zero)

lemma stress_disk_layout: "wf_bm (stress_disk junk)" "bitmap_blocks (stress_disk junk) = 32"
  by (simp_all add: wf_bm_def bitmap_blocks_def stress_disk_geometry)

lemma new_memory_stress:
  "new_memory_manager stress_block_cnt stress_block_sz junk = Inr (stress_disk junk)"
proof -
  have "wrap64 (1048576 * 4096) = 4294967296" by (simp add: wrap64_def)
  moreover have "stress_block_cnt = 1048576" "stress_block_sz = 4096"
    by (simp_all add: stress_block_cnt_def stress_block_sz_def)
  ultimately show ?thesis
    unfolding new_memory_manager_def Let_def stress_disk_def by (simp only: if_True zero_less_numeral)
qed

end
