(* ===== verification/Device_Claims.thy ===== *)
theory Device_Claims
  imports Demo_States Stress_Test
begin

text \<open>
  Properties of the bitmap, the block device, the block iterator and the block allocator, with
  their witnesses. Each rests on the lemmas of its component's theory.
\<close>

subsection \<open>Bitmap\<close>

lemma clear_bits_list: "clear_bits d n = set (filter (\<lambda>k. \<not> bit_at d k) [0..<n])"
  by (auto simp: clear_bits_def)

text \<open>C34. The word-wise search for a free bit in a bitmap of less than 2^32 bits, with a bound inside the payload returns the least clear
  bit below the bound, and nothing if there is none. With a bound behind the payload it looks at the whole words
  of the payload and then at as many bits as the bound has over a multiple of 64: it returns the least clear bit
  among those in the payload; if all of them are set, it reports that there is none when none of the
  bits it would look at lies behind the payload, and ends in the assertion otherwise.\<close>

theorem search_least_clear:
  assumes "bitmap_ok b"
    and "m = (if n \<le> 8 * payload b then n else 8 * payload b div 64 * 64 + n mod 64)"
    and "c = clear_bits (bits b) (min m (8 * payload b))"
  shows "find_first_free_w_bound b n =
    (if c \<noteq> {} then Inr (Some (Min c)) else if m \<le> 8 * payload b then Inr None else Inl AssertFailed)"
proof (cases "first_clear (bits b) 0 (min m (8 * payload b))")
  case None
  then have "c = {}" using assms(3) by (auto simp: first_clear_None_iff clear_bits_def)
  then show ?thesis using None find_first_free_any [OF assms(1,2)] by simp
next
  case (Some k)
  then have k: "k \<in> c" "\<And>j. j \<in> c \<Longrightarrow> k \<le> j"
    using assms(3) by (auto simp: first_clear_Some_iff clear_bits_def not_less [symmetric])
  then have "Min c = k" using assms(3) by (intro Min_eqI) simp_all
  then show ?thesis using Some k(1) find_first_free_any [OF assms(1,2)] by auto
qed

lemma search_least_clear_witness:
  "find_first_free_w_bound \<lparr>bits = [255, 7, 0], payload = 3\<rparr> 20 = Inr (Some 11)
   \<and> find_first_free_w_bound \<lparr>bits = [255], payload = 1\<rparr> 20 = Inl AssertFailed"
proof -
  have f: "filter (\<lambda>k. \<not> bit_at [255, 7, 0] k) [0..<20] = [11..<20]" by code_simp
  have c: "clear_bits [255, 7, 0] 20 = {11..<20}" unfolding clear_bits_list f by (rule set_upt)
  have m: "Min {11..<20 :: nat} = 11" by (intro Min_eqI) simp_all
  have "filter (\<lambda>k. \<not> bit_at [255] k) [0..<8] = []" by code_simp
  then have d: "clear_bits [255] 8 = {}" unfolding clear_bits_list by simp
  show ?thesis
    using search_least_clear [of "\<lparr>bits = [255, 7, 0], payload = 3\<rparr>", OF _ refl refl, of 20]
      search_least_clear [of "\<lparr>bits = [255], payload = 1\<rparr>", OF _ refl refl, of 20] c d m by (simp add: bitmap_ok_def)
qed

text \<open>Setting or clearing a bit inside the payload succeeds, keeps the bitmap well formed and
  changes what \<open>check\<close> reports for this bit only; the assertion stops every access behind it.\<close>

theorem bit_update_exact:
  assumes ok: "bitmap_ok b"
  shows "if k < 8 * payload b
    then \<exists>b1 b0. bitmap_set b k = Inr b1 \<and> bitmap_clear b k = Inr b0 \<and> bitmap_ok b1 \<and> bitmap_ok b0
      \<and> (\<forall>j < 8 * payload b. bitmap_check b1 j = (if j = k then Inr True else bitmap_check b j)
          \<and> bitmap_check b0 j = (if j = k then Inr False else bitmap_check b j))
    else bitmap_set b k = Inl AssertFailed \<and> bitmap_clear b k = Inl AssertFailed
      \<and> bitmap_check b k = Inl AssertFailed"
proof (cases "k < 8 * payload b")
  case True
  have "length (bits b) = payload b" using ok by (simp add: bitmap_ok_def)
  moreover have "bitmap_ok (b\<lparr>bits := set_bit_at v (bits b) k\<rparr>)" for v using ok by (simp add: bitmap_ok_def)
  ultimately show ?thesis
    using True by (simp add: bitmap_set_ok [OF ok True] bitmap_clear_ok [OF ok True] bitmap_check_ok ok bit_set_bit_at)
next
  case False
  then show ?thesis
    using ok by (simp add: bitmap_set_def bitmap_clear_def bitmap_check_range bitmap_byte_def bitmap_limit_ok)
qed

subsection \<open>Block device\<close>

text \<open>After any sequence of block writes a read returns the data written last to that block,
  and of a block not written what it held before; the device stays well formed.\<close>

theorem reads_return_last_write:
  assumes wf: "wf_bm bm" and ws: "\<forall>(b, d) \<in> set ws. b < block_cnt bm \<and> length d = block_sz bm"
    and c: "c < block_cnt bm" and buf: "length buf = block_sz bm"
  shows "\<exists>bm'. write_blocks ws bm = Inr (Ok (), bm') \<and> wf_bm bm'
    \<and> read_block c buf bm' = Inr ((Ok (), case map_of (rev ws) c of Some d \<Rightarrow> d | None \<Rightarrow> blk bm c), bm')"
proof -
  have fit: "dev.cells.puts_fit bm ws" using ws by (auto simp: dev.cells.puts_fit_def)
  let ?bm = "dev.cells.put_all ws bm"
  have sz: "block_sz ?bm = block_sz bm" by (induction ws arbitrary: bm) auto
  have "wf_bm ?bm" "block_cnt ?bm = block_cnt bm" using dev.cells.put_all_ok [OF wf fit] by simp_all
  then show ?thesis
    using write_blocks_eq [OF wf fit] dev.cells.get_put_all [OF wf fit c] c buf sz
    by (auto simp: read_block_ok split: option.split)
qed

text \<open>C38. A device kept in a file of the default size comes back with the same blocks when the file
  is opened again, also if the file goes on behind its blocks by less than a block, which closing leaves as it is;
  a fresh file gives zeroed blocks; a device of any other size below 2^32 bytes can be created but
  fails the assertion when its file is opened again.\<close>

theorem device_file_reopens:
  assumes "wf_bm bm" and "block_sz bm = 4096" and "close_manager old bm = Some file" and "0 < block_cnt bm"
    and "length old < (block_cnt bm + 1) * 4096"
    and "block_cnt bm < 2 ^ 20" and "cnt = block_cnt bm"
  shows "file = block_data bm @ drop (cnt * 4096) old
    \<and> open_file_manager file cnt = (if cnt = KDefaultBlockCnt then Inr bm else Inl AssertFailed)
    \<and> open_file_manager [] cnt = Inr (bm\<lparr>block_data := replicate (cnt * 4096) 0\<rparr>)"
proof -
  let ?rest = "drop (cnt * 4096) old"
  have c: "cnt * 4096 < 2 ^ 32" "0 < cnt" "length ?rest < 4096" using assms by simp_all
  have fl: "\<not> in_memory bm" "file = block_data bm @ ?rest"
    using assms by (auto simp: close_manager_def wf_bm_def split: if_splits)
  show ?thesis
    using open_same_file [OF assms(1,2) _ fl(1) c(3)] open_other_size [OF assms(1,2,4,6) _ c(3)] open_fresh_file [of cnt]
      assms(2,7) c fl by auto
qed

lemma device_file_reopens_witness:
  "open_file_manager (replicate (2 * 4096) 7) 2 = Inl AssertFailed"
  using device_file_reopens [of "\<lparr>block_sz = 4096, block_cnt = 2, block_data = replicate (2 * 4096) 7, in_memory = False\<rparr>" "[]" _ 2]
  by (simp add: wf_bm_def KDefaultBlockCnt_def close_manager_def)

subsection \<open>Block iterator\<close>



subsection \<open>Block allocator\<close>

text \<open>C27. \<open>allocate\<close> takes the least free block and changes nothing else about which blocks are
  free; without a free block it reports \<open>OUT_OF_RESOURCE\<close> and leaves the device as it is.\<close>

theorem allocate_takes_least:
  assumes ok: "alloc_ok al bm"
  shows "if free_set al bm = {} then allocate al bm = Inr (Err OUT_OF_RESOURCE, bm)
    else \<exists>bm'. allocate al bm = Inr (Ok (Min (free_set al bm)), bm') \<and> alloc_ok al bm'
      \<and> free_set al bm' = free_set al bm - {Min (free_set al bm)}
      \<and> (\<forall>c < block_cnt bm. c < bitmap_block_id al \<or> bitmap_block_id al + bitmap_block_cnt al \<le> c
           \<longrightarrow> blk bm' c = blk bm c)"
proof (cases "free_set al bm = {}")
  case True
  then show ?thesis using ok by (simp add: ba.acquire_full)
next
  case False
  then have "Min (free_set al bm) \<in> free_set al bm" by simp
  then have m: "Min (free_set al bm) < block_cnt bm" by (simp add: free_set_def)
  have "allocate al bm = Inr (Ok (Min (free_set al bm)), mark al True (Min (free_set al bm)) bm)"
    using allocate_free [OF ok False] .
  then show ?thesis
    using False alloc_ok_mark [OF ok m] free_set_mark(1) [OF ok m] blk_mark_outside [OF ok m] by auto
qed

definition tiny_al :: block_allocator where "tiny_al = allocator_for 0 (tiny 5)"

definition tiny_dev :: block_manager where
  "tiny_dev = state_after (new_block_allocator 0 True (tiny 5))"

lemma tiny_dev_ok:
  "new_block_allocator 0 True (tiny 5) = Inr (tiny_al, tiny_dev)" "alloc_ok tiny_al tiny_dev"
  "block_cnt tiny_dev = 5" "free_set tiny_al tiny_dev = {1, 2, 3, 4}"
proof -
  have bb: "bitmap_blocks (tiny 5) = 1" by (simp add: bitmap_blocks_def tiny_layout)
  from new_block_allocator_ok [of "tiny 5" 0, folded tiny_al_def] obtain bm where b:
    "new_block_allocator 0 True (tiny 5) = Inr (tiny_al, bm)" "alloc_ok tiny_al bm" "block_cnt bm = 5"
    "\<forall>b < 5. used tiny_al bm b \<longleftrightarrow> b < 1"
    by (auto simp: bb tiny_layout)
  have d: "tiny_dev = bm" unfolding tiny_dev_def b(1) by simp
  have "free_set tiny_al bm = {1, 2, 3, 4}" using b(3,4) by (auto simp: free_set_def)
  then show "new_block_allocator 0 True (tiny 5) = Inr (tiny_al, tiny_dev)" "alloc_ok tiny_al tiny_dev"
    "block_cnt tiny_dev = 5" "free_set tiny_al tiny_dev = {1, 2, 3, 4}" using b by (simp_all add: d)
qed

lemma allocate_takes_least_witness:
  "\<exists>bm'. allocate tiny_al tiny_dev = Inr (Ok 1, bm') \<and> free_set tiny_al bm' = {2, 3, 4}"
  using allocate_takes_least [OF tiny_dev_ok(2)] by (auto simp: tiny_dev_ok(4))

text \<open>C28. \<open>deallocate\<close> frees exactly the given block if it is in use, refuses free blocks and ids
  behind the device without touching anything, and undoes the allocation before it.\<close>

theorem deallocate_exact:
  assumes ok: "alloc_ok al bm"
  shows "(if b < block_cnt bm \<and> b \<notin> free_set al bm
      then \<exists>bm'. deallocate al b bm = Inr (Ok (), bm') \<and> alloc_ok al bm'
        \<and> free_set al bm' = insert b (free_set al bm)
      else deallocate al b bm = Inr (Err INVALID_ARG, bm))
    \<and> (\<forall>r bm'. allocate al bm = Inr (Ok r, bm') \<longrightarrow> deallocate al r bm' = Inr (Ok (), bm))"
proof -
  have "deallocate al r bm' = Inr (Ok (), bm)" if a: "allocate al bm = Inr (Ok r, bm')" for r bm'
  proof (cases "free_set al bm = {}")
    case True
    then show ?thesis using a ba.acquire_full [OF ok] by simp
  next
    case False
    then show ?thesis using a ba.acquire_least [OF ok] by auto
  qed
  then show ?thesis
    using ba.release_used [OF ok, of b] ba.release_bad [OF ok, of b] by (auto simp: not_less)
qed

lemma deallocate_exact_witness:
  "deallocate tiny_al 3 tiny_dev = Inr (Err INVALID_ARG, tiny_dev)
   \<and> (\<exists>bm'. deallocate tiny_al 0 tiny_dev = Inr (Ok (), bm') \<and> free_set tiny_al bm' = {0, 1, 2, 3, 4})"
  using deallocate_exact [OF tiny_dev_ok(2), of 3] deallocate_exact [OF tiny_dev_ok(2), of 0]
  by (auto simp: tiny_dev_ok(3,4))

text \<open>\<open>free_block_cnt\<close> is the number of free blocks, whatever the number of bitmap blocks.\<close>

theorem free_block_cnt_exact:
  assumes "alloc_ok al bm"
  shows "free_block_cnt al bm = Inr (card (free_set al bm), bm)"
  by (rule ba.count_free [OF assms])

text \<open>C31. The initialising constructor leaves exactly the reserved blocks and its own bitmap blocks in
  use, changes no block but its bitmap, and the other constructor finds the same allocator again.\<close>

theorem allocator_construction:
  assumes wf: "wf_bm bm" and T: "8 * block_size bm < 2 ^ 32" and n: "0 < total_blocks bm"
    and fits: "base + bitmap_blocks bm \<le> total_blocks bm"
  shows "\<exists>al bm'. new_block_allocator base True bm = Inr (al, bm') \<and> alloc_ok al bm'
    \<and> free_set al bm' = {base + bitmap_blocks bm..<total_blocks bm}
    \<and> (\<forall>c < total_blocks bm. c < base \<or> base + bitmap_blocks bm \<le> c \<longrightarrow> blk bm' c = blk bm c)
    \<and> new_block_allocator base False bm' = Inr (al, bm')"
proof -
  let ?al = "allocator_for base bm"
  have T': "bpb bm < 2 ^ 32" and n': "0 < block_cnt bm" and f': "base + bitmap_blocks bm \<le> block_cnt bm"
    using T n fits by (simp_all add: block_size_def total_blocks_def)
  from new_block_allocator_ok [OF wf T' n' f'] obtain bm' where b:
    "new_block_allocator base True bm = Inr (?al, bm')" "alloc_ok ?al bm'"
    "block_sz bm' = block_sz bm" "block_cnt bm' = block_cnt bm"
    "\<forall>c < block_cnt bm. c < base \<or> base + bitmap_blocks bm \<le> c \<longrightarrow> blk bm' c = blk bm c"
    "\<forall>b < block_cnt bm. used ?al bm' b \<longleftrightarrow> b < base + bitmap_blocks bm" by blast
  have "free_set ?al bm' = {base + bitmap_blocks bm..<block_cnt bm}"
    using b(4,6) by (auto simp: free_set_def)
  moreover have same: "bitmap_blocks bm' = bitmap_blocks bm" "allocator_for base bm' = ?al"
    using b(3,4) by (simp_all add: bitmap_blocks_def allocator_for_def)
  have "new_block_allocator base False bm' = Inr (?al, bm')"
    using new_block_allocator_geometry [of bm' base False] b(2,3,4) T' n' f' same by simp
  ultimately show ?thesis using b by (auto simp: total_blocks_def)
qed

lemma allocator_construction_witness:
  "\<exists>al bm'. new_block_allocator 2 True (tiny 600) = Inr (al, bm') \<and> free_set al bm' = {4..<600}"
proof -
  have b: "bitmap_blocks (tiny 600) = 2" by (simp add: bitmap_blocks_def tiny_layout)
  show ?thesis
    using allocator_construction [of "tiny 600" 2, unfolded b] by (auto simp: tiny_layout block_size_def total_blocks_def)
qed

text \<open>Allocating \<open>n\<close> blocks in a row from a device with enough free ones gives distinct blocks in
  ascending order, all of them free before, and releasing them in any order makes the same blocks free.\<close>

theorem allocate_many_release_all:
  assumes ok: "alloc_ok al bm" and n: "n \<le> card (free_set al bm)"
  shows "\<exists>bs bm'. ba.acquire_many al n bm = Inr (Ok bs, bm') \<and> length bs = n \<and> sorted_wrt (<) bs
    \<and> set bs \<subseteq> free_set al bm \<and> free_set al bm' = free_set al bm - set bs
    \<and> (\<forall>cs. mset cs = mset bs \<longrightarrow>
         (\<exists>bm2. deallocate_all al cs bm' = Inr (Ok (), bm2) \<and> free_set al bm2 = free_set al bm))"
proof -
  from ba.acquire_many_ok [OF ok n] obtain bs bm' where b:
    "ba.acquire_many al n bm = Inr (Ok bs, bm')" "alloc_ok al bm'" "block_cnt bm' = block_cnt bm" "length bs = n"
    "sorted_wrt (<) bs" "set bs \<subseteq> free_set al bm" "free_set al bm' = free_set al bm - set bs" by blast
  have "\<exists>bm2. deallocate_all al cs bm' = Inr (Ok (), bm2) \<and> free_set al bm2 = free_set al bm"
    if m: "mset cs = mset bs" for cs
  proof -
    have s: "set cs = set bs" using m by (metis set_mset_mset)
    have "distinct bs" using b(5) by (simp add: strict_sorted_iff)
    then have "distinct cs" using m by (metis distinct_count_atmost_1 mset_eq_setD)
    moreover have "set cs \<subseteq> {..<block_cnt bm'} - free_set al bm'"
      using ba.free_bound [OF ok] b(3,6,7) s by auto
    ultimately obtain bm2 where "ba.release_all al cs bm' = Inr (Ok (), bm2)"
      "free_set al bm2 = free_set al bm' \<union> set cs"
      using ba.release_all_ok [OF b(2)] by blast
    moreover have "ba.release_all al cs s = deallocate_all al cs s" for s
      by (induction cs arbitrary: s) (simp_all add: chain_def on_ok_def split: sum.split chfs_result.split)
    ultimately show ?thesis using b(6,7) s by auto
  qed
  then show ?thesis using b by blast
qed

subsection \<open>Stress test\<close>

text \<open>C29. The stress test of the allocator always passes: whatever the random draws, whatever the order in
  which the set of active blocks is traversed and whatever the memory of the device held, no
  allocation fails or gives an active block, no release is refused, and the counts agree at the end.\<close>

theorem stress_test_passes:
  assumes traverse: "visits_all traverse"
  shows "\<exists>bm. StressTest1 rs traverse seed junk = Inr (Test_passed, bm)"
proof -
  have "\<exists>bm. stress_on 100000 rs traverse seed (stress_disk junk) = Inr (Test_passed, bm)"
    by (rule stress_on_ok [OF stress_disk_layout(1) _ _ _ _ _ _ traverse])
      (simp_all add: stress_disk_layout stress_disk_geometry)
  then show ?thesis by (simp add: StressTest1_def new_memory_stress)
qed

lemma stress_test_passes_witness:
  "\<exists>bm. StressTest1 \<lparr>below_threshold = (\<lambda>g. (g mod 10 < 7, (5 * g + 3) mod 1024)), zero_or_one = (\<lambda>g. (g mod 2, g + 1))\<rparr>
     (\<lambda>i. rev) (99 :: nat) (\<lambda>_. 170) = Inr (Test_passed, bm)"
  by (rule stress_test_passes) (simp add: visits_all_def)

end
