(* ===== verification/Inode_Claims.thy ===== *)
theory Inode_Claims
  imports Demo_States
begin

text \<open>
  Properties of the inode table, the inode bitmap, the inode blocks and the super block, with
  their witnesses.
\<close>

subsection \<open>The table\<close>

text \<open>After any sequence of \<open>set_table\<close> calls \<open>get\<close> finds under every id the block recorded last
  for it, and under the other ids what was there; no bit of the inode bitmap changes.\<close>

theorem table_keeps_last_entry:
  assumes ok: "im_ok im bm" and ws: "\<forall>(i, b) \<in> set ws. i < max_inode_supported im \<and> b < 2 ^ 64"
    and ino: "0 < ino" "ino \<le> max_inode_supported im"
  shows "\<exists>bm'. set_entries ws bm = Inr (Ok (), bm') \<and> im_ok im bm' \<and> ino_free im bm' = ino_free im bm
    \<and> im_get ino bm' = Inr (Ok (case map_of (rev ws) (LOGIC_2_RAW ino) of Some b \<Rightarrow> b | None \<Rightarrow> table bm (LOGIC_2_RAW ino)), bm')"
proof -
  have fit: "tbl.puts_fit im bm ws" using ws by (auto simp: tbl.puts_fit_def fits_u64_def)
  have ok': "im_ok im (tbl.put_all ws bm)" using tbl.put_all_ok [OF ok fit] by simp
  have "ino < 2 ^ 64" using ino(2) im_geometry(5) [OF ok] by (rule le_less_trans)
  then have r: "LOGIC_2_RAW ino = ino - 1" "ino - 1 < max_inode_supported im" using ino by (simp_all add: raw_id)
  have one: "ino_free im (upd_table i b bm) = ino_free im bm" if "im_ok im bm" "i < max_inode_supported im" for i b bm
    using that by (auto simp: ino_free_def ibit_upd_table)
  have bits: "im_ok im bm \<Longrightarrow> tbl.puts_fit im bm ws \<Longrightarrow> ino_free im (tbl.put_all ws bm) = ino_free im bm" for bm
    by (induction ws arbitrary: bm) (auto simp: tbl.puts_fit_put im_ok_upd_table one)
  show ?thesis
    unfolding r(1) using set_entries_eq [OF ok fit] im_get_ok [OF ok' ino] ok' bits [OF ok fit]
      tbl.get_put_all [OF ok fit r(2)] by auto
qed

definition tiny_im :: inode_manager where "tiny_im = inode_manager_of (tiny_fs 600)"

lemma tiny_im_ok: "im_ok tiny_im (tiny_new 600)" "max_inode_supported tiny_im = 512"
  "ino_free tiny_im (tiny_new 600) = {..<512}" "block_cnt (tiny_new 600) = 600"
proof -
  note t = tiny_new_ok [of 600, simplified]
  show m: "im_ok tiny_im (tiny_new 600)" using t(2) by (simp add: tiny_im_def)
  show s: "max_inode_supported tiny_im = 512" using tiny_layout(5) [of 600] by (simp add: tiny_im_def max_ino_def)
  show "ino_free tiny_im (tiny_new 600) = {..<512}"
    using t(3) tiny_layout(5) [of 600] by (auto simp: tiny_im_def ino_free_abs)
  from new_file_operation_ok [OF tiny_fits [of 600], of "\<lambda>_. 0"] obtain bm' where
    "new_file_operation 1 (\<lambda>_. 0) (tiny 600) = Inr (handles_for (tiny 600) 1, bm')" "block_cnt bm' = block_cnt (tiny 600)" by auto
  then show "block_cnt (tiny_new 600) = 600" unfolding tiny_new_def tiny_layout by simp
qed

subsection \<open>Inodes\<close>

text \<open>C32. \<open>allocate_inode\<close> gives the least free id, records the block under it, makes that block an
  empty inode of the type with all three times set, and changes no other entry; without a free id
  it reports \<open>OUT_OF_RESOURCE\<close> and changes nothing.\<close>

theorem allocate_inode_least:
  assumes ok: "im_ok im bm" and bid: "im_end im \<le> bid" "bid < block_cnt bm" and now: "now < 2 ^ 64"
  shows "if ino_free im bm = {} then allocate_inode im t bid now junk bm = Inr (Err OUT_OF_RESOURCE, bm)
    else \<exists>bm'. allocate_inode im t bid now junk bm = Inr (Ok (Suc (Min (ino_free im bm))), bm') \<and> im_ok im bm'
      \<and> ino_free im bm' = ino_free im bm - {Min (ino_free im bm)}
      \<and> (\<forall>j < max_inode_supported im. table bm' j = (if j = Min (ino_free im bm) then bid else table bm j))
      \<and> get_type_code (blk bm' bid) = type_code t \<and> get_size (blk bm' bid) = 0
      \<and> get_attr_of (blk bm' bid) = \<lparr>atime = now, mtime = now, ctime = now, fsize = 0\<rparr>
      \<and> (\<forall>c < block_cnt bm. im_end im \<le> c \<and> c \<noteq> bid \<longrightarrow> blk bm' c = blk bm c)"
proof (cases rule: allocate_inode_cases [OF ok bid(2) now, of t junk])
  case (2 i buf)
  have ne: "ino_free im bm \<noteq> {}" using 2(1) by blast
  have m: "Min (ino_free im bm) = i" using 2(1,2) by (intro Min_eqI) simp_all
  have i: "i < max_inode_supported im" using 2(1) by (simp add: ino_free_def)
  have len: "length buf = block_sz bm" using 2(3) by (simp add: fresh_inode_def ino_ok_def)
  note p = put_inode_ok [OF ok i bid len]
  have b: "blk (put_inode im i bid buf bm) bid = buf" using p(2) [OF bid(2)] bid(1) by simp
  have f: "ino_free im (put_inode im i bid buf bm) = ino_free im bm - {i}"
    using p(4) by (auto simp: ino_free_def split: if_splits)
  have g: "get_type_code buf = type_code t" "get_attr_of buf = \<lparr>atime = now, mtime = now, ctime = now, fsize = 0\<rparr>"
    using 2(3) by (simp_all add: fresh_inode_def)
  then have "get_size buf = 0" by (simp add: get_attr_of_def get_size_def)
  then show ?thesis using ne m 2(4) p(1-3) b f g by auto
qed simp

lemma allocate_inode_least_witness:
  "\<exists>bm'. allocate_inode tiny_im FILE 80 7 (\<lambda>_. 0) (tiny_new 600) = Inr (Ok 1, bm')
     \<and> get_type_code (blk bm' 80) = 1 \<and> table bm' 0 = 80"
proof -
  have e: "im_end tiny_im = 66" using tiny_layout(3) [of 600] by (simp add: tiny_im_def tiny_fs_def handles_for_def)
  have "0 \<in> {..<512 :: nat}" by simp
  then have m: "{..<512 :: nat} \<noteq> {}" by (metis empty_iff)
  have m0: "Min {..<512 :: nat} = 0" by (intro Min_eqI) simp_all
  show ?thesis
    using allocate_inode_least [OF tiny_im_ok(1), of 80 7 FILE "\<lambda>_. 0"]
    by (auto simp: tiny_im_ok e m m0)
qed

text \<open>C33. \<open>free_inode\<close> clears the entry and the bit of an id and nothing else; the count of free
  inodes follows.\<close>

theorem free_inode_exact:
  assumes ok: "im_ok im bm" and ino: "0 < ino" "ino < max_inode_supported im - 1" and used: "ino - 1 \<notin> ino_free im bm"
  shows "\<exists>bm'. free_inode im ino bm = Inr (Ok (), bm') \<and> im_ok im bm'
    \<and> ino_free im bm' = insert (ino - 1) (ino_free im bm)
    \<and> free_inode_cnt im bm' = Inr (Ok (Suc (card (ino_free im bm))), bm')
    \<and> (\<forall>j < max_inode_supported im. table bm' j = (if j = ino - 1 then 0 else table bm j))
    \<and> (\<forall>c < block_cnt bm. im_end im \<le> c \<longrightarrow> blk bm' c = blk bm c)"
proof -
  have i: "ino - 1 < max_inode_supported im" using ino by simp
  note d = drop_inode_ok [OF ok i]
  let ?bm = "drop_inode im (ino - 1) bm"
  have f: "ino_free im ?bm = insert (ino - 1) (ino_free im bm)"
    using d(4) i by (auto simp: ino_free_def split: if_splits)
  have "free_inode_cnt im ?bm = Inr (Ok (Suc (card (ino_free im bm))), ?bm)"
    using free_inode_cnt_ok [OF d(1)] f used by simp
  then show ?thesis using free_inode_ok [OF ok ino] d(1-3) f by auto
qed

lemma free_inode_exact_witness:
  "\<exists>bm'. free_inode (inode_manager_of demo_fs) 1 demo_root = Inr (Ok (), bm')
     \<and> ino_free (inode_manager_of demo_fs) bm' = {0..<8192}"
proof -
  let ?im = "inode_manager_of demo_fs"
  have "im_ok ?im demo_root" using demo_root_fs by simp
  moreover have "max_inode_supported ?im = 8192" using demo_max by (simp add: max_ino_def)
  moreover have u: "1 - 1 \<notin> ino_free ?im demo_root" by (simp add: demo_root_free(2))
  ultimately show ?thesis using free_inode_exact [of ?im demo_root 1] by (auto simp: demo_root_free(2))
qed

text \<open>The invalid id 0 is looked up like any other: its entry is taken from the end of block 0,
  the super block.\<close>

theorem id_zero_reads_super_block:
  assumes "wf_bm bm" and "0 < block_cnt bm" and "block_sz bm = 2 ^ k" and "6 \<le> k"
  shows "im_get KInvalidInodeID bm = Inr (Ok (get_le (blk bm 0) (block_sz bm - 8) 8), bm)"
  unfolding KInvalidInodeID_def by (rule im_get_zero [OF assms])

text \<open>C36. An inode written to a buffer reads back: type, times, size and largest file; iterating over
  its pointers from \<open>begin\<close> to \<open>end\<close> visits each of them once, all invalid.\<close>

theorem inode_reads_back:
  assumes "52 \<le> bs" and "8 * bs < 2 ^ 32" and "now < 2 ^ 64" and "length buffer = bs"
  shows "\<exists>h buf. new_inode t bs now = Inr h \<and> flush_to_buffer h buffer = Inr buf \<and> length buf = bs
    \<and> get_type_code buf = type_code t \<and> get_attr_of buf = \<lparr>atime = now, mtime = now, ctime = now, fsize = 0\<rparr>
    \<and> max_file_sz_supported buf = (bs div 8) * bs + ((bs - 44) div 8 - 1) * bs
    \<and> visit_slots ((bs - 44) div 8) buf inode_begin = Inr (replicate ((bs - 44) div 8) KInvalidBlockID)"
proof -
  from new_inode_ok [OF assms, of t] obtain h buf where n: "new_inode t bs now = Inr h"
    "flush_to_buffer h buffer = Inr buf" "ino_ok bs buf" "get_type_code buf = type_code t"
    "get_attr_of buf = \<lparr>atime = now, mtime = now, ctime = now, fsize = 0\<rparr>" "\<forall>j < nslots bs. slot buf j = 0" by blast
  have "map (slot buf) [0..<nslots bs] = replicate (nslots bs) KInvalidBlockID"
    using n(6) by (intro replicate_eqI) (auto simp: KInvalidBlockID_def)
  then have "visit_slots ((bs - 44) div 8) buf inode_begin = Inr (replicate ((bs - 44) div 8) KInvalidBlockID)"
    using visit_slots_ok [OF n(3), of 0 "nslots bs"] by (simp add: inode_begin_def nslots_def)
  then show ?thesis
    using n max_file_sz_ok [OF n(3)] by (auto simp: ino_ok_def max_size_def ndirect_def nslots_def)
qed

lemma inode_reads_back_witness:
  "\<exists>h buf. new_inode Directory 64 9 = Inr h \<and> flush_to_buffer h (replicate 64 5) = Inr buf
     \<and> get_type_code buf = 2 \<and> max_file_sz_supported buf = 576"
  using inode_reads_back [of 64 9 "replicate 64 5" Directory] by auto

subsection \<open>Super block\<close>

text \<open>C35. What the constructor of the super block flushes to block 0 is what \<open>create_from_existing\<close>
  reads from it, and no other block changes.\<close>

theorem super_block_comes_back:
  assumes wf: "wf_bm bm" and cnt: "0 < total_blocks bm" and bs: "32 \<le> block_size bm" and n: "n < 2 ^ 64"
  shows "\<exists>sb bm'. new_super_block bm n junk = Inr sb \<and> flush_super_block sb 0 bm = Inr (Ok (), bm')
    \<and> (\<exists>sb'. create_from_existing 0 bm' = Inr (Ok sb', bm') \<and> get_ninodes sb' = n
         \<and> sb_get_block_size sb' = block_size bm \<and> sb_get_nblocks sb' = total_blocks bm)
    \<and> (\<forall>c < total_blocks bm. c \<noteq> 0 \<longrightarrow> blk bm' c = blk bm c)"
proof -
  let ?im = "\<lparr>max_inode_supported = n, n_table_blocks = 0, n_bitmap_blocks = 0\<rparr>"
  have b: "0 < block_cnt bm" "32 \<le> block_sz bm" using cnt bs by (simp_all add: total_blocks_def block_size_def)
  from flush_super_block_ok [OF wf b n, of ?im junk] obtain sb d where
    f: "new_super_block bm n junk = Inr sb" "length d = block_sz bm"
       "flush_super_block sb 0 bm = Inr (Ok (), upd_blk 0 d bm)" "super_ok ?im (upd_blk 0 d bm)" by auto
  let ?bm = "upd_blk 0 d bm"
  have w: "wf_bm ?bm" using wf b f(2) by simp
  have "create_from_existing 0 ?bm = Inr (Ok (decode_super_block (take 32 (blk ?bm 0))), ?bm)"
    using create_from_existing_ok [OF w] b by simp
  moreover have "blk ?bm c = blk bm c" if "c < block_cnt bm" "c \<noteq> 0" for c
    using that blk_upd_blk [OF wf b(1) that(1) f(2)] by simp
  ultimately show ?thesis using f by (auto simp: super_ok_def Let_def total_blocks_def block_size_def get_ninodes_def
      sb_get_block_size_def sb_get_nblocks_def)
qed

lemma super_block_comes_back_witness:
  "\<exists>sb bm'. new_super_block (tiny 5) 512 (\<lambda>_. 3) = Inr sb \<and> flush_super_block sb 0 (tiny 5) = Inr (Ok (), bm')
     \<and> (\<exists>sb'. create_from_existing 0 bm' = Inr (Ok sb', bm') \<and> get_ninodes sb' = 512 \<and> sb_get_nblocks sb' = 5)"
  using super_block_comes_back [of "tiny 5" 512 "\<lambda>_. 3"] by (auto simp: tiny_layout total_blocks_def block_size_def)

end
