(* ===== verification/File_Claims.thy ===== *)
theory File_Claims
  imports Demo_States
begin

text \<open>
  Properties of the file operations over the abstract file system \<open>abs_fs\<close>, with their witnesses.
\<close>

subsection \<open>Making and mounting\<close>

text \<open>C14. On a device with room for the layout the constructor of \<open>FileOperation\<close> succeeds and
  leaves a sound file system without files, in which all blocks behind the bookkeeping and all
  inodes are free, as the two counting operations report.\<close>

theorem mkfs_sound_and_empty:
  assumes "fits_device bm n"
  shows "\<exists>fs bm'. new_file_operation n junk bm = Inr (fs, bm') \<and> fs_ok fs bm' \<and> abs_fs fs bm' = Map.empty
    \<and> n \<le> max_ino fs
    \<and> get_free_blocks_num fs bm' = Inr (Ok (total_blocks bm - data_lo (block_allocator_of fs)), bm')
    \<and> get_free_inode_num fs bm' = Inr (Ok (max_ino fs), bm')"
proof -
  from new_file_operation_ok [OF assms, of junk] obtain bm' where m:
    "new_file_operation n junk bm = Inr (handles_for bm n, bm')" "fs_ok (handles_for bm n) bm'"
    "abs_fs (handles_for bm n) bm' = Map.empty"
    "card (free_set (block_allocator_of (handles_for bm n)) bm') = block_cnt bm - (im_end (manager_for bm n) + bitmap_blocks bm)"
    "card (ino_free (manager_for bm n) bm') = max_inode_supported (manager_for bm n)" by blast
  have "n \<le> max_inode_supported (manager_for bm n)"
    using manager_for_ok(2) [of bm n] assms bitmap_blocks_bounds(1) [of bm]
    by (auto simp: fits_device_def simp del: manager_for_sel)
  then show ?thesis
    using m fs_counts [OF m(2)]
    by (intro exI [of _ "handles_for bm n"] exI [of _ bm'])
      (simp add: handles_for_def data_lo_def allocator_for_def max_ino_def total_blocks_def del: manager_for_sel)
qed

lemma mkfs_sound_and_empty_witness:
  "\<exists>fs bm'. new_file_operation 1 (\<lambda>_. 0) (tiny 600) = Inr (fs, bm') \<and> abs_fs fs bm' = Map.empty"
  using mkfs_sound_and_empty [OF tiny_fits [of 600], of "\<lambda>_. 0"] by auto

text \<open>C15. Mounting a device with a sound file system, whatever was done to it since it was made,
  gives back the handles it was made with and changes nothing.\<close>

theorem mount_finds_file_system:
  assumes "fs_ok fs bm"
  shows "create_from_raw bm = Inr (Ok fs, bm)"
  by (rule create_from_raw_ok [OF assms])

lemma mount_finds_file_system_witness: "create_from_raw demo_big = Inr (Ok demo_fs, demo_big)"
  by (rule mount_finds_file_system [OF demo_big_ok(1)])

subsection \<open>Reading and writing whole files\<close>

text \<open>C12. \<open>read_file\<close> returns exactly the abstract content of a file whose id can be read (\<open>visible\<close>) and an error for
  every other id, and leaves the device as it is. The invalid id 0, which the code does not refuse, is left out.\<close>

theorem read_file_refines:
  assumes "fs_ok fs bm" and "0 < ino"
  shows "read_file fs ino bm =
    Inr (case visible fs bm ino of None \<Rightarrow> Err INVALID_ARG | Some f \<Rightarrow> Ok (fdata f), bm)"
  by (rule attrs_visible(3) [OF assms])

lemma read_file_refines_witness:
  "read_file demo_fs 2 demo_big = Inr (Ok (replicate 124000 0), demo_big)"
proof -
  have "visible demo_fs demo_big 2 = Some big_node"
    using demo_file_entry(1) by (simp add: visible_Some demo_big_ok)
  then show ?thesis using read_file_refines [OF demo_big_ok(1), of 2] by (simp add: big_node_def)
qed

text \<open>C11. \<open>write_file\<close> on a file replaces its content, size and times and nothing else, and accounts
  for the blocks. A content that no inode can hold is refused. A content that does not fit the free
  blocks is refused too, with every file unchanged, but the call keeps all the blocks it took: no
  block is free afterwards. It always returns, with a sound file system.\<close>

theorem write_file_refines:
  assumes ok: "fs_ok fs bm" and f: "visible fs bm ino = Some f" and now: "now < 2 ^ 64"
  shows "\<exists>r bm'. write_file fs ino content now bm = Inr (r, bm') \<and> fs_ok fs bm'
    \<and> (if length content \<le> max_size (block_sz bm)
         \<and> blocks_for bm (length content) \<le> card (free_set (block_allocator_of fs) bm) + blocks_for bm (length (fdata f))
       then r = Ok () \<and> abs_fs fs bm' = (abs_fs fs bm)(ino \<mapsto> f\<lparr>fattr := stamped now (length content), fdata := content\<rparr>)
         \<and> card (free_set (block_allocator_of fs) bm') + blocks_for bm (length content)
           = card (free_set (block_allocator_of fs) bm) + blocks_for bm (length (fdata f))
       else r = Err OUT_OF_RESOURCE \<and> abs_fs fs bm' = abs_fs fs bm
         \<and> free_set (block_allocator_of fs) bm'
           = (if length content \<le> max_size (block_sz bm) then {} else free_set (block_allocator_of fs) bm))"
  using write_outcome [OF assms] by blast

lemma write_file_refines_witness:
  "\<exists>bm'. write_file demo_fs 2 [1, 2, 3] 9 demo_file = Inr (Ok (), bm') \<and> fs_ok demo_fs bm'
    \<and> abs_fs demo_fs bm' = (abs_fs demo_fs demo_file)(2 \<mapsto>
        \<lparr>ftype = type_code FILE, fattr = stamped 9 3, fdata = [1, 2, 3]\<rparr>)"
proof -
  have l: "length [1, 2, 3 :: byte] = 3" by simp
  have b: "blocks_for demo_file 3 = 1" "blocks_for demo_file 0 = 0"
    by (simp_all add: blocks_for_def demo_file_ok total_blks_def nblk_def ndirect_def nslots_def)
  have now: "(9 :: nat) < 2 ^ 64" by simp
  show ?thesis
    using write_file_refines [OF demo_file_fs demo_file_visible now, of "[1, 2, 3]", unfolded l b demo_file_ok max_size_1024]
    by (auto simp: new_file_def)
qed

text \<open>Write and read: after a successful \<open>write_file\<close> reading the file gives the written bytes and
  its attributes the new size and time, while the content and the attributes of every other file
  are what they were.\<close>

theorem write_then_read:
  assumes ok: "fs_ok fs bm" and ino: "0 < ino" and now: "now < 2 ^ 64"
    and w: "write_file fs ino content now bm = Inr (Ok (), bm')"
  shows "read_file fs ino bm' = Inr (Ok content, bm')
    \<and> getattr fs ino bm' = Inr (Ok \<lparr>atime = now, mtime = now, ctime = now, fsize = length content\<rparr>, bm')
    \<and> (\<forall>j. 0 < j \<and> j \<noteq> ino \<longrightarrow> (\<exists>r a. read_file fs j bm = Inr (r, bm) \<and> read_file fs j bm' = Inr (r, bm')
        \<and> getattr fs j bm = Inr (a, bm) \<and> getattr fs j bm' = Inr (a, bm')))"
proof -
  obtain f where f: "visible fs bm ino = Some f"
    using write_file_none [OF ok ino, of content now] w by (cases "visible fs bm ino") (auto simp: visible_None)
  from write_outcome [OF ok f now, of content] w have k: "fs_ok fs bm'"
    "abs_fs fs bm' = (abs_fs fs bm)(ino \<mapsto> f\<lparr>fattr := stamped now (length content), fdata := content\<rparr>)"
    by (auto split: if_splits)
  have v: "visible fs bm' ino = Some (f\<lparr>fattr := stamped now (length content), fdata := content\<rparr>)"
    using f k(2) by (simp add: visible_Some)
  have o: "visible fs bm' j = visible fs bm j" if "j \<noteq> ino" for j using that k(2) by (simp add: visible_def)
  show ?thesis
    using v o by (simp add: attrs_visible [OF k(1)] attrs_visible [OF ok] getattr_visible [OF k(1)] getattr_visible [OF ok]
        ino stamped_def)
qed

subsection \<open>Parts of a file\<close>

text \<open>C20. Writing at an offset of a file that can be read, the end of the part being below 2^64, puts the data there, keeps the other bytes, fills a gap behind the old
  end with zeros and never shortens the file. Without room it is refused and every file stays as it is; but if the
  content is one that an inode can hold, the call keeps the blocks it took, and none is free afterwards.\<close>

theorem write_at_offset:
  assumes ok: "fs_ok fs bm" and f: "visible fs bm ino = Some f" and now: "now < 2 ^ 64"
    and sz: "length data = sz" and wrap: "off + sz < 2 ^ 64"
  shows "\<exists>c r bm'. length c = max (length (fdata f)) (off + sz)
    \<and> (\<forall>i < length c. c ! i = (if off \<le> i \<and> i < off + sz then data ! (i - off)
         else if i < length (fdata f) then fdata f ! i else 0))
    \<and> write_file_w_off fs ino data sz off now bm = Inr (r, bm') \<and> fs_ok fs bm'
    \<and> (if length c \<le> max_size (block_sz bm)
         \<and> blocks_for bm (length c) \<le> card (free_set (block_allocator_of fs) bm) + blocks_for bm (length (fdata f))
       then r = Ok sz \<and> abs_fs fs bm' = (abs_fs fs bm)(ino \<mapsto> f\<lparr>fattr := stamped now (length c), fdata := c\<rparr>)
         \<and> card (free_set (block_allocator_of fs) bm') + blocks_for bm (length c)
           = card (free_set (block_allocator_of fs) bm) + blocks_for bm (length (fdata f))
       else r = Err OUT_OF_RESOURCE \<and> abs_fs fs bm' = abs_fs fs bm
         \<and> free_set (block_allocator_of fs) bm'
           = (if length c \<le> max_size (block_sz bm) then {} else free_set (block_allocator_of fs) bm))"
proof -
  let ?c = "spliced (fdata f) off data"
  have v: "usable fs ino" "abs_fs fs bm ino = Some f" using f by (simp_all add: visible_Some)
  from write_outcome [OF ok f now, of ?c] obtain r bm' where w: "write_file fs ino ?c now bm = Inr (r, bm')" "fs_ok fs bm'"
    "if length ?c \<le> max_size (block_sz bm)
         \<and> blocks_for bm (length ?c) \<le> card (free_set (block_allocator_of fs) bm) + blocks_for bm (length (fdata f))
       then r = Ok () \<and> abs_fs fs bm' = (abs_fs fs bm)(ino \<mapsto> f\<lparr>fattr := stamped now (length ?c), fdata := ?c\<rparr>)
         \<and> card (free_set (block_allocator_of fs) bm') + blocks_for bm (length ?c)
           = card (free_set (block_allocator_of fs) bm) + blocks_for bm (length (fdata f))
       else r = Err OUT_OF_RESOURCE \<and> abs_fs fs bm' = abs_fs fs bm
         \<and> free_set (block_allocator_of fs) bm'
           = (if length ?c \<le> max_size (block_sz bm) then {} else free_set (block_allocator_of fs) bm)" by blast
  let ?r = "case r of Ok _ \<Rightarrow> Ok sz | Err e \<Rightarrow> Err e"
  have "write_file_w_off fs ino data sz off now bm = Inr (?r, bm')"
    using write_file_w_off_eq [OF ok v sz wrap, of now] w(1) by (cases r) (simp_all add: chain_def)
  moreover have "\<forall>i < length ?c. ?c ! i = (if off \<le> i \<and> i < off + sz then data ! (i - off)
         else if i < length (fdata f) then fdata f ! i else 0)"
    using nth_spliced [of _ "fdata f" off data] sz by (auto simp: length_spliced)
  ultimately show ?thesis
    using w(2,3) sz by (intro exI [of _ ?c] exI [of _ ?r] exI [of _ bm']) (auto simp: length_spliced split: if_splits)
qed

lemma write_at_offset_witness:
  "\<exists>bm' c. write_file_w_off demo_fs 2 [1, 2] 2 3 9 demo_file = Inr (Ok 2, bm') \<and> length c = 5 \<and> c ! 0 = 0 \<and> c ! 4 = 2
    \<and> abs_fs demo_fs bm' 2 = Some \<lparr>ftype = type_code FILE, fattr = stamped 9 5, fdata = c\<rparr>"
proof -
  have p: "(9 :: nat) < 2 ^ 64" "length [1, 2 :: byte] = 2" "(3 :: nat) + 2 < 2 ^ 64" by simp_all
  from write_at_offset [OF demo_file_fs demo_file_visible p] obtain c r bm' where w:
    "length c = 5" "\<forall>i < 5. c ! i = (if 3 \<le> i \<and> i < 5 then [1, 2] ! (i - 3) else 0)"
    "write_file_w_off demo_fs 2 [1, 2] 2 3 9 demo_file = Inr (r, bm')"
    "if blocks_for demo_file 5 \<le> 16313 + blocks_for demo_file 0
     then r = Ok 2 \<and> abs_fs demo_fs bm' = (abs_fs demo_fs demo_file)(2 \<mapsto> new_file FILE 7\<lparr>fattr := stamped 9 5, fdata := c\<rparr>)
     else r = Err OUT_OF_RESOURCE \<and> abs_fs demo_fs bm' = abs_fs demo_fs demo_file"
    by (auto simp: demo_file_ok max_size_1024 new_file_def)
  have b: "blocks_for demo_file 5 = 1"
    by (simp add: blocks_for_def demo_file_ok total_blks_def nblk_def ndirect_def nslots_def)
  have "c ! 0 = 0" "c ! 4 = 2" using w(2) by (simp_all only: split: if_splits) simp_all
  then show ?thesis using w(1,3,4) b by (auto simp: new_file_def)
qed

text \<open>C21. Reading a part returns exactly those bytes; the code does not check the range, so a part
  that is not inside the file is an access outside the vector.\<close>

theorem read_at_offset:
  assumes ok: "fs_ok fs bm" and ino: "0 < ino"
  shows "read_file_w_off fs ino sz off bm = (case visible fs bm ino of None \<Rightarrow> Inr (Err INVALID_ARG, bm)
    | Some f \<Rightarrow> if off + sz \<le> length (fdata f) then Inr (Ok (take sz (drop off (fdata f))), bm) else Inl OutOfBounds)"
  using attrs_visible(3) [OF ok ino]
  by (simp add: read_file_w_off_def chain_def load_checked_def load_def split: option.split)

lemma read_at_offset_witness:
  "read_file_w_off demo_fs 2 3 100 demo_big = Inr (Ok [0, 0, 0], demo_big)
   \<and> read_file_w_off demo_fs 2 1 124000 demo_big = Inl OutOfBounds"
proof -
  have v: "visible demo_fs demo_big 2 = Some big_node" using demo_file_entry(1) by (simp add: visible_Some demo_big_ok)
  have d: "fdata big_node = replicate 124000 0" by (simp add: big_node_def)
  have "take 3 (drop 100 (replicate 124000 (0 :: byte))) = [0, 0, 0]"
    by (simp only: drop_replicate take_replicate) (simp add: numeral_3_eq_3)
  then show ?thesis
    using read_at_offset [OF demo_big_ok(1), of 2 3 100] read_at_offset [OF demo_big_ok(1), of 2 1 124000]
    by (simp add: v d)
qed

text \<open>C22. \<open>resize\<close> cuts the content or fills it up with zeros, and does not write at all if the size
  is already right.\<close>

theorem resize_cuts_or_fills:
  assumes ok: "fs_ok fs bm" and f: "visible fs bm ino = Some f" and now: "now < 2 ^ 64"
  shows "if length (fdata f) = sz then resize_file fs ino sz now bm = Inr (Ok (fattr f), bm)
    else \<exists>r bm'. resize_file fs ino sz now bm = Inr (r, bm') \<and> fs_ok fs bm'
      \<and> (if sz \<le> max_size (block_sz bm)
           \<and> blocks_for bm sz \<le> card (free_set (block_allocator_of fs) bm) + blocks_for bm (length (fdata f))
         then r = Ok (fattr f\<lparr>fsize := sz\<rparr>)
           \<and> abs_fs fs bm' = (abs_fs fs bm)(ino \<mapsto> f\<lparr>fattr := stamped now sz,
                 fdata := take sz (fdata f) @ replicate (sz - length (fdata f)) 0\<rparr>)
         else r = Err OUT_OF_RESOURCE \<and> abs_fs fs bm' = abs_fs fs bm)"
  by (rule resize_outcome [OF assms])

lemma resize_cuts_or_fills_witness:
  "\<exists>bm'. resize_file demo_fs 2 3 9 demo_file = Inr (Ok (stamped 7 3), bm')
    \<and> abs_fs demo_fs bm' 2 = Some \<lparr>ftype = type_code FILE, fattr = stamped 9 3, fdata = replicate 3 0\<rparr>"
proof -
  have now: "(9 :: nat) < 2 ^ 64" by simp
  have b: "blocks_for demo_file 3 = 1" "blocks_for demo_file 0 = 0"
    by (simp_all add: blocks_for_def demo_file_ok total_blks_def nblk_def ndirect_def nslots_def)
  have n: "length (fdata (new_file FILE 7)) = 0" "(0 :: nat) \<noteq> 3" by (simp_all add: new_file_def)
  show ?thesis
    using resize_cuts_or_fills [OF demo_file_fs demo_file_visible now, of 3, unfolded n(1) b demo_file_ok max_size_1024] n(2)
    by (auto simp: new_file_def stamped_def)
qed

subsection \<open>Creating and removing\<close>

text \<open>C19. \<open>alloc_inode\<close> creates an empty file under the least free id at the cost of one block. With
  no inode left it reports \<open>OUT_OF_RESOURCE\<close> but loses the block it took; with no block left the
  unchecked \<open>unwrap\<close> throws.\<close>

theorem alloc_inode_outcomes:
  assumes ok: "fs_ok fs bm" and now: "now < 2 ^ 64"
  shows "if free_set (block_allocator_of fs) bm = {} then alloc_inode fs t now junk bm = Inl UncaughtThrow
    else \<exists>r bm'. alloc_inode fs t now junk bm = Inr (r, bm') \<and> fs_ok fs bm'
      \<and> card (free_set (block_allocator_of fs) bm') + 1 = card (free_set (block_allocator_of fs) bm)
      \<and> (let free_ids = {ino. 0 < ino \<and> ino \<le> max_ino fs \<and> abs_fs fs bm ino = None} in
         if free_ids = {} then r = Err OUT_OF_RESOURCE \<and> abs_fs fs bm' = abs_fs fs bm
         else r = Ok (Min free_ids) \<and> abs_fs fs bm' = (abs_fs fs bm)(Min free_ids \<mapsto> new_file t now))"
proof (cases "free_set (block_allocator_of fs) bm = {}")
  case True
  then show ?thesis using alloc_inode_no_block [OF ok] by simp
next
  case False
  let ?I = "ino_free (inode_manager_of fs) bm" and ?J = "{ino. 0 < ino \<and> ino \<le> max_ino fs \<and> abs_fs fs bm ino = None}"
  have J: "?J = Suc ` ?I" using gr0_conv_Suc by (auto simp: ino_free_abs image_iff Suc_le_eq)
  have c: "0 < card (free_set (block_allocator_of fs) bm)" using False by (simp add: card_gt_0_iff)
  show ?thesis
  proof (cases "?I = {}")
    case True
    then show ?thesis
      using False J c alloc_inode_no_inode(1) [OF ok False True now, of t junk] alloc_inode_no_inode(2-4) [OF ok False True now]
      by (simp add: Let_def)
  next
    case False': False
    have m: "Min ?J = Suc (Min ?I)" unfolding J using False' by (intro mono_Min_commute [symmetric]) (simp_all add: mono_def)
    from alloc_inode_ok [OF ok False False' now, of t junk] obtain bm' where
      "alloc_inode fs t now junk bm = Inr (Ok (Suc (Min ?I)), bm')" "fs_ok fs bm'"
      "abs_fs fs bm' = (abs_fs fs bm)(Suc (Min ?I) \<mapsto> new_file t now)"
      "card (free_set (block_allocator_of fs) bm') + 1 = card (free_set (block_allocator_of fs) bm)" by metis
    then show ?thesis using False False' J unfolding Let_def m by auto
  qed
qed

lemma alloc_inode_outcomes_witness:
  "alloc_inode (tiny_fs 67) FILE 7 (\<lambda>_. 0) (tiny_new 67) = Inl UncaughtThrow
   \<and> (\<exists>bm'. alloc_inode (tiny_fs 600) FILE 7 (\<lambda>_. 0) tiny_no_inode = Inr (Err OUT_OF_RESOURCE, bm')
        \<and> card (free_set (block_allocator_of (tiny_fs 600)) bm') = 19)"
proof -
  have now: "(7 :: nat) < 2 ^ 64" by simp
  note t = tiny_new_ok [of 67, simplified]
  have "bitmap_blocks (tiny 67) = 1" by (simp add: bitmap_blocks_def tiny_layout)
  then have e: "free_set (block_allocator_of (tiny_fs 67)) (tiny_new 67) = {}" using t(4) by simp
  have ne: "free_set (block_allocator_of (tiny_fs 600)) tiny_no_inode \<noteq> {}" using tiny_no_inode_ok(3) by auto
  have "{i. i < 512 \<and> abs_fs (tiny_fs 600) tiny_no_inode (Suc i) = None} = {}"
    using tiny_no_inode_ok(2) by (simp add: ino_free_abs tiny_layout)
  then have "{ino. 0 < ino \<and> ino \<le> max_ino (tiny_fs 600) \<and> abs_fs (tiny_fs 600) tiny_no_inode ino = None} = {}"
    using gr0_conv_Suc by (auto simp: tiny_layout Suc_le_eq)
  then show ?thesis
    using alloc_inode_outcomes [OF t(2) now, of FILE "\<lambda>_. 0"] alloc_inode_outcomes [OF tiny_no_inode_ok(1) now, of FILE "\<lambda>_. 0"]
      e ne tiny_no_inode_ok(3) by auto
qed

text \<open>C18. \<open>remove_file\<close> removes a file that its inode's direct pointers cover and gives back all its
  blocks; a larger file stops the program, since the buffer for its indirect block is empty.\<close>

theorem remove_file_outcomes:
  assumes ok: "fs_ok fs bm" and f: "visible fs bm ino = Some f"
  shows "if needs_indirect bm f then remove_file fs ino bm = Inl OutOfBounds
    else \<exists>bm'. remove_file fs ino bm = Inr (Ok (), bm') \<and> fs_ok fs bm' \<and> abs_fs fs bm' = (abs_fs fs bm)(ino := None)
      \<and> card (free_set (block_allocator_of fs) bm')
        = card (free_set (block_allocator_of fs) bm) + blocks_for bm (length (fdata f)) + 1"
proof -
  have v: "usable fs ino" "abs_fs fs bm ino = Some f" using f by (simp_all add: visible_Some)
  show ?thesis
  proof (cases "needs_indirect bm f")
    case True
    then show ?thesis using remove_file_indirect [OF ok v] by (simp add: needs_indirect_def)
  next
    case False
    then have "length (fdata f) \<le> ndirect (block_sz bm) * block_sz bm" by (simp add: needs_indirect_def)
    from remove_file_ok [OF ok v this] False show ?thesis by (metis (no_types))
  qed
qed

lemma remove_file_outcomes_witness:
  "remove_file demo_fs 2 demo_big = Inl OutOfBounds
   \<and> (\<exists>bm'. remove_file demo_fs 2 demo_file = Inr (Ok (), bm') \<and> abs_fs demo_fs bm' 2 = None
       \<and> card (free_set (block_allocator_of demo_fs) bm') = 16314)"
proof -
  have v: "visible demo_fs demo_big 2 = Some big_node" using demo_file_entry(1) by (simp add: visible_Some demo_big_ok)
  have n: "needs_indirect demo_big big_node" "\<not> needs_indirect demo_file (new_file FILE 7)"
    by (simp_all add: needs_indirect_def demo_big_ok demo_file_ok big_node_def new_file_def ndirect_def nslots_def)
  have b: "blocks_for demo_file (length (fdata (new_file FILE 7))) = 0"
    by (simp add: new_file_def blocks_for_def total_blks_def nblk_def)
  show ?thesis
    using remove_file_outcomes [OF demo_big_ok(1) v] remove_file_outcomes [OF demo_file_fs demo_file_visible] n b
    by (auto simp: demo_file_ok)
qed

end
