(* ===== verification/Directory_Claims.thy ===== *)
theory Directory_Claims
  imports Demo_States
begin

text \<open>
  Properties of the directory text and of the directory operations, with their witnesses.
\<close>

subsection \<open>The text of a directory\<close>

text \<open>C25. A list of entries with clean names (no \<open>:\<close>, no \<open>/\<close>) and 64-bit ids survives
  \<open>dir_list_to_string\<close> and \<open>parse_directory\<close>, through the bytes of a file.\<close>

theorem directory_round_trip:
  assumes "\<forall>e \<in> set es. entry_ok e" and "length es < 2 ^ 32"
  shows "parse_directory junk (text_of (bytes_of (dir_list_to_string es))) = es"
  using assms by (simp add: dir_list_to_string_text parse_directory_text)

lemma directory_round_trip_witness:
  "parse_directory 9 (text_of (bytes_of (dir_list_to_string [\<lparr>ename = ''a.txt'', eid = 17\<rparr>, \<lparr>ename = '''', eid = 0\<rparr>])))
   = [\<lparr>ename = ''a.txt'', eid = 17\<rparr>, \<lparr>ename = '''', eid = 0\<rparr>]"
  by (rule directory_round_trip) (simp_all add: entry_ok_def clean_name_def colon_def slash_def)

text \<open>C26. On printed directories of proper entries and less than 2^32 characters, \<open>append_to_directory\<close> adds one
  entry at the end, if its name has no slash and no colon and its id is below 2^64, and
  \<open>rm_from_directory\<close> removes the entries of that name and keeps the others in order.\<close>

theorem directory_text_updates:
  assumes ok: "\<forall>e \<in> set es. entry_ok e" and len: "length (dir_list_to_string es) < 2 ^ 32" "length es < 2 ^ 32 - 1"
    and name: "clean_name name" and i: "i < 2 ^ 64"
  shows "parse_directory junk (append_to_directory (dir_list_to_string es) name i) = es @ [\<lparr>ename = name, eid = i\<rparr>]
    \<and> rm_from_directory junk (dir_list_to_string es) old = dir_list_to_string (filter (\<lambda>e. ename e \<noteq> old) es)"
proof -
  have n: "length es < 2 ^ 32" "length (filter (\<lambda>e. ename e \<noteq> old) es) < 2 ^ 32"
    using len(2) length_filter_le [of "\<lambda>e. ename e \<noteq> old" es] by linarith+
  have "\<forall>e \<in> set (es @ [\<lparr>ename = name, eid = i\<rparr>]). entry_ok e" using ok name i by (auto simp: entry_ok_def)
  then show ?thesis
    using n len(1) rm_from_directory_text [OF ok, of junk old]
    by (simp add: dir_list_to_string_text append_to_directory_text parse_directory_text)
qed

lemma directory_text_updates_witness:
  "parse_directory 9 (append_to_directory (dir_list_to_string [\<lparr>ename = ''a'', eid = 2\<rparr>]) ''b'' 3)
     = [\<lparr>ename = ''a'', eid = 2\<rparr>, \<lparr>ename = ''b'', eid = 3\<rparr>]
   \<and> rm_from_directory 9 (dir_list_to_string [\<lparr>ename = ''a'', eid = 2\<rparr>]) ''a'' = ''''"
proof -
  have "dir_text [\<lparr>ename = ''a'', eid = 2\<rparr>] = ''a:2''" by code_simp
  then have "dir_list_to_string [\<lparr>ename = ''a'', eid = 2\<rparr>] = ''a:2''"
    using dir_list_to_string_text [of "[\<lparr>ename = ''a'', eid = 2\<rparr>]"] by simp
  then have l: "length (dir_list_to_string [\<lparr>ename = ''a'', eid = 2\<rparr>]) < 2 ^ 32" by simp
  have e: "dir_list_to_string [] = ''''" by (simp add: dir_list_to_string_def)
  show ?thesis
    using directory_text_updates [of "[\<lparr>ename = ''a'', eid = 2\<rparr>]" "''b''" 3 9 "''a''", OF _ l] e
    by (simp add: entry_ok_def clean_name_def colon_def slash_def)
qed

subsection \<open>Lookup\<close>

subsection \<open>Creation\<close>

lemma demo_file_dir:
  "dir_id (abs_fs demo_fs demo_file) 1" "dir_entries demo_fs demo_file 1 = Some [\<lparr>ename = ''f'', eid = 2\<rparr>]"
proof -
  note D = dir_atD [OF demo_file_ok(2)]
  show p: "dir_id (abs_fs demo_fs demo_file) 1" using D(3) demo_file_ok(4) by (auto simp: dir_id_def split: option.split)
  have "visible demo_fs demo_file 1 = Some (the (abs_fs demo_fs demo_file 1))" using D(2,3) unfolding visible_Some by blast
  moreover have "entries_of (the (abs_fs demo_fs demo_file 1)) = [\<lparr>ename = ''f'', eid = 2\<rparr>]"
    using parse_directory_text [OF D(5), of 0] D(4) by (simp add: entries_of_def del: dir_text.simps)
  ultimately show "dir_entries demo_fs demo_file 1 = Some [\<lparr>ename = ''f'', eid = 2\<rparr>]" by (simp add: dir_entries_def)
qed

text \<open>C16. Creating a new clean name, with room for the entry, gives the least free id an empty file of
  the type, appends the entry, is found by \<open>lookup\<close> afterwards and leaves all other names and
  files as they were.\<close>

theorem create_adds_entry:
  assumes d: "dir_at fs bm p f es" and new: "name \<notin> ename ` set es" and now: "env_now ev < 2 ^ 64"
    and clean: "clean_name name"
    and i: "ino_free (inode_manager_of fs) bm \<noteq> {}" and b: "free_set (block_allocator_of fs) bm \<noteq> {}"
    and i0: "i0 = Suc (Min (ino_free (inode_manager_of fs) bm))"
    and sz: "length (dir_text (es @ [\<lparr>ename = name, eid = i0\<rparr>])) \<le> max_size (block_sz bm)"
    and room: "blocks_for bm (length (dir_text (es @ [\<lparr>ename = name, eid = i0\<rparr>])))
               < card (free_set (block_allocator_of fs) bm) + blocks_for bm (length (dir_text es))"
  shows "\<exists>bm' f'. mk_helper ev fs p name t bm = Inr (Ok i0, bm')
    \<and> dir_at fs bm' p f' (es @ [\<lparr>ename = name, eid = i0\<rparr>]) \<and> ftype f' = ftype f \<and> abs_fs fs bm i0 = None
    \<and> abs_fs fs bm' = (abs_fs fs bm)(i0 \<mapsto> new_file t (env_now ev), p \<mapsto> f')
    \<and> lookup ev fs p name bm' = Inr (Ok i0, bm')
    \<and> (\<forall>other r. other \<noteq> name \<and> lookup ev fs p other bm = Inr (r, bm) \<longrightarrow> lookup ev fs p other bm' = Inr (r, bm'))"
proof -
  from mk_helper_ok [OF d new now clean i sz [unfolded i0] room [unfolded i0] b, of t, folded i0] obtain bm' f' where m:
    "mk_helper ev fs p name t bm = Inr (Ok i0, bm')" "dir_at fs bm' p f' (es @ [\<lparr>ename = name, eid = i0\<rparr>])"
    "ftype f' = ftype f" "abs_fs fs bm i0 = None"
    "abs_fs fs bm' = (abs_fs fs bm)(i0 \<mapsto> new_file t (env_now ev), p \<mapsto> f')" by blast
  then show ?thesis
    by (intro exI [of _ bm'] exI [of _ f']) (simp add: lookup_ok [OF m(2)] lookup_ok [OF d] find_entry_snoc [OF new])
qed

lemma create_adds_entry_witness:
  "\<exists>bm'. mk_helper demo_env demo_fs 1 ''f'' FILE demo_root = Inr (Ok 2, bm') \<and> lookup demo_env demo_fs 1 ''f'' bm' = Inr (Ok 2, bm')"
proof -
  have sz: "length (dir_text [\<lparr>ename = ''f'', eid = 2\<rparr>]) = 3" by (simp only: demo_text) simp
  have bf: "blocks_for demo_root 3 = 1" "blocks_for demo_root 0 = 0"
    by (simp_all add: blocks_for_def demo_root_ok total_blks_def nblk_def ndirect_def nslots_def)
  have p: "''f'' \<notin> ename ` set []" "env_now demo_env < 2 ^ 64" "clean_name ''f''"
    "ino_free (inode_manager_of demo_fs) demo_root \<noteq> {}"
    "2 = Suc (Min (ino_free (inode_manager_of demo_fs) demo_root))"
    "length (dir_text ([] @ [\<lparr>ename = ''f'', eid = 2\<rparr>])) \<le> max_size (block_sz demo_root)"
    "blocks_for demo_root (length (dir_text ([] @ [\<lparr>ename = ''f'', eid = 2\<rparr>])))
      < card (free_set (block_allocator_of demo_fs) demo_root) + blocks_for demo_root (length (dir_text []))"
    by (simp_all only: append_Nil sz demo_root_ok max_size_1024 demo_root_free(3) dir_text.simps(1) list.size bf)
      (simp_all add: clean_name_def colon_def slash_def demo_root_free(2))
  show ?thesis
    using create_adds_entry [OF demo_root_dir p(1-4) demo_root_free(1) p(5-7), of FILE] by blast
qed



text \<open>C40. A name with a colon can be created, but the entry comes back under the part before the
  colon: looking the name up fails right after its creation.\<close>

theorem colon_names_get_lost:
  assumes d: "dir_at fs bm p f es" and new: "name \<notin> ename ` set es" and now: "env_now ev < 2 ^ 64"
    and name: "colon \<in> set name" "slash \<notin> set name"
    and i: "ino_free (inode_manager_of fs) bm \<noteq> {}" and b: "free_set (block_allocator_of fs) bm \<noteq> {}"
    and i0: "i0 = Suc (Min (ino_free (inode_manager_of fs) bm))"
    and str: "str = append_to_directory (dir_text es) name i0"
    and sz: "length str \<le> max_size (block_sz bm)"
    and room: "blocks_for bm (length str) < card (free_set (block_allocator_of fs) bm) + blocks_for bm (length (dir_text es))"
  shows "\<exists>bm'. mk_helper ev fs p name t bm = Inr (Ok i0, bm') \<and> lookup ev fs p name bm' = Inr (Err NotExist, bm')"
proof -
  have len: "length (fdata f) = length (dir_text es)" using dir_atD(4) [OF d] by simp
  from mk_helper_cases [OF d new now b i, of t, folded i0 str] sz room len obtain bm' where m:
    "fs_ok fs bm'" "mk_helper ev fs p name t bm = Inr (Ok i0, bm')"
    "abs_fs fs bm' = written_fs ((abs_fs fs bm)(i0 \<mapsto> new_file t (env_now ev))) p f (env_later ev) (bytes_of str)" by auto
  let ?f = "f\<lparr>fattr := stamped (env_later ev) (length (bytes_of str)), fdata := bytes_of str\<rparr>"
  have f': "abs_fs fs bm' p = Some ?f" unfolding m(3) by (rule written_fs_same)
  have "fdata ?f = bytes_of (append_to_directory (dir_text es) name i0)" unfolding str by simp
  from lookup_after_colon [OF d new name m(1) f' this]
  have "lookup ev fs p name bm' = Inr (Err NotExist, bm')" .
  then show ?thesis using m(2) by blast
qed

lemma colon_names_get_lost_witness:
  "\<exists>bm'. mk_helper demo_env demo_fs 1 ''a:b'' FILE demo_root = Inr (Ok 2, bm')
     \<and> lookup demo_env demo_fs 1 ''a:b'' bm' = Inr (Err NotExist, bm')"
proof -
  have tx: "append_to_directory (dir_text []) ''a:b'' 2 = ''a:b:2''" by code_simp
  have sz: "length ''a:b:2'' = (5 :: nat)" by simp
  have bf: "blocks_for demo_root 5 = 1" "blocks_for demo_root 0 = 0"
    by (simp_all add: blocks_for_def demo_root_ok total_blks_def nblk_def ndirect_def nslots_def)
  have p: "''a:b'' \<notin> ename ` set []" "env_now demo_env < 2 ^ 64" "colon \<in> set ''a:b''" "slash \<notin> set ''a:b''"
    "ino_free (inode_manager_of demo_fs) demo_root \<noteq> {}"
    "2 = Suc (Min (ino_free (inode_manager_of demo_fs) demo_root))"
    "length ''a:b:2'' \<le> max_size (block_sz demo_root)"
    "blocks_for demo_root (length ''a:b:2'')
      < card (free_set (block_allocator_of demo_fs) demo_root) + blocks_for demo_root (length (dir_text []))"
    unfolding sz demo_root_ok max_size_1024 demo_root_free(3) dir_text.simps(1) bf
    by (simp_all add: colon_def slash_def demo_root_free(2) bf)
  show ?thesis
    by (rule colon_names_get_lost [OF demo_root_dir p(1-5) demo_root_free(1) p(6) tx [symmetric] p(7,8)])
qed

subsection \<open>Removal\<close>

text \<open>C17. \<open>unlink\<close> of a name that stands for a file covered by direct pointers removes the file, gives
  back its blocks and takes exactly this name out of the directory. A missing name, a name for an
  unreadable inode and a directory are refused with nothing changed; a larger file stops the
  program.\<close>

theorem unlink_outcomes:
  assumes ok: "daemon_ok fs bm" and p: "dir_id (abs_fs fs bm) p" and f: "visible fs bm p = Some f"
    and now: "env_now ev < 2 ^ 64"
  shows "case find_entry name (entries_of f) of
      Err _ \<Rightarrow> unlink ev fs p name bm = Inr (Err NotExist, bm)
    | Ok tid \<Rightarrow> (case visible fs bm tid of
        None \<Rightarrow> unlink ev fs p name bm = Inr (Err INVALID_ARG, bm)
      | Some g \<Rightarrow>
          if ftype g = type_code Directory then unlink ev fs p name bm = Inr (Err NotEmpty, bm)
          else if needs_indirect bm g then unlink ev fs p name bm = Inl OutOfBounds
          else \<exists>bm' f'. unlink ev fs p name bm = Inr (Ok (), bm')
            \<and> dir_at fs bm' p f' (filter (\<lambda>e. ename e \<noteq> name) (entries_of f)) \<and> ftype f' = ftype f
            \<and> abs_fs fs bm' = (abs_fs fs bm)(tid := None, p \<mapsto> f')
            \<and> card (free_set (block_allocator_of fs) bm) + blocks_for bm (length (fdata g)) + 1
              \<le> card (free_set (block_allocator_of fs) bm'))"
proof (cases "find_entry name (entries_of f)")
  case (Err e)
  then have "name \<notin> ename ` set (entries_of f)" by (metis is_ok.simps(2) is_ok_find_entry)
  then show ?thesis using Err unlink_missing [OF visible_dir(1) [OF ok p f]] by simp
next
  case (Ok tid)
  note vd = visible_dir [OF ok p f]
  have t: "0 < tid" using find_entry_pos [OF Ok, of "\<lambda>i. 0 < i"] vd(2) by blast
  show ?thesis
  proof (cases "visible fs bm tid")
    case None
    then show ?thesis
      using Ok lookup_ok [OF vd(1)] attrs_visible(2) [OF daemon_okD(1) [OF ok] t] by (simp add: unlink_def chain_def)
  next
    case (Some g)
    then have v: "usable fs tid" "abs_fs fs bm tid = Some g" by (simp_all add: visible_Some)
    consider (dir) "ftype g = type_code Directory" | (big) "ftype g \<noteq> type_code Directory" "needs_indirect bm g"
      | (small) "ftype g \<noteq> type_code Directory" "\<not> needs_indirect bm g" by blast
    then show ?thesis
    proof cases
      case dir
      then show ?thesis using Ok Some unlink_directory [OF vd(1) Ok v] by simp
    next
      case big
      then show ?thesis using Ok Some unlink_big_file [OF vd(1) Ok v] by (simp add: needs_indirect_def)
    next
      case small
      then have "p \<noteq> tid" "length (fdata g) \<le> ndirect (block_sz bm) * block_sz bm"
        using vd(4) f Some by (auto simp: needs_indirect_def)
      from unlink_ok [OF vd(1) Ok this(1) v small(1) this(2) now vd(3)] show ?thesis
        using Ok Some small by auto
    qed
  qed
qed

lemma unlink_outcomes_witness:
  "\<exists>bm'. unlink demo_env demo_fs 1 ''f'' demo_file = Inr (Ok (), bm') \<and> abs_fs demo_fs bm' 2 = None"
proof -
  have f: "visible demo_fs demo_file 1 = Some (the (abs_fs demo_fs demo_file 1))"
    "entries_of (the (abs_fs demo_fs demo_file 1)) = [\<lparr>ename = ''f'', eid = 2\<rparr>]"
    using demo_file_dir(2) by (auto simp: dir_entries_def visible_def split: if_splits)
  have n: "\<not> needs_indirect demo_file (new_file FILE 7)" "ftype (new_file FILE 7) \<noteq> type_code Directory"
    by (simp_all add: needs_indirect_def new_file_def)
  have now: "env_now demo_env < 2 ^ 64" by simp
  from unlink_outcomes [OF demo_file_daemon demo_file_dir(1) f(1) now, of "''f''", unfolded f(2)]
  show ?thesis using n demo_file_visible by auto
qed

end
