(* ===== verification/Logger.thy ===== *)
theory Logger
  imports Fuse_Daemon
begin

text \<open>
  The log file of the daemon (src/daemons/single\_node\_fs/logger.h): the text written so far. Every
  \<open>operator<<\<close> writes one line and flushes it, so the file is at all times what has been logged. A
  null pointer instead of the file is \<open>None\<close>.
\<close>

record logger =
  logfile :: "string option"

definition newline :: string where "newline = [CHR 0x0A]"

text \<open>The constructor, given whether \<open>fopen\<close> succeeds; without a file it aborts. Mode \<open>w\<close> empties an
  old file.\<close>

definition new_logger :: "bool \<Rightarrow> logger option" where
  "new_logger opened = (if opened then Some \<lparr>logfile = Some ''''\<rparr> else None)"

text \<open>\<open>fprintf\<close> with the format \<open>%s\<close> and a newline writes up to the first zero byte.\<close>

definition log_line :: "string \<Rightarrow> logger \<Rightarrow> logger" where
  "log_line msg lg = (case logfile lg of None \<Rightarrow> lg | Some t \<Rightarrow> lg\<lparr>logfile := Some (t @ c_str msg @ newline)\<rparr>)"

text \<open>The three operators: for C strings, for \<open>std::string\<close>, and for numbers through \<open>std::to_string\<close>.\<close>

definition log_chars :: "string \<Rightarrow> logger \<Rightarrow> logger" where
  "log_chars msg lg = log_line msg lg"

definition log_string :: "string \<Rightarrow> logger \<Rightarrow> logger" where
  "log_string msg lg = log_line msg lg"

definition log_number :: "nat \<Rightarrow> logger \<Rightarrow> logger" where
  "log_number n lg = log_line (inode_id_to_string n) lg"

definition log_message :: "string \<Rightarrow> logger \<Rightarrow> logger" where
  "log_message message lg = log_chars newline (log_string message lg)"

definition close_logger :: "logger \<Rightarrow> logger" where
  "close_logger lg = lg"

text \<open>What \<open>UNIMPLEMENTED()\<close> logs before it aborts; name of the function, file and line are the
  compiler's.\<close>

definition unimplemented :: "string \<Rightarrow> string \<Rightarrow> nat \<Rightarrow> logger \<Rightarrow> logger" where
  "unimplemented func file line lg =
     log_chars newline (log_number line (log_chars '':'' (log_chars file (log_chars '' at '' (log_chars func
       (log_chars ''Unimplemented function of chfs: '' lg))))))"

subsection \<open>Lines\<close>

definition lines_text :: "string list \<Rightarrow> string" where
  "lines_text ls = concat (map (\<lambda>l. c_str l @ newline) ls)"

lemma lines_text_simps [simp]:
  "lines_text [] = ''''" "lines_text (l # ls) = c_str l @ newline @ lines_text ls"
  "lines_text (ls @ ms) = lines_text ls @ lines_text ms"
  by (simp_all add: lines_text_def)

lemma log_line_text: "logfile lg = Some (lines_text ls) \<Longrightarrow> logfile (log_line msg lg) = Some (lines_text (ls @ [msg]))"
  by (simp add: log_line_def)

lemma unimplemented_text:
  "logfile lg = Some (lines_text ls) \<Longrightarrow> logfile (unimplemented func file line lg) = Some (lines_text (ls @
     [''Unimplemented function of chfs: '', func, '' at '', file, '':'', inode_id_to_string line, newline]))"
  by (simp add: unimplemented_def log_chars_def log_number_def log_line_def)

lemma log_message_text:
  "logfile lg = Some (lines_text ls) \<Longrightarrow> logfile (log_message msg lg) = Some (lines_text (ls @ [msg, newline]))"
  by (simp add: log_message_def log_chars_def log_string_def log_line_def)

text \<open>Two lines for one message: the newline is logged like a line of its own.\<close>

lemma log_message_blank: "c_str msg = msg \<Longrightarrow> logfile (log_message msg \<lparr>logfile = Some ''''\<rparr>) = Some (msg @ newline @ newline @ newline)"
  by (simp add: log_message_def log_chars_def log_string_def log_line_def c_str_def newline_def)

end
