(* ===== verification/Daemon_Main.thy ===== *)
theory Daemon_Main
  imports Logger Daemon_Spec
begin

text \<open>
  The process of the daemon from \<open>main\<close> to its end (src/daemons/single\_node\_fs/main.cc): the checks
  before the start, the arguments for libfuse, the mount, the session and the exit status.

  The operating system and libfuse are the parameter \<open>host\<close>: the user ids, whether the log file can be
  opened, what \<open>fuse_parse_cmdline\<close> and \<open>fuse_mount\<close> make of the arguments, whether
  \<open>fuse_lowlevel_new\<close> succeeds, the requests that \<open>fuse_session_loop\<close> takes from the kernel one after
  the other and hands to the table of handlers, and its result. Of the process, the log file
  and the calls that others see are kept (\<open>event\<close>); console output is not. A process that ends
  keeps nothing mounted for the others to use, but the mount stays in the system until \<open>fuse_unmount\<close>.
\<close>

subsection \<open>The process\<close>

datatype event = Mounted "string option" | Replied reply | Session_destroyed | Unmounted "string option"

record process =
  events :: "event list"
  log :: logger

datatype process_end = Exited int | Aborted | Crashed crash

record host =
  uid :: nat
  euid :: nat
  log_opens :: bool
  on_apple :: bool
  parse_cmdline :: "string option list \<Rightarrow> string option list option"
  mounts :: "string option \<Rightarrow> string option list \<Rightarrow> string option list option"
  makes_session :: "string option list \<Rightarrow> bool"
  requests :: "(env \<times> request) list"
  loop_result :: int
  site :: "request \<Rightarrow> string \<times> string \<times> nat"

definition emit :: "event \<Rightarrow> process \<Rightarrow> process" where
  "emit e p = p\<lparr>events := events p @ [e]\<rparr>"

text \<open>\<open>usage\<close> never returns, so what follows its calls is not reached.\<close>

definition usage :: process_end where
  "usage = Aborted"

definition pre_process :: "host \<Rightarrow> process_end option" where
  "pre_process h = (if uid h = 0 \<or> euid h = 0 then Some usage else None)"

text \<open>\<open>argv\<close> ends with a null pointer.\<close>

definition argv_at :: "string list \<Rightarrow> nat \<Rightarrow> string option" where
  "argv_at argv n = (if n < length argv then Some (argv ! n) else None)"

definition fuse_argv :: "bool \<Rightarrow> string list \<Rightarrow> string option list" where
  "fuse_argv apple argv =
     [argv_at argv 0]
     @ (if apple then map Some [''-o'', ''nolocalcaches'', ''-o'', ''daemon_timeout=86400''] else [])
     @ [argv_at argv 1, Some ''-d'']"

text \<open>The session: every request goes to its handler, until one ends the process or there are none left.\<close>

fun serve ::
    "libfuse \<Rightarrow> host \<Rightarrow> file_operation \<Rightarrow> (env \<times> request) list \<Rightarrow> block_manager \<Rightarrow> process
     \<Rightarrow> (process_end + block_manager) \<times> process" where
  "serve lf h fs [] bm p = (Inr bm, p)"
| "serve lf h fs ((ev, r) # rs) bm p = (case handle lf ev fs r bm of
     Inl c \<Rightarrow> (Inl (Crashed c),
       if c = Unimplemented
       then (case site h r of (func, file, line) \<Rightarrow> p\<lparr>log := unimplemented func file line (log p)\<rparr>) else p)
   | Inr (rep, bm') \<Rightarrow> serve lf h fs rs bm' (emit (Replied rep) p))"

definition bootstrap_daemon ::
    "libfuse \<Rightarrow> host \<Rightarrow> string list \<Rightarrow> env \<Rightarrow> process \<Rightarrow> (process_end + int) \<times> process" where
  "bootstrap_daemon lf h argv ev p = (case parse_cmdline h (fuse_argv (on_apple h) argv) of
     None \<Rightarrow> (Inr 0, p)
   | Some args \<Rightarrow> (case mounts h (argv_at argv 1) args of
       None \<Rightarrow> (Inl (Exited 1), p)
     | Some args' \<Rightarrow>
         (let p1 = emit (Mounted (argv_at argv 1)) p
          in case bootstrap_fuse ev of
               Inl c \<Rightarrow> (Inl (Crashed c), p1)
             | Inr (None, bm) \<Rightarrow> (Inl (Exited 1), p1)
             | Inr (Some fs, bm) \<Rightarrow>
                 if \<not> makes_session h args' then (Inl (Exited 1), p1)
                 else (case serve lf h fs (requests h) bm p1 of
                     (Inl e, p2) \<Rightarrow> (Inl e, p2)
                   | (Inr bm', p2) \<Rightarrow>
                       (Inr (loop_result h), emit (Unmounted (argv_at argv 1)) (emit Session_destroyed p2))))))"

text \<open>The log is opened before \<open>main\<close> starts.\<close>

definition main_process :: "libfuse \<Rightarrow> host \<Rightarrow> string list \<Rightarrow> env \<Rightarrow> process_end \<times> process" where
  "main_process lf h argv ev = (case new_logger (log_opens h) of
     None \<Rightarrow> (Aborted, \<lparr>events = [], log = \<lparr>logfile = None\<rparr>\<rparr>)
   | Some lg \<Rightarrow>
       (case pre_process h of
          Some e \<Rightarrow> (e, \<lparr>events = [], log = lg\<rparr>)
        | None \<Rightarrow>
            (case bootstrap_daemon lf h argv ev \<lparr>events = [], log = log_chars (''CHFS FUSE log started'' @ newline) lg\<rparr> of
               (Inl e, p) \<Rightarrow> (e, p)
             | (Inr ret, p) \<Rightarrow> (if ret \<noteq> 0 then usage else Exited ret, p))))"

subsection \<open>Sessions of the specification\<close>

text \<open>The replies to a sequence of requests, and where it ends.\<close>

fun spec_serve :: "libfuse \<Rightarrow> (env \<times> request) list \<Rightarrow> world \<Rightarrow> reply list \<times> spec_state" where
  "spec_serve lf [] w = ([], Up w)"
| "spec_serve lf ((ev, r) # rs) w = (case spec_handle lf (env_now ev) (env_later ev) r w of
     Inl c \<Rightarrow> ([], Down c)
   | Inr (rep, w') \<Rightarrow> (case spec_serve lf rs w' of (reps, s) \<Rightarrow> (rep # reps, s)))"

text \<open>Requests that the kernel's checks let through, one after the other.\<close>

fun admissible :: "libfuse \<Rightarrow> (env \<times> request) list \<Rightarrow> world \<Rightarrow> bool" where
  "admissible lf [] w = True"
| "admissible lf ((ev, r) # rs) w = (request_ok (files w) r \<and> env_now ev < 2 ^ 64
     \<and> (case spec_handle lf (env_now ev) (env_later ev) r w of Inl c \<Rightarrow> True | Inr (rep, w') \<Rightarrow> admissible lf rs w'))"

definition initial_world :: "nat \<Rightarrow> world" where
  "initial_world now = \<lparr>files = [1 \<mapsto> new_file Directory now], room = 16315, block_bytes = 1024, id_limit = 8192\<rparr>"

lemma bootstrap_world:
  assumes now: "env_now ev < 2 ^ 64"
  shows "\<exists>fs bm. bootstrap_fuse ev = Inr (Some fs, bm) \<and> daemon_ok fs bm \<and> world_of fs bm = initial_world (env_now ev)"
proof -
  have "max_ino (handles_for (disk junk) 1024) = 8192" for junk
    by (simp add: handles_for_def max_ino_def disk_layout)
  then show ?thesis using bootstrap_ok [OF now] by (auto simp: world_of_def initial_world_def)
qed

subsection \<open>What the process does\<close>

lemma emit_simps [simp]: "events (emit e p) = events p @ [e]" "log (emit e p) = log p"
  by (simp_all add: emit_def)

text \<open>A session is a session of the specification.\<close>

lemma serve_refines:
  assumes lf: "sizes_agree lf"
  shows "daemon_ok fs bm \<Longrightarrow> admissible lf rs (world_of fs bm) \<Longrightarrow> spec_serve lf rs (world_of fs bm) = (reps, s) \<Longrightarrow>
    events (snd (serve lf h fs rs bm p)) = events p @ map Replied reps
    \<and> (case s of
         Up w \<Rightarrow> (\<exists>bm'. serve lf h fs rs bm p = (Inr bm', p\<lparr>events := events p @ map Replied reps\<rparr>)
                  \<and> daemon_ok fs bm' \<and> world_of fs bm' = w)
       | Down c \<Rightarrow> fst (serve lf h fs rs bm p) = Inl (Crashed c))"
proof (induction rs arbitrary: bm p reps)
  case (Cons x rs)
  obtain ev r where x: "x = (ev, r)" by fastforce
  have adm: "request_ok (abs_fs fs bm) r" "env_now ev < 2 ^ 64" using Cons.prems(2) x by simp_all
  note sim = handle_sim [OF Cons.prems(1) adm lf, unfolded refine.sim_def]
  show ?case
  proof (cases "spec_handle lf (env_now ev) (env_later ev) r (world_of fs bm)")
    case (Inl c)
    then show ?thesis using sim Cons.prems(3) x by (auto split: prod.split)
  next
    case (Inr y)
    then obtain rep bm' where h: "handle lf ev fs r bm = Inr (rep, bm')" "daemon_ok fs bm'"
      "spec_handle lf (env_now ev) (env_later ev) r (world_of fs bm) = Inr (rep, world_of fs bm')"
      using sim by (cases y) auto
    obtain reps' where r': "spec_serve lf rs (world_of fs bm') = (reps', s)" "reps = rep # reps'"
      using Cons.prems(3) x h(3) by (auto split: prod.splits)
    have "admissible lf rs (world_of fs bm')" using Cons.prems(2) x h(3) by simp
    from Cons.IH [OF h(2) this r'(1), of "emit (Replied rep) p"] show ?thesis
      using x h(1) r'(2) by (cases s) (auto simp: emit_def)
  qed
qed auto

text \<open>A host that lets the daemon come up.\<close>

definition ready :: "host \<Rightarrow> string list \<Rightarrow> bool" where
  "ready h argv \<longleftrightarrow> log_opens h \<and> uid h \<noteq> 0 \<and> euid h \<noteq> 0
     \<and> (case parse_cmdline h (fuse_argv (on_apple h) argv) of None \<Rightarrow> False
        | Some args \<Rightarrow> (case mounts h (argv_at argv 1) args of None \<Rightarrow> False | Some args' \<Rightarrow> makes_session h args'))"

lemma readyD:
  assumes "ready h argv"
  shows "log_opens h" and "pre_process h = None"
    and "\<exists>args args'. parse_cmdline h (fuse_argv (on_apple h) argv) = Some args
      \<and> mounts h (argv_at argv 1) args = Some args' \<and> makes_session h args'"
  using assms by (auto simp: ready_def pre_process_def split: option.splits)

lemma main_serves:
  assumes r: "ready h argv" and now: "env_now ev < 2 ^ 64" and lf: "sizes_agree lf"
    and adm: "admissible lf (requests h) (initial_world (env_now ev))"
    and sp: "spec_serve lf (requests h) (initial_world (env_now ev)) = (reps, s)"
  shows "fst (main_process lf h argv ev) = (case s of
       Down c \<Rightarrow> Crashed c | Up w \<Rightarrow> if loop_result h = 0 then Exited 0 else Aborted)
    \<and> events (snd (main_process lf h argv ev)) = Mounted (argv_at argv 1) # map Replied reps
       @ (case s of Down c \<Rightarrow> [] | Up w \<Rightarrow> [Session_destroyed, Unmounted (argv_at argv 1)])"
proof -
  from bootstrap_world [OF now] obtain fs bm where b: "bootstrap_fuse ev = Inr (Some fs, bm)" "daemon_ok fs bm"
    "world_of fs bm = initial_world (env_now ev)" by blast
  obtain args args' where a: "parse_cmdline h (fuse_argv (on_apple h) argv) = Some args"
    "mounts h (argv_at argv 1) args = Some args'" "makes_session h args'" using readyD(3) [OF r] by blast
  note m = main_process_def new_logger_def readyD(1,2) [OF r] bootstrap_daemon_def a b(1) usage_def Let_def
  note sv = serve_refines [OF lf b(2), unfolded b(3), OF adm sp]
  let ?p = "emit (Mounted (argv_at argv 1))
    \<lparr>events = [], log = log_chars (''CHFS FUSE log started'' @ newline) \<lparr>logfile = Some ''''\<rparr>\<rparr>"
  show ?thesis
  proof (cases s)
    case (Up w)
    from sv [of h ?p, unfolded Up] obtain bm' where
      "serve lf h fs (requests h) bm ?p = (Inr bm', ?p\<lparr>events := events ?p @ map Replied reps\<rparr>)" by auto
    then show ?thesis unfolding Up by (simp add: m del: One_nat_def)
  next
    case (Down c)
    have "fst (serve lf h fs (requests h) bm ?p) = Inl (Crashed c)"
      "events (snd (serve lf h fs (requests h) bm ?p)) = events ?p @ map Replied reps"
      using sv [of h ?p] Down by auto
    then obtain p2 where "serve lf h fs (requests h) bm ?p = (Inl (Crashed c), p2)"
      "events p2 = events ?p @ map Replied reps" by (metis prod.collapse)
    then show ?thesis unfolding Down by (simp add: m del: One_nat_def)
  qed
qed

text \<open>All requests of a session are answered.\<close>

fun survives :: "libfuse \<Rightarrow> file_operation \<Rightarrow> (env \<times> request) list \<Rightarrow> block_manager \<Rightarrow> bool" where
  "survives lf fs [] bm = True"
| "survives lf fs ((ev, r) # rs) bm = (case handle lf ev fs r bm of Inl c \<Rightarrow> False | Inr (rep, bm') \<Rightarrow> survives lf fs rs bm')"

lemma serve_survives:
  "if survives lf fs rs bm then \<exists>bm' p'. serve lf h fs rs bm p = (Inr bm', p')
   else \<exists>c p'. serve lf h fs rs bm p = (Inl (Crashed c), p')"
  by (induction rs arbitrary: bm p) (auto split: sum.splits prod.splits)

lemma serve_events:
  "\<exists>reps. events (snd (serve lf h fs rs bm p)) = events p @ map Replied reps"
proof (induction rs arbitrary: bm p)
  case (Cons x rs)
  obtain ev r where x: "x = (ev, r)" by fastforce
  show ?case
  proof (cases "handle lf ev fs r bm")
    case (Inr y)
    obtain rep bm' where y: "y = (rep, bm')" by fastforce
    obtain reps where "events (snd (serve lf h fs rs bm' (emit (Replied rep) p)))
      = events (emit (Replied rep) p) @ map Replied reps" using Cons.IH by blast
    then show ?thesis using Inr x y by (intro exI [of _ "rep # reps"]) simp
  qed (auto simp: x split: prod.split)
qed (simp add: exI [of _ "[]"])

lemma main_ends:
  assumes boot: "bootstrap_fuse ev = Inr (Some fs, bm)"
  shows "fst (main_process lf h argv ev) = Exited 0 \<longleftrightarrow>
      log_opens h \<and> uid h \<noteq> 0 \<and> euid h \<noteq> 0 \<and>
      (parse_cmdline h (fuse_argv (on_apple h) argv) = None
       \<or> ready h argv \<and> survives lf fs (requests h) bm \<and> loop_result h = 0)" (is ?status)
    and "\<forall>n. fst (main_process lf h argv ev) = Exited n \<longrightarrow> n = 0 \<or> n = 1" (is ?codes)
    and "(\<exists>m. Mounted m \<in> set (events (snd (main_process lf h argv ev)))
           \<and> Unmounted m \<notin> set (events (snd (main_process lf h argv ev)))) \<longleftrightarrow>
       (\<exists>c. fst (main_process lf h argv ev) = Crashed c)
       \<or> fst (main_process lf h argv ev) = Exited 1 \<and>
         (\<exists>args. parse_cmdline h (fuse_argv (on_apple h) argv) = Some args \<and> mounts h (argv_at argv 1) args \<noteq> None)"
      (is ?left)
proof -
  note m = main_process_def new_logger_def pre_process_def bootstrap_daemon_def boot usage_def ready_def Let_def
  have "?status \<and> ?codes \<and> ?left"
  proof (cases "ready h argv")
    case False
    then show ?thesis by (auto simp: m simp del: One_nat_def split: option.splits)
  next
    case True
    then obtain args args' where a: "parse_cmdline h (fuse_argv (on_apple h) argv) = Some args"
      "mounts h (argv_at argv 1) args = Some args'" "makes_session h args'" using readyD(3) by blast
    let ?p = "emit (Mounted (argv_at argv 1))
      \<lparr>events = [], log = log_chars (''CHFS FUSE log started'' @ newline) \<lparr>logfile = Some ''''\<rparr>\<rparr>"
    obtain reps where e: "events (snd (serve lf h fs (requests h) bm ?p)) = events ?p @ map Replied reps"
      using serve_events by blast
    show ?thesis
    proof (cases "survives lf fs (requests h) bm")
      case s: True
      then obtain bm' p' where "serve lf h fs (requests h) bm ?p = (Inr bm', p')" using serve_survives [of lf fs _ bm h ?p] by (metis (full_types))
      then show ?thesis using s True e a by (auto simp: m simp del: One_nat_def)
    next
      case s: False
      then obtain c p' where "serve lf h fs (requests h) bm ?p = (Inl (Crashed c), p')" using serve_survives [of lf fs _ bm h ?p] by (metis (full_types))
      then show ?thesis using s True e a by (auto simp: m simp del: One_nat_def)
    qed
  qed
  then show ?status ?codes ?left by blast+
qed

end
