(* ===== verification/Daemon_Promises.thy ===== *)
theory Daemon_Promises
  imports Daemon_Spec
begin

text \<open>
  What a client of the daemon can rely on, read off its specification: the kind of reply each request
  can get (\<open>reply_fits\<close>), and what a request that fails leaves behind.
\<close>

subsection \<open>Kinds of replies\<close>

text \<open>The two kinds of files there are, with their permissions and link counts.\<close>

definition regular_stat :: "stat \<Rightarrow> bool" where
  "regular_stat st \<longleftrightarrow> st_mode st = (S_IFREG OR 438) \<and> st_nlink st = 1"

definition directory_stat :: "stat \<Rightarrow> bool" where
  "directory_stat st \<longleftrightarrow> st_mode st = (S_IFDIR OR 511) \<and> st_nlink st = 2"

definition known_stat :: "stat \<Rightarrow> bool" where
  "known_stat st \<longleftrightarrow> regular_stat st \<or> directory_stat st"

fun attr_reply :: "(stat \<Rightarrow> bool) \<Rightarrow> reply \<Rightarrow> bool" where
  "attr_reply P (Reply_attr st) = P st"
| "attr_reply P _ = False"

fun is_entry :: "(stat \<Rightarrow> bool) \<Rightarrow> reply \<Rightarrow> bool" where
  "is_entry P (Reply_entry i st) = (0 < i \<and> P st)"
| "is_entry P _ = False"

fun data_reply :: "nat \<Rightarrow> reply \<Rightarrow> bool" where
  "data_reply n (Reply_buf b) = (length b \<le> n)"
| "data_reply n _ = False"

definition error_reply :: "int list \<Rightarrow> reply \<Rightarrow> bool" where
  "error_reply es rep \<longleftrightarrow> rep \<in> Reply_err ` set es"

lemma error_reply_iff [simp]: "error_reply es (Reply_err e) \<longleftrightarrow> e \<in> set es"
  by (auto simp: error_reply_def)

fun reply_fits :: "request \<Rightarrow> reply \<Rightarrow> bool" where
  "reply_fits (Getattr i) rep = (attr_reply known_stat rep \<or> error_reply [ENOENT] rep)"
| "reply_fits (Lookup p name) rep = (is_entry known_stat rep \<or> error_reply [ENOENT, -1] rep)"
| "reply_fits (Readdir i sz off) rep = (data_reply (unat sz) rep \<or> error_reply [ENOTDIR] rep)"
| "reply_fits (Read i sz off) rep = (data_reply (unat sz) rep \<or> error_reply [-1] rep)"
| "reply_fits (Write i buf sz off) rep = (rep = Reply_write (length buf) \<or> error_reply [ENOSYS] rep)"
| "reply_fits (Setattr i sz to_set) rep = (attr_reply known_stat rep \<or> error_reply [ENOSYS] rep)"
| "reply_fits (Open i) rep = (rep = Reply_open)"
| "reply_fits (Mknod p name) rep = (is_entry regular_stat rep \<or> error_reply [EEXIST, ENOENT, -1] rep)"
| "reply_fits (Mkdir p name) rep = (is_entry directory_stat rep \<or> error_reply [EEXIST, ENOSYS, -1] rep)"
| "reply_fits (Unlink p name) rep = error_reply [0, ENOENT, ENOTEMPTY, ENOSYS] rep"
| "reply_fits _ rep = False"

lemma stat_of_known:
  "known_stat (stat_of f)"
  "ftype f = type_code FILE \<Longrightarrow> regular_stat (stat_of f)"
  "ftype f = type_code Directory \<Longrightarrow> directory_stat (stat_of f)"
  by (simp_all add: known_stat_def regular_stat_def directory_stat_def stat_of_def)

text \<open>A created file has the type asked for.\<close>

lemma find_free:
  "find (\<lambda>i. files w i = None) [1..<Suc n] = Some i \<Longrightarrow> files w i = None \<and> 0 < i \<and> i \<le> n"
  by (auto simp: find_Some_iff simp del: upt_Suc)

lemma spec_put_files:
  "spec_put now i c w = Inr (r, w') \<Longrightarrow> id_limit w' = id_limit w \<and>
   (files w' = files w \<or> r = Ok () \<and> (\<exists>f. files w i = Some f
     \<and> files w' = (files w)(i \<mapsto> f\<lparr>fattr := stamped now (length c), fdata := c\<rparr>)))"
  by (auto simp: spec_put_def seen_def split: option.splits if_splits)

lemma put_entries_files:
  "put_entries now p g w = Inr (r, w') \<Longrightarrow> id_limit w' = id_limit w \<and>
   (files w' = files w \<or> r = Ok () \<and> (\<exists>f a c. files w p = Some f \<and> files w' = (files w)(p \<mapsto> f\<lparr>fattr := a, fdata := c\<rparr>)))"
  unfolding put_entries_def by (cases "seen w p") (auto dest!: spec_put_files)

lemma created:
  assumes "spec_create now later t p name w = Inr (Ok i, w')"
  shows "\<exists>f. files w' i = Some f \<and> ftype f = type_code t" and "files w i = None" and "0 < i" and "id_limit w' = id_limit w"
proof -
  obtain w1 where n: "spec_new now t w = Inr (Ok i, w1)"
    "put_entries later p (\<lambda>es. es @ [\<lparr>ename = name, eid = i\<rparr>]) w1 = Inr (Ok (), w')"
    using assms by (auto simp: spec_create_def on_ok_def split: if_splits elim!: chain_eq_InrE split: chfs_result.splits)
  have w1: "files w i = None" "0 < i" "files w1 = (files w)(i \<mapsto> new_file t now)" "id_limit w1 = id_limit w"
    using n(1) find_free [of w "id_limit w" i] by (auto simp: spec_new_def simp del: upt_Suc split: if_splits option.splits)
  then show "\<exists>f. files w' i = Some f \<and> ftype f = type_code t"
    using put_entries_files [OF n(2)] by (auto simp: new_file_def)
  show "files w i = None" "0 < i" "id_limit w' = id_limit w" using w1 put_entries_files [OF n(2)] by simp_all
qed

lemma entry_reply_fits:
  assumes "spec_create now later t p name w = Inr (Ok i, w')" and "\<And>f. ftype f = type_code t \<Longrightarrow> P (stat_of f)"
  shows "is_entry P (entry_reply i w') \<or> entry_reply i w' = Reply_err (-1) \<and> id_limit w \<le> Suc i"
  using created [OF assms(1)] assms(2) by (auto simp: entry_reply_def seen_def)

lemma spec_reply_fits:
  assumes rq: "request_ok (files w) r" and h: "spec_handle lf now later r w = Inr (rep, w')"
  shows "reply_fits r rep"
proof (cases r)
  case (Lookup p name)
  then show ?thesis
    using h by (auto simp: entry_reply_def seen_def stat_of_known split: option.splits chfs_result.splits if_splits)
next
  case (Write i buf sz off)
  then show ?thesis using rq h by (auto elim!: chain_eq_InrE split: option.splits chfs_result.splits)
next
  case (Setattr i sz to_set)
  then show ?thesis using h by (auto simp: stat_of_known elim!: chain_eq_InrE split: option.splits if_splits)
next
  case (Mknod p name)
  then obtain res w1 where c: "spec_create now later FILE p name w = Inr (res, w1)" using h by (auto elim!: chain_eq_InrE)
  show ?thesis
    using h c Mknod entry_reply_fits [where t = FILE and P = regular_stat, OF _ stat_of_known(2), of now later p name w _ w1]
    by (cases res) (auto simp: chain_Inr split: if_splits)
next
  case (Mkdir p name)
  then obtain res w1 where c: "spec_create now later Directory p name w = Inr (res, w1)" using h by (auto elim!: chain_eq_InrE)
  show ?thesis
    using h c Mkdir entry_reply_fits [where t = Directory and P = directory_stat, OF _ stat_of_known(3), of now later p name w _ w1]
    by (cases res) (auto simp: chain_Inr split: if_splits)
next
  case (Unlink p name)
  then show ?thesis using h by (auto elim!: chain_eq_InrE split: chfs_result.splits)
qed (use h in \<open>auto simp: stat_of_known elim!: chain_eq_InrE split: option.splits if_splits\<close>)

subsection \<open>Requests that fail\<close>

fun creates :: "request \<Rightarrow> (inode_type \<times> nat \<times> string) option" where
  "creates (Mknod p name) = Some (FILE, p, name)"
| "creates (Mkdir p name) = Some (Directory, p, name)"
| "creates _ = None"

text \<open>The text of a directory with one more entry.\<close>

definition with_entry :: "string \<Rightarrow> nat \<Rightarrow> fnode \<Rightarrow> byte list" where
  "with_entry name i f = bytes_of (dir_text (entries_of f @ [\<lparr>ename = name, eid = i\<rparr>]))"

lemma new_done:
  assumes "spec_new now t w = Inr (Ok i, w')"
  shows "w' = w\<lparr>files := (files w)(i \<mapsto> new_file t now), room := room w - 1\<rparr>" and "0 < room w"
    and "files w i = None" and "0 < i" and "i \<le> id_limit w"
  using assms find_free [of w "id_limit w" i] by (auto simp: spec_new_def simp del: upt_Suc split: if_splits option.splits)

text \<open>What creation does once there is a new id: the directory gets the entry, or there is no room for it.\<close>

lemma spec_create_cases:
  assumes c: "spec_create now later t p name w = Inr (r, w')"
  obtains "files w' = files w" and "is_err r"
  | i f where "r = Ok i" and "files w i = None" and "0 < i" and "i \<le> id_limit w" and "seen (w\<lparr>files := (files w)(i \<mapsto> new_file t now)\<rparr>) p = Some f"
      and "files w' = (files w)(i \<mapsto> new_file t now,
             p \<mapsto> f\<lparr>fattr := stamped later (length (with_entry name i f)), fdata := with_entry name i f\<rparr>)"
  | i e where "r = Err e" and "e \<noteq> AlreadyExist" and "files w i = None" and "0 < i" and "i \<le> id_limit w"
      and "files w' = (files w)(i \<mapsto> new_file t now)"
      and "\<And>f. seen (w\<lparr>files := (files w)(i \<mapsto> new_file t now)\<rparr>) p = Some f \<Longrightarrow> length (with_entry name i f) \<le> max_size (block_bytes w) \<Longrightarrow>
             room w + cost w (length (fdata f)) \<le> cost w (length (with_entry name i f))"
proof (cases "is_ok (spec_find p name w)")
  case True
  then have "w' = w" "r = Err AlreadyExist" using c by (simp_all add: spec_create_def)
  then show ?thesis using that(1) by simp
next
  case False
  then obtain n w1 where n: "spec_new now t w = Inr (n, w1)" using c by (auto simp: spec_create_def elim!: chain_eq_InrE)
  show ?thesis
  proof (cases n)
    case (Err e)
    then have "files w1 = files w" using n by (auto simp: spec_new_def simp del: upt_Suc split: if_splits option.splits)
    then have "files w' = files w" "r = Err e" using c n Err False by (auto simp: spec_create_def chain_Inr)
    then show ?thesis using that(1) by simp
  next
    case (Ok i)
    note d = new_done [OF n [unfolded Ok]]
    let ?w1 = "w\<lparr>files := (files w)(i \<mapsto> new_file t now)\<rparr>"
    have s1: "seen w1 p = seen ?w1 p" by (simp add: seen_def d(1))
    have c1: "cost w1 = cost w" "block_bytes w1 = block_bytes w" by (simp_all add: fun_eq_iff cost_def d(1))
    from c n Ok False obtain r2 where
      r2: "put_entries later p (\<lambda>es. es @ [\<lparr>ename = name, eid = i\<rparr>]) w1 = Inr (r2, w')"
        "r = (case r2 of Ok _ \<Rightarrow> Ok i | Err e \<Rightarrow> Err e)"
      by (auto simp: spec_create_def chain_Inr on_ok_def elim!: chain_eq_InrE split: chfs_result.splits)
    show ?thesis
    proof (cases "seen ?w1 p")
      case None
      then have "w' = w1" "r = Err INVALID_ARG" using r2 s1 by (auto simp: put_entries_def)
      then show ?thesis using that(3) [of INVALID_ARG i] d None by simp
    next
      case (Some f)
      then have "spec_put later p (with_entry name i f) w1 = Inr (r2, w')" using r2(1) s1 by (simp add: put_entries_def with_entry_def)
      then consider "r2 = Ok ()" "files w' = (files w1)(p \<mapsto> f\<lparr>fattr := stamped later (length (with_entry name i f)), fdata := with_entry name i f\<rparr>)"
        | "r2 = Err OUT_OF_RESOURCE" "files w' = files w1" "length (with_entry name i f) \<le> max_size (block_bytes w) \<Longrightarrow>
             room w1 + cost w (length (fdata f)) < cost w (length (with_entry name i f))"
        using s1 Some c1 by (auto simp: spec_put_def split: if_splits)
      then show ?thesis
      proof cases
        case 1
        then show ?thesis using that(2) [of i f] r2(2) d Some by simp
      next
        case 2
        have "room w = Suc (room w1)" using d(1,2) by simp
        then show ?thesis using that(3) [of OUT_OF_RESOURCE i] 2 r2(2) d Some by fastforce
      qed
    qed
  qed
qed

lemma failed_create:
  assumes h: "chain (spec_create now later t p name) (\<lambda>r. case r of Ok i \<Rightarrow> reads (entry_reply i)
      | Err x \<Rightarrow> give (Reply_err (if x = AlreadyExist then EEXIST else g))) w = Inr (Reply_err e, w')"
  shows "files w' = files w \<or> (\<exists>i. files w i = None \<and> 0 < i \<and> i \<le> id_limit w \<and>
      (e = g \<and> files w' = (files w)(i \<mapsto> new_file t now)
         \<and> (\<forall>f. seen (w\<lparr>files := (files w)(i \<mapsto> new_file t now)\<rparr>) p = Some f \<longrightarrow> length (with_entry name i f) \<le> max_size (block_bytes w) \<longrightarrow>
              room w + cost w (length (fdata f)) \<le> cost w (length (with_entry name i f)))
       \<or> e = -1 \<and> id_limit w \<le> Suc i \<and> (\<exists>f. seen (w\<lparr>files := (files w)(i \<mapsto> new_file t now)\<rparr>) p = Some f \<and> files w' = (files w)(i \<mapsto> new_file t now,
           p \<mapsto> f\<lparr>fattr := stamped later (length (with_entry name i f)), fdata := with_entry name i f\<rparr>))))"
proof -
  obtain r w1 where c: "spec_create now later t p name w = Inr (r, w1)" using h by (auto elim!: chain_eq_InrE)
  have fin: "w' = w1" and rep: "Reply_err e = (case r of Ok i \<Rightarrow> entry_reply i w1
      | Err x \<Rightarrow> Reply_err (if x = AlreadyExist then EEXIST else g))"
    using h c by (cases r; simp add: chain_Inr)+
  show ?thesis
  proof (cases rule: spec_create_cases [OF c])
    case 1
    then show ?thesis using fin by simp
  next
    case (2 i f)
    have "entry_reply i w1 = Reply_err e" using rep 2(1) by simp
    then have "e = -1" "id_limit w \<le> Suc i"
      using entry_reply_fits [of now later t p name w i w1 "\<lambda>_. True"] c 2(1) by auto
    then show ?thesis using 2 fin by blast
  next
    case (3 i x)
    then have "e = g" using rep by simp
    then show ?thesis using 3 fin by blast
  qed
qed

lemma failed_unlink:
  assumes ok: "daemon_ok fs bm" and p: "dir_id (abs_fs fs bm) p" and now: "env_now ev < 2 ^ 64"
    and h: "chfs_unlink ev fs p name bm = Inr (Reply_err e, bm')" and e: "e \<noteq> 0"
  shows "bm' = bm"
proof (cases "\<exists>g. unlink_target fs bm p name = Some g \<and> needs_indirect bm g")
  case True
  then show ?thesis using unlink_keeps(1) [OF ok p now] h by (auto simp: chfs_unlink_def chain_def)
next
  case False
  then have "unlink_target fs bm p name = None \<or> (\<exists>g. unlink_target fs bm p name = Some g \<and> \<not> needs_indirect bm g)"
    by (cases "unlink_target fs bm p name") auto
  from unlink_keeps(2) [OF ok p now this] obtain r bm1 where
    "unlink ev fs p name bm = Inr (r, bm1)" "r = Ok () \<or> bm1 = bm" by blast
  then show ?thesis using h e by (cases r) (auto simp: chfs_unlink_def chain_Inr)
qed

lemma failed_request:
  assumes ok: "daemon_ok fs bm" and rq: "request_ok (abs_fs fs bm) r" and now: "env_now ev < 2 ^ 64"
    and lf: "sizes_agree lf" and h: "handle lf ev fs r bm = Inr (Reply_err e, bm')" and e: "e \<noteq> 0"
  shows "abs_fs fs bm' = abs_fs fs bm \<or> (\<exists>t p name i. creates r = Some (t, p, name) \<and> abs_fs fs bm i = None \<and> 0 < i \<and> i \<le> max_ino fs \<and>
      (e = (if t = FILE then ENOENT else ENOSYS) \<and> abs_fs fs bm' = (abs_fs fs bm)(i \<mapsto> new_file t (env_now ev))
         \<and> (\<forall>f. usable fs p \<and> ((abs_fs fs bm)(i \<mapsto> new_file t (env_now ev))) p = Some f \<longrightarrow> length (with_entry name i f) \<le> max_size (block_sz bm) \<longrightarrow>
              card (free_set (block_allocator_of fs) bm) + blocks_for bm (length (fdata f)) \<le> blocks_for bm (length (with_entry name i f)))
       \<or> e = -1 \<and> max_ino fs \<le> Suc i \<and> (\<exists>f. usable fs p \<and> abs_fs fs bm p = Some f
           \<and> abs_fs fs bm' = (abs_fs fs bm)(i \<mapsto> new_file t (env_now ev),
               p \<mapsto> f\<lparr>fattr := stamped (env_later ev) (length (with_entry name i f)), fdata := with_entry name i f\<rparr>))))"
proof -
  have s: "spec_handle lf (env_now ev) (env_later ev) r (world_of fs bm) = Inr (Reply_err e, world_of fs bm')"
    using handle_sim [OF ok rq now lf] h by (auto simp: refine.sim_def split: sum.splits)
  show ?thesis
  proof (cases r)
    case (Write i buf sz off)
    then show ?thesis
      using s by (auto elim!: chain_eq_InrE dest!: spec_put_files split: option.splits chfs_result.splits)
  next
    case (Setattr i sz to_set)
    then show ?thesis
      using s by (auto elim!: chain_eq_InrE dest!: spec_put_files simp: world_eq split: option.splits if_splits)
  next
    case (Mknod p name)
    show ?thesis
      using failed_create [OF s [unfolded Mknod spec_handle.simps]] by (auto simp: Mknod seen_def usable_def split: if_splits)
  next
    case (Mkdir p name)
    show ?thesis
      using failed_create [OF s [unfolded Mkdir spec_handle.simps]] by (auto simp: Mkdir seen_def usable_def split: if_splits)
  next
    case (Unlink p name)
    then show ?thesis using failed_unlink [OF ok _ now _ e] rq h by auto
  qed (use s in \<open>auto simp: world_eq elim!: chain_eq_InrE split: option.splits\<close>)
qed

subsection \<open>What a client sees of its own requests\<close>

lemma handled:
  assumes "daemon_ok fs bm" and "request_ok (abs_fs fs bm) r" and "env_now ev < 2 ^ 64" and "sizes_agree lf"
    and "handle lf ev fs r bm = Inr (rep, bm')"
  shows "spec_handle lf (env_now ev) (env_later ev) r (world_of fs bm) = Inr (rep, world_of fs bm')" and "daemon_ok fs bm'"
  using handle_sim [OF assms(1-4)] assms(5) by (auto simp: refine.sim_def split: sum.splits)

lemma splice_read: "take (length data) (drop off (spliced content off data)) = data"
proof (rule nth_equalityI)
  show "length (take (length data) (drop off (spliced content off data))) = length data"
    by (simp add: length_spliced)
next
  fix i assume "i < length (take (length data) (drop off (spliced content off data)))"
  then have i: "i < length data" by simp
  then show "take (length data) (drop off (spliced content off data)) ! i = data ! i"
    by (simp add: nth_spliced length_spliced)
qed

lemma spec_put_done:
  assumes "spec_put now i c w = Inr (Ok u, w')" and "seen w i = Some f"
  shows "w' = w\<lparr>files := (files w)(i \<mapsto> f\<lparr>fattr := stamped now (length c), fdata := c\<rparr>),
      room := room w + cost w (length (fdata f)) - cost w (length c)\<rparr>"
    and "length c \<le> max_size (block_bytes w)" and "cost w (length c) \<le> room w + cost w (length (fdata f))"
  using assms by (auto simp: spec_put_def split: if_splits)

text \<open>A write that is acknowledged changes one file.\<close>

lemma acknowledged_write:
  assumes ok: "daemon_ok fs bm" and rq: "request_ok (abs_fs fs bm) (Write i buf sz off)" and now: "env_now ev < 2 ^ 64"
    and lf: "sizes_agree lf" and h: "handle lf ev fs (Write i buf sz off) bm = Inr (Reply_write n, bm')"
  shows "\<exists>f. visible fs bm i = Some f \<and> daemon_ok fs bm' \<and> (\<forall>j. visible fs bm' j = (if j = i
      then Some (f\<lparr>fattr := stamped (env_now ev) (length (spliced (fdata f) (unat off) buf)),
                   fdata := spliced (fdata f) (unat off) buf\<rparr>)
      else visible fs bm j))"
proof -
  note s = handled [OF ok rq now lf h]
  obtain f where f: "visible fs bm i = Some f"
    using s(1) by (cases "visible fs bm i") (auto elim!: chain_eq_InrE)
  let ?c = "spliced (fdata f) (unat off) buf"
  from s(1) f have p: "spec_put (env_now ev) i ?c (world_of fs bm) = Inr (Ok (), world_of fs bm')"
    by (auto elim!: chain_eq_InrE split: chfs_result.splits)
  from arg_cong [OF spec_put_done(1) [OF p], of f files] f
  have "abs_fs fs bm' = (abs_fs fs bm)(i \<mapsto> f\<lparr>fattr := stamped (env_now ev) (length ?c), fdata := ?c\<rparr>)" by simp
  then show ?thesis using f s(2) by (auto simp: visible_def split: if_splits)
qed

text \<open>The written data is read back, and nothing shows of the write at other ids.\<close>

lemma write_read:
  assumes ok: "daemon_ok fs bm" and rq: "request_ok (abs_fs fs bm) (Write i buf sz off)" and now: "env_now ev < 2 ^ 64"
    and lf: "sizes_agree lf" and h: "handle lf ev fs (Write i buf sz off) bm = Inr (Reply_write n, bm')"
  shows "handle lf ev' fs (Read i sz off) bm' = Inr (Reply_buf buf, bm')"
    and "0 < j \<Longrightarrow> j \<noteq> i \<Longrightarrow> q = Getattr j \<or> (\<exists>sz' off'. q = Read j sz' off' \<and> unat off' + unat sz' < 2 ^ 63) \<Longrightarrow>
      \<exists>rep. handle lf ev' fs q bm = Inr (rep, bm) \<and> handle lf ev' fs q bm' = Inr (rep, bm')"
proof -
  from acknowledged_write [OF assms] obtain f where f: "visible fs bm i = Some f" "daemon_ok fs bm'"
    "\<And>j. visible fs bm' j = (if j = i then Some (f\<lparr>fattr := stamped (env_now ev) (length (spliced (fdata f) (unat off) buf)),
                   fdata := spliced (fdata f) (unat off) buf\<rparr>) else visible fs bm j)" by blast
  have i: "0 < i" "length buf = unat sz" "unat off + unat sz < 2 ^ 63" using rq by (simp_all add: file_id_def)
  show "handle lf ev' fs (Read i sz off) bm' = Inr (Reply_buf buf, bm')"
    using chfs_read_ok [OF f(2) i(1,3)] splice_read [of buf] by (simp add: f(3) i(2))
  show "\<exists>rep. handle lf ev' fs q bm = Inr (rep, bm) \<and> handle lf ev' fs q bm' = Inr (rep, bm')"
    if j: "0 < j" "j \<noteq> i" and q: "q = Getattr j \<or> (\<exists>sz' off'. q = Read j sz' off' \<and> unat off' + unat sz' < 2 ^ 63)"
    using q chfs_getattr_ok [OF ok j(1)] chfs_getattr_ok [OF f(2) j(1)] chfs_read_ok [OF ok j(1)]
      chfs_read_ok [OF f(2) j(1)] j(2) by (auto simp: f(3))
qed

text \<open>Removing what was just created gives back the directory, except for its times, and the blocks.\<close>

lemma entries_of_text: "\<forall>e \<in> set es. entry_ok e \<Longrightarrow> fdata f = bytes_of (dir_text es) \<Longrightarrow> entries_of f = es"
  by (simp add: entries_of_def parse_directory_text)

lemma find_entry_Err: "find_entry name es = Err e \<Longrightarrow> name \<notin> ename ` set es"
  by (induction es) (auto split: if_splits)

lemma create_unlink:
  assumes c: "spec_create now later FILE p name w = Inr (Ok i, w1)" and f: "seen w p = Some f"
    and dir: "ftype f = type_code Directory" "fdata f = bytes_of (dir_text (entries_of f))" "\<forall>e \<in> set (entries_of f). entry_ok e"
    and sz: "length (fdata f) \<le> max_size (block_bytes w)" and name: "entry_ok \<lparr>ename = name, eid = i\<rparr>"
    and i: "seen w1 i \<noteq> None"
  shows "spec_unlink now' p name w1 = Inr (Ok (), w\<lparr>files := (files w)(p \<mapsto> f\<lparr>fattr := stamped now' (length (fdata f))\<rparr>)\<rparr>)"
proof -
  let ?es = "entries_of f" and ?e = "\<lparr>ename = name, eid = i\<rparr>"
  have new: "name \<notin> ename ` set ?es"
    using c f find_entry_Err [of name ?es] by (cases "find_entry name ?es") (auto simp: spec_create_def spec_find_def)
  obtain w0 where n: "spec_new now FILE w = Inr (Ok i, w0)" "put_entries later p (\<lambda>es. es @ [?e]) w0 = Inr (Ok (), w1)"
    using c by (auto simp: spec_create_def on_ok_def split: if_splits elim!: chain_eq_InrE split: chfs_result.splits)
  have w0: "files w i = None" "0 < i" "w0 = w\<lparr>files := (files w)(i \<mapsto> new_file FILE now), room := room w - 1\<rparr>" "0 < room w"
    using n(1) find_free [of w "id_limit w" i] by (auto simp: spec_new_def simp del: upt_Suc split: if_splits option.splits)
  have pi: "p \<noteq> i" using w0(1) f by (auto simp: seen_def split: if_splits)
  have s0: "seen w0 p = Some f" using f pi w0(3) by (auto simp: seen_def split: if_splits)
  let ?c = "bytes_of (dir_text (?es @ [?e]))"
  let ?f1 = "f\<lparr>fattr := stamped later (length ?c), fdata := ?c\<rparr>"
  have p1: "spec_put later p ?c w0 = Inr (Ok (), w1)" using n(2) s0 by (simp add: put_entries_def)
  note d = spec_put_done [OF p1 s0]
  have cost: "cost w0 = cost w" by (simp add: fun_eq_iff cost_def w0(3))
  have w1: "seen w1 p = Some ?f1" "seen w1 i = Some (new_file FILE now)" "id_limit w1 = id_limit w"
    using f i pi unfolding d(1) w0(3) by (auto simp: seen_def split: if_splits)
  have e1: "entries_of ?f1 = ?es @ [?e]" by (rule entries_of_text) (use dir(3) name in auto)
  have fnd: "spec_find p name w1 = Ok i" 
    unfolding spec_find_def w1(1) option.case e1 find_entry_snoc [OF new] by simp
  have z: "cost w 0 = 0" by (simp add: cost_def total_blks_def nblk_def)
  have cost1: "cost w1 = cost w" by (simp add: fun_eq_iff cost_def d(1) w0(3))
  let ?w2 = "w1\<lparr>files := (files w1)(i := None), room := room w1 + 1\<rparr>"
  have dr: "spec_drop i w1 = Inr (Ok (), ?w2)"
    unfolding spec_drop_def w1(2) option.case cost1 by (simp add: new_file_def z)
  have s2: "seen ?w2 p = Some ?f1" using w1(1) pi by (auto simp: seen_def split: if_splits)
  have fl: "filter (\<lambda>e. ename e \<noteq> name) (?es @ [?e]) = ?es" using new by (auto simp: filter_id_conv)
  have room: "room ?w2 + cost w (length ?c) = room w + cost w (length (fdata f))"
  proof -
    have "room w1 = room w0 + cost w (length (fdata f)) - cost w (length ?c)"
      using arg_cong [OF d(1), of room] unfolding cost by simp
    moreover have "room w0 = room w - 1" by (simp add: w0(3))
    ultimately show ?thesis using d(3) w0(4) unfolding cost by simp
  qed
  have put: "spec_put now' p (fdata f) ?w2 = Inr (Ok (), w\<lparr>files := (files w)(p \<mapsto> f\<lparr>fattr := stamped now' (length (fdata f))\<rparr>)\<rparr>)"
  proof -
    have b: "block_bytes w1 = block_bytes w" "block_bytes ?w2 = block_bytes w" by (simp_all add: d(1) w0(3))
    have cw: "cost ?w2 = cost w" by (simp add: fun_eq_iff cost_def b(1))
    have l: "length (fdata ?f1) = length ?c" by simp
    have "(files ?w2)(p \<mapsto> ?f1\<lparr>fattr := stamped now' (length (fdata f)), fdata := fdata f\<rparr>)
        = (files w)(p \<mapsto> f\<lparr>fattr := stamped now' (length (fdata f))\<rparr>)"
      using w0(1) pi by (auto simp: fun_eq_iff d(1) w0(3))
    then have "?w2\<lparr>files := (files ?w2)(p \<mapsto> ?f1\<lparr>fattr := stamped now' (length (fdata f)), fdata := fdata f\<rparr>), room := room w\<rparr>
        = w\<lparr>files := (files w)(p \<mapsto> f\<lparr>fattr := stamped now' (length (fdata f))\<rparr>)\<rparr>"
      by (simp add: d(1) w0(3))
    then show ?thesis
      unfolding spec_put_def s2 b(2) cw option.case l using sz room by simp
  qed
  have "put_entries now' p (filter (\<lambda>e. ename e \<noteq> name)) ?w2
    = Inr (Ok (), w\<lparr>files := (files w)(p \<mapsto> f\<lparr>fattr := stamped now' (length (fdata f))\<rparr>)\<rparr>)"
    using put by (simp only: put_entries_def chain_simps s2 option.case e1 fl dir(2) [symmetric])
  note rest = chain_Inr [where m = "spec_drop i", OF dr] this
  show ?thesis
    by (simp only: spec_unlink_def chain_simps fnd on_ok_simps w1(2) option.case rest) (simp add: new_file_def rest [simplified])
qed

lemma created_parent:
  assumes "spec_create now later t p name w = Inr (Ok i, w')" and f: "files w p = Some f"
  shows "\<exists>g. files w' p = Some g \<and> ftype g = ftype f"
proof -
  obtain w1 where n: "spec_new now t w = Inr (Ok i, w1)"
    "put_entries later p (\<lambda>es. es @ [\<lparr>ename = name, eid = i\<rparr>]) w1 = Inr (Ok (), w')"
    using assms(1) by (auto simp: spec_create_def on_ok_def split: if_splits elim!: chain_eq_InrE split: chfs_result.splits)
  have "files w i = None" "files w1 = (files w)(i \<mapsto> new_file t now)"
    using n(1) find_free [of w "id_limit w" i] by (auto simp: spec_new_def simp del: upt_Suc split: if_splits option.splits)
  then have "files w1 p = Some f" using f by auto
  then show ?thesis using put_entries_files [OF n(2)] by auto
qed

lemma unlink_created:
  assumes ok: "daemon_ok fs bm" and p: "dir_id (abs_fs fs bm) p" and f: "visible fs bm p = Some f" and name: "clean_name name"
    and now: "env_now ev < 2 ^ 64" "env_now ev' < 2 ^ 64" and lf: "sizes_agree lf"
    and h: "handle lf ev fs (Mknod p name) bm = Inr (Reply_entry i st, bm1)"
  shows "\<exists>bm2. handle lf ev' fs (Unlink p name) bm1 = Inr (Reply_err 0, bm2) \<and> daemon_ok fs bm2
    \<and> world_of fs bm2 = (world_of fs bm)\<lparr>files := (abs_fs fs bm)(p \<mapsto> f\<lparr>fattr := stamped (env_now ev') (length (fdata f))\<rparr>)\<rparr>"
proof -
  have rq: "request_ok (abs_fs fs bm) (Mknod p name)" using p name by simp
  note s = handled [OF ok rq now(1) lf h]
  have c: "spec_create (env_now ev) (env_later ev) FILE p name (world_of fs bm) = Inr (Ok i, world_of fs bm1)"
    and i: "seen (world_of fs bm1) i \<noteq> None"
    using s(1) by (auto simp: entry_reply_def elim!: chain_eq_InrE split: chfs_result.splits option.splits if_splits)
  note dir = visible_dir [OF ok p f]
  have v: "usable fs p" "abs_fs fs bm p = Some f" using f by (simp_all add: visible_Some)
  have "i < max_ino fs" using i by (auto simp: visible_def usable_def split: if_splits)
  moreover have "max_ino fs < 2 ^ 64" using im_geometry(5) [OF fs_ok_im [OF daemon_okD(1) [OF ok]]] by (simp add: max_ino_def)
  ultimately have e: "entry_ok \<lparr>ename = name, eid = i\<rparr>" using name by (simp add: entry_ok_def)
  have u: "spec_unlink (env_now ev') p name (world_of fs bm1) = Inr (Ok (), (world_of fs bm)
      \<lparr>files := (abs_fs fs bm)(p \<mapsto> f\<lparr>fattr := stamped (env_now ev') (length (fdata f))\<rparr>)\<rparr>)"
    using create_unlink [OF c _ dir(4) dir_atD(4,5) [OF dir(1)] _ e i] f
      blocks_of_file(2) [OF daemon_okD(1) [OF ok] v(2)] by simp
  have p1: "dir_id (abs_fs fs bm1) p" using created_parent [OF c, of f] v(2) dir(4) p by (auto simp: dir_id_def)
  have "spec_handle lf (env_now ev') (env_later ev') (Unlink p name) (world_of fs bm1) = Inr (Reply_err 0, (world_of fs bm)
      \<lparr>files := (abs_fs fs bm)(p \<mapsto> f\<lparr>fattr := stamped (env_now ev') (length (fdata f))\<rparr>)\<rparr>)"
    using u by (simp add: chain_Inr)
  then show ?thesis using handle_sim [OF s(2) _ now(2) lf, of "Unlink p name"] p1 by (auto simp: refine.sim_def)
qed

end
