(* ===== verification/Daemon_Capacity.thy ===== *)
theory Daemon_Capacity
  imports Daemon_Promises Daemon_Main
begin

text \<open>
  Where the blocks are. \<open>held\<close> counts the blocks of the files of a world, their inodes included. A request
  never makes blocks out of nothing, and the only ones that can lose some are a write, a change of the
  size or a creation that fails for want of space (\<open>may_lose\<close>); so a client can tell from the sizes of
  the files alone what there is room for.
\<close>

subsection \<open>Counting blocks\<close>

definition held :: "world \<Rightarrow> nat" where
  "held w = (\<Sum>i \<in> dom (files w). Suc (cost w (length (fdata (the (files w i))))))"

definition held_but :: "nat \<Rightarrow> world \<Rightarrow> nat" where
  "held_but i w = (\<Sum>j \<in> dom (files w) - {i}. Suc (cost w (length (fdata (the (files w j))))))"

lemma held_split:
  assumes "finite (dom (files w))" and "files w i = Some f"
  shows "held w = Suc (cost w (length (fdata f))) + held_but i w"
  using sum.remove [OF assms(1), of i "\<lambda>j. Suc (cost w (length (fdata (the (files w j)))))"] assms(2)
  by (auto simp: held_def held_but_def domI)

lemma held_but_None: "files w i = None \<Longrightarrow> held_but i w = held w"
  by (simp add: held_def held_but_def domIff Diff_triv)

lemma held_but_upd [simp]: "held_but i (w\<lparr>files := (files w)(i := x), room := n\<rparr>) = held_but i w"
proof -
  have "dom ((files w)(i := x)) - {i} = dom (files w) - {i}" by auto
  then show ?thesis unfolding held_but_def by (intro sum.cong) (auto simp: cost_def)
qed

lemma held_upd:
  assumes "finite (dom (files w))"
  shows "held (w\<lparr>files := (files w)(i \<mapsto> f), room := n\<rparr>) = Suc (cost w (length (fdata f))) + held_but i w"
    and "held (w\<lparr>files := (files w)(i := None), room := n\<rparr>) = held_but i w"
proof -
  let ?w = "w\<lparr>files := (files w)(i \<mapsto> f), room := n\<rparr>"
  have "held ?w = Suc (cost ?w (length (fdata f))) + held_but i ?w" using assms by (intro held_split) simp_all
  then show "held ?w = Suc (cost w (length (fdata f))) + held_but i w" by (simp add: cost_def)
  show "held (w\<lparr>files := (files w)(i := None), room := n\<rparr>) = held_but i w"
    using held_but_None [of "w\<lparr>files := (files w)(i := None), room := n\<rparr>" i] by simp
qed

text \<open>All the blocks of a world, and how they compare before and after.\<close>

definition blocks_in :: "world \<Rightarrow> nat" where
  "blocks_in w = room w + held w"

definition kept :: "bool \<Rightarrow> world \<Rightarrow> world \<Rightarrow> bool" where
  "kept all w w' \<longleftrightarrow> finite (dom (files w')) \<and> blocks_in w' \<le> blocks_in w \<and> (all \<longrightarrow> blocks_in w' = blocks_in w)"

lemma kept_refl [simp]: "finite (dom (files w)) \<Longrightarrow> kept all w w"
  by (simp add: kept_def)

lemma kept_trans: "kept a w w1 \<Longrightarrow> kept b w1 w2 \<Longrightarrow> (c \<Longrightarrow> a \<and> b) \<Longrightarrow> kept c w w2"
  by (auto simp: kept_def)

lemma kept_mono: "kept a w w' \<Longrightarrow> (b \<Longrightarrow> a) \<Longrightarrow> kept b w w'"
  by (auto simp: kept_def)

lemma kept_less_room: "finite (dom (files w)) \<Longrightarrow> n \<le> room w \<Longrightarrow> kept False w (w\<lparr>room := n\<rparr>)"
  by (simp add: kept_def blocks_in_def held_def cost_def)

lemma blocks_in_initial: "blocks_in (initial_world now) = 16316"
  by (simp add: blocks_in_def held_def initial_world_def new_file_def cost_def total_blks_def nblk_def)

subsection \<open>The operations\<close>

lemma put_kept:
  assumes fin: "finite (dom (files w))" and h: "spec_put now i c w = Inr (r, w')"
  shows "kept (is_ok r) w w'"
proof (cases "seen w i")
  case None
  then show ?thesis using h fin by (auto simp: spec_put_def)
next
  case (Some f)
  then have f: "files w i = Some f" by (auto simp: seen_def split: if_splits)
  show ?thesis
  proof (cases r)
    case (Ok u)
    then have "spec_put now i c w = Inr (Ok u, w')" using h by simp
    note d = spec_put_done [OF this Some]
    have "blocks_in w' = blocks_in w"
      unfolding d(1) using held_upd(1) [OF fin] held_split [OF fin f] d(3) by (simp add: blocks_in_def)
    then show ?thesis using fin unfolding d(1) by (simp add: kept_def)
  next
    case (Err e)
    then have "w' = w \<or> w' = w\<lparr>room := 0\<rparr>" using h Some by (auto simp: spec_put_def split: if_splits)
    then show ?thesis using Err fin kept_less_room [OF fin, of 0] by auto
  qed
qed

lemma cost_0 [simp]: "cost w 0 = 0"
  by (simp add: cost_def total_blks_def nblk_def)

lemma new_kept:
  assumes fin: "finite (dom (files w))" and h: "spec_new now t w = Inr (r, w')"
  shows "kept (is_ok r) w w'"
proof (cases r)
  case (Ok i)
  note d = new_done [OF h [unfolded Ok]]
  have "blocks_in w' = blocks_in w"
    unfolding d(1) using held_upd(1) [OF fin] held_but_None [OF d(3)] d(2) by (simp add: blocks_in_def new_file_def)
  then show ?thesis using fin unfolding d(1) by (simp add: kept_def)
next
  case (Err e)
  then have "w' = w\<lparr>room := room w - 1\<rparr>" using h by (auto simp: spec_new_def simp del: upt_Suc split: if_splits option.splits)
  then show ?thesis using Err kept_less_room [OF fin] by simp
qed

lemma drop_kept:
  assumes fin: "finite (dom (files w))" and h: "spec_drop i w = Inr (r, w')"
  shows "kept True w w'"
proof (cases "seen w i")
  case None
  then show ?thesis using h fin by (auto simp: spec_drop_def)
next
  case (Some f)
  then have f: "files w i = Some f" by (auto simp: seen_def split: if_splits)
  have w': "w' = w\<lparr>files := (files w)(i := None), room := room w + cost w (length (fdata f)) + 1\<rparr>"
    using h Some by (auto simp: spec_drop_def split: if_splits)
  have "blocks_in w' = blocks_in w"
    unfolding w' using held_upd(2) [OF fin] held_split [OF fin f] by (simp add: blocks_in_def)
  then show ?thesis using fin unfolding w' by (simp add: kept_def)
qed

lemma entries_kept:
  assumes "finite (dom (files w))" and "put_entries now p g w = Inr (r, w')"
  shows "kept (is_ok r) w w'"
  using assms put_kept [OF assms(1), of now p _ r w'] by (cases "seen w p") (auto simp: put_entries_def)

lemma create_kept:
  assumes fin: "finite (dom (files w))" and h: "spec_create now later t p name w = Inr (r, w')"
  shows "kept (is_ok r \<or> r = Err AlreadyExist) w w'"
proof (cases "is_ok (spec_find p name w)")
  case True
  then show ?thesis using h fin by (auto simp: spec_create_def)
next
  case False
  then obtain n w1 where n: "spec_new now t w = Inr (n, w1)" using h by (auto simp: spec_create_def elim!: chain_eq_InrE)
  note k = new_kept [OF fin n]
  show ?thesis
  proof (cases n)
    case (Err e)
    then have "w' = w1" "r = Err e" using h n False by (auto simp: spec_create_def chain_Inr)
    moreover have "e = OUT_OF_RESOURCE" using n Err by (auto simp: spec_new_def simp del: upt_Suc split: if_splits option.splits)
    ultimately show ?thesis using k Err by (auto intro: kept_mono)
  next
    case (Ok i)
    then obtain r2 where r2: "put_entries later p (\<lambda>es. es @ [\<lparr>ename = name, eid = i\<rparr>]) w1 = Inr (r2, w')"
      "r = (case r2 of Ok _ \<Rightarrow> Ok i | Err e \<Rightarrow> Err e)"
      using h n False by (auto simp: spec_create_def chain_Inr on_ok_def elim!: chain_eq_InrE split: chfs_result.splits)
    have "r2 \<noteq> Err AlreadyExist" using r2(1) by (auto simp: put_entries_def spec_put_def elim!: chain_eq_InrE split: option.splits if_splits)
    then have "is_ok r \<or> r = Err AlreadyExist \<Longrightarrow> is_ok r2" using r2(2) by (cases r2) auto
    moreover have "finite (dom (files w1))" using k by (simp add: kept_def)
    ultimately show ?thesis using kept_trans [OF k entries_kept [OF _ r2(1)]] Ok by simp
  qed
qed

text \<open>A removal that succeeds.\<close>

lemma unlink_kept:
  assumes fin: "finite (dom (files w))" and h: "spec_unlink now p name w = Inr (r, w')"
  shows "kept (is_ok r) w w'"
proof (cases "\<exists>i g. spec_find p name w = Ok i \<and> seen w i = Some g \<and> ftype g \<noteq> type_code Directory")
  case False
  then have "w' = w"
    using h by (cases "spec_find p name w") (auto simp: spec_unlink_def split: option.splits if_splits)
  then show ?thesis using fin by simp
next
  case True
  then obtain i r1 w1 where d: "spec_find p name w = Ok i" "spec_drop i w = Inr (r1, w1)"
    using h by (auto simp: spec_unlink_def elim!: chain_eq_InrE)
  note k = drop_kept [OF fin d(2)]
  have f1: "finite (dom (files w1))" using k by (simp add: kept_def)
  show ?thesis
  proof (cases r1)
    case (Err e)
    then have "w' = w1" using True d h by (auto simp: spec_unlink_def chain_Inr)
    then show ?thesis using k by (auto intro: kept_mono)
  next
    case (Ok u)
    then have "put_entries now p (filter (\<lambda>e. ename e \<noteq> name)) w1 = Inr (r, w')"
      using True d h by (auto simp: spec_unlink_def chain_Inr)
    then show ?thesis using kept_trans [OF k entries_kept [OF f1]] by blast
  qed
qed

subsection \<open>Requests\<close>

fun may_lose :: "request \<times> reply option \<Rightarrow> bool" where
  "may_lose (Write i buf sz off, Some (Reply_err e)) = True"
| "may_lose (Setattr i sz to_set, Some (Reply_err e)) = True"
| "may_lose (Mknod p name, Some (Reply_err e)) = (e = ENOENT)"
| "may_lose (Mkdir p name, Some (Reply_err e)) = (e = ENOSYS)"
| "may_lose _ = False"

lemma created_kept:
  assumes fin: "finite (dom (files w))"
    and h: "chain (spec_create now later t p name) (\<lambda>r. case r of Ok i \<Rightarrow> reads (entry_reply i)
      | Err x \<Rightarrow> give (Reply_err (if x = AlreadyExist then EEXIST else g))) w = Inr (rep, w')"
    and lose: "\<And>e. lose \<longleftrightarrow> rep = Reply_err g"
  shows "kept (\<not> lose) w w'"
proof -
  obtain r w1 where c: "spec_create now later t p name w = Inr (r, w1)" using h by (auto elim!: chain_eq_InrE)
  have "w' = w1" and "is_err r \<Longrightarrow> r \<noteq> Err AlreadyExist \<Longrightarrow> rep = Reply_err g" using h c by (cases r; auto simp: chain_Inr)+
  then show ?thesis using create_kept [OF fin c] lose by (cases r) (auto intro: kept_mono)
qed

lemma finite_files: "daemon_ok fs bm \<Longrightarrow> finite (dom (abs_fs fs bm))"
  by (rule finite_subset [of _ "{..max_ino fs}"]) (auto dest: abs_fs_taken(3))

lemma handle_kept:
  assumes ok: "daemon_ok fs bm" and rq: "request_ok (abs_fs fs bm) r" and now: "env_now ev < 2 ^ 64"
    and lf: "sizes_agree lf" and h: "handle lf ev fs r bm = Inr (rep, bm')"
  shows "kept (\<not> may_lose (r, Some rep)) (world_of fs bm) (world_of fs bm')"
proof -
  note s = handled(1) [OF ok rq now lf h]
  have fin': "finite (dom (files (world_of fs bm)))" using finite_files [OF ok] by simp
  have fin1: "finite (dom (abs_fs fs bm'))" by (rule finite_files [OF handled(2) [OF ok rq now lf h]])
  show ?thesis
  proof (cases r)
    case (Write i buf sz off)
    note s = s [unfolded Write spec_handle.simps chain_simps world_sel seen_world]
    from s obtain f where "visible fs bm i = Some f" by (cases "visible fs bm i") simp_all
    then obtain res where p: "spec_put (env_now ev) i (spliced (fdata f) (unat off) buf) (world_of fs bm) = Inr (res, world_of fs bm')"
      "rep = (case res of Ok _ \<Rightarrow> Reply_write (unat sz) | Err _ \<Rightarrow> Reply_err ENOSYS)"
      using s by (fastforce elim!: chain_eq_InrE)
    then show ?thesis using put_kept [OF fin' p(1)] Write by (cases res) simp_all
  next
    case (Setattr i sz to_set)
    show ?thesis
    proof (cases "world_of fs bm' = world_of fs bm")
      case True
      then show ?thesis using fin' by simp
    next
      case False
      then obtain c res where p: "spec_put (env_now ev) i c (world_of fs bm) = Inr (res, world_of fs bm')"
        "is_ok res \<or> rep = Reply_err ENOSYS"
        using s Setattr by (auto elim!: chain_eq_InrE split: option.splits if_splits)
      then show ?thesis using put_kept [OF fin' p(1)] Setattr by (cases res) (auto intro: kept_mono)
    qed
  next
    case (Mknod p name)
    have "may_lose (r, Some rep) \<longleftrightarrow> rep = Reply_err ENOENT" using Mknod by (cases rep) simp_all
    then show ?thesis by (rule created_kept [OF fin' s [unfolded Mknod spec_handle.simps]])
  next
    case (Mkdir p name)
    have "may_lose (r, Some rep) \<longleftrightarrow> rep = Reply_err ENOSYS" using Mkdir by (cases rep) simp_all
    then show ?thesis by (rule created_kept [OF fin' s [unfolded Mkdir spec_handle.simps]])
  next
    case (Unlink p name)
    then obtain res where u: "spec_unlink (env_now ev) p name (world_of fs bm) = Inr (res, world_of fs bm')"
      "rep = Reply_err (case res of Ok _ \<Rightarrow> 0
         | Err e \<Rightarrow> if e = NotExist then ENOENT else if e = NotEmpty then ENOTEMPTY else ENOSYS)"
      using s by (auto elim!: chain_eq_InrE)
    show ?thesis
    proof (cases "is_ok res")
      case True
      then show ?thesis using unlink_kept [OF fin' u(1)] Unlink by (auto intro: kept_mono)
    next
      case False
      then obtain e where "rep = Reply_err e" "e \<noteq> 0"
        using u(2) by (cases res) (auto simp: ENOENT_def ENOTEMPTY_def ENOSYS_def split: if_splits)
      then have "bm' = bm" using failed_unlink [OF ok _ now] rq h Unlink by auto
      then show ?thesis using fin' by simp
    qed
  qed (use s fin1 in \<open>auto simp: kept_def elim!: chain_eq_InrE split: option.splits\<close>)
qed

lemma run_kept:
  assumes run: "runs (daemon_step lf fs) s tr s'" and lf: "sizes_agree lf"
  shows "s = Serving bm \<Longrightarrow> s' = Serving bm' \<Longrightarrow> daemon_ok fs bm \<Longrightarrow>
    daemon_ok fs bm' \<and> kept (list_all (\<lambda>x. \<not> may_lose x) tr) (world_of fs bm) (world_of fs bm')"
  using run
proof (induction arbitrary: bm rule: runs.induct)
  case (runs_Nil s)
  then show ?case using finite_files by simp
next
  case (runs_Cons s x s1 xs s2)
  from runs_Cons.hyps(1) show ?case
    unfolding runs_Cons.prems(1)
  proof cases
    case (reply r ev rep bm1)
    have ok1: "daemon_ok fs bm1" using handled(2) [OF runs_Cons.prems(3) reply(3,4) lf reply(5)] .
    have "kept (\<not> may_lose x) (world_of fs bm) (world_of fs bm1)"
      using handle_kept [OF runs_Cons.prems(3) reply(3,4) lf reply(5)] reply(1) by simp
    then show ?thesis using runs_Cons.IH [OF reply(2) runs_Cons.prems(2) ok1] by (auto intro: kept_trans)
  next
    case (stop r ev c)
    then show ?thesis using runs_Cons.hyps(2) runs_Cons.prems(2) by (auto elim: runs.cases)
  qed
qed

text \<open>The reply to a write.\<close>

lemma write_reply:
  assumes ok: "daemon_ok fs bm" and rq: "request_ok (abs_fs fs bm) (Write i buf sz off)" and f: "visible fs bm i = Some f"
    and now: "env_now ev < 2 ^ 64" and lf: "sizes_agree lf" and n: "n = max (length (fdata f)) (unat off + unat sz)"
  shows "\<exists>bm'. handle lf ev fs (Write i buf sz off) bm
      = Inr (if n \<le> max_size (block_sz bm)
               \<and> blocks_for bm n \<le> card (free_set (block_allocator_of fs) bm) + blocks_for bm (length (fdata f))
             then Reply_write (unat sz) else Reply_err ENOSYS, bm')"
proof -
  have l: "length (spliced (fdata f) (unat off) buf) = n" using rq n by (simp add: length_spliced)
  show ?thesis
    using handle_sim [OF ok rq now lf] f
    by (auto simp: refine.sim_def chain_def spec_put_def l split: if_splits)
qed

end
