(* ===== verification/Test_Logic.thy ===== *)
theory Test_Logic
  imports Daemon_Promises Stress_Test
begin

text \<open>
  Test programs. The body of a \<open>TEST\<close> of the framework is a program on the device that gives \<open>None\<close>
  when an assertion has failed, which returns from the body. The rules show that a body gets to its end:
  \<open>yields\<close> is a statement of total correctness, about the abstract state alone, and its rule for loops
  takes an invariant indexed by the number of iterations. The interpretation of theory Daemon_Spec
  gives the rules on the devices of a file system and their worlds; \<open>steps\<close> collects them for the
  operations of \<open>FileOperation\<close>.
\<close>

subsection \<open>Assertions\<close>

type_synonym ('s, 'a) test = "('s, 'a option) exec"

definition next_stmt :: "('s, 'a) test \<Rightarrow> ('a \<Rightarrow> ('s, 'b) test) \<Rightarrow> ('s, 'b) test" where
  "next_stmt m k = chain m (\<lambda>r. case r of None \<Rightarrow> give None | Some a \<Rightarrow> k a)"

text \<open>\<open>ASSERT\_TRUE\<close>, \<open>ASSERT\_EQ\<close> and so on.\<close>

definition expect :: "bool \<Rightarrow> ('s, unit) test" where
  "expect b = give (if b then Some () else None)"

text \<open>\<open>ASSERT\_TRUE(res.is\_ok())\<close> with the value that \<open>res.unwrap()\<close> has after it, and
  \<open>ASSERT\_FALSE(res.is\_ok())\<close>.\<close>

definition expect_ok :: "('s, 'a chfs_result) exec \<Rightarrow> ('s, 'a) test" where
  "expect_ok m = chain m (\<lambda>res. give (case res of Ok v \<Rightarrow> Some v | Err _ \<Rightarrow> None))"

definition expect_err :: "('s, 'a chfs_result) exec \<Rightarrow> ('s, unit) test" where
  "expect_err m = chain m (\<lambda>res. expect (\<not> is_ok res))"

text \<open>A call whose result is unwrapped without a test.\<close>

definition unwrapped :: "('s, 'a chfs_result) exec \<Rightarrow> ('s, 'a) test" where
  "unwrapped m = chain m (\<lambda>res. chain (lift_run (unwrap res)) (\<lambda>v. give (Some v)))"

text \<open>A loop over a list, \<open>a\<close> the variables it changes.\<close>

fun loop_over :: "'x list \<Rightarrow> ('x \<Rightarrow> 'a \<Rightarrow> ('s, 'a) test) \<Rightarrow> 'a \<Rightarrow> ('s, 'a) test" where
  "loop_over [] f a = give (Some a)"
| "loop_over (x # xs) f a = next_stmt (f x a) (loop_over xs f)"

fun verdict_of :: "'a option \<Rightarrow> verdict" where
  "verdict_of None = Test_failed"
| "verdict_of (Some _) = Test_passed"

subsection \<open>Total correctness\<close>

context simulation begin

definition yields :: "'w \<Rightarrow> ('s, 'a) test \<Rightarrow> ('a \<Rightarrow> 'w \<Rightarrow> bool) \<Rightarrow> bool" where
  "yields w m Q \<longleftrightarrow> (\<forall>s. fine s \<and> abs s = w \<longrightarrow> (\<exists>a s'. m s = Inr (Some a, s') \<and> fine s' \<and> Q a (abs s')))"

lemma yieldsD:
  "yields (abs s) m Q \<Longrightarrow> fine s \<Longrightarrow> \<exists>a s'. m s = Inr (Some a, s') \<and> fine s' \<and> Q a (abs s')"
  by (simp add: yields_def)

lemma yields_give: "Q a w \<Longrightarrow> yields w (give (Some a)) Q"
  by (simp add: yields_def)

lemma yields_expect: "b \<Longrightarrow> Q () w \<Longrightarrow> yields w (expect b) Q"
  by (simp add: yields_def expect_def)

lemma yields_mono: "yields w m Q \<Longrightarrow> (\<And>a v. Q a v \<Longrightarrow> R a v) \<Longrightarrow> yields w m R"
  unfolding yields_def by blast

lemma yields_next:
  assumes m: "yields w m Q" and k: "\<And>a v. Q a v \<Longrightarrow> yields v (k a) R"
  shows "yields w (next_stmt m k) R"
  unfolding yields_def
proof (intro allI impI)
  fix s assume s: "fine s \<and> abs s = w"
  with m obtain a s' where a: "m s = Inr (Some a, s')" "fine s'" "Q a (abs s')" unfolding yields_def by blast
  from yieldsD [OF k [OF a(3)] a(2)] show "\<exists>b t. next_stmt m k s = Inr (Some b, t) \<and> fine t \<and> R b (abs t)"
    by (simp add: next_stmt_def chain_Inr [of m, OF a(1)])
qed

text \<open>One statement after another, with the state between them known.\<close>

lemma yields_step:
  assumes "yields w m (\<lambda>b v. b = a \<and> v = w')" and "yields w' (k a) R"
  shows "yields w (next_stmt m k) R"
  using yields_next [OF assms(1)] assms(2) by blast

lemma yields_expect_next: "b \<Longrightarrow> yields w (k ()) R \<Longrightarrow> yields w (next_stmt (expect b) k) R"
  by (rule yields_next [OF yields_expect [where Q = "\<lambda>_ v. v = w"]]) simp_all

lemma yields_loop:
  assumes step: "\<And>i a v. i < length xs \<Longrightarrow> I i a v \<Longrightarrow> yields v (f (xs ! i) a) (I (Suc i))"
  shows "I 0 a w \<Longrightarrow> yields w (loop_over xs f a) (I (length xs))"
  using step
proof (induction xs arbitrary: I a w)
  case (Cons x xs)
  have "yields w (f x a) (I (Suc 0))" using Cons.prems(2) [of 0] Cons.prems(1) by simp
  moreover have "yields v (loop_over xs f b) (I (length (x # xs)))" if "I (Suc 0) b v" for b v
    using Cons.IH [of "\<lambda>i. I (Suc i)", OF that] Cons.prems(2) [of "Suc _"] by simp
  ultimately show ?case by (simp add: yields_next)
qed (simp add: yields_give)

lemma yields_expect_ok:
  assumes "\<And>s. fine s \<Longrightarrow> abs s = w \<Longrightarrow> sim m p s" and "p w = Inr (Ok a, w')"
  shows "yields w (expect_ok m) (\<lambda>b v. b = a \<and> v = w')"
  using assms by (fastforce simp: yields_def expect_ok_def sim_def chain_def)

lemma yields_unwrapped:
  assumes "\<And>s. fine s \<Longrightarrow> abs s = w \<Longrightarrow> sim m p s" and "p w = Inr (Ok a, w')"
  shows "yields w (unwrapped m) (\<lambda>b v. b = a \<and> v = w')"
  using assms by (fastforce simp: yields_def unwrapped_def sim_def chain_def)

lemma yields_expect_err:
  assumes "\<And>s. fine s \<Longrightarrow> abs s = w \<Longrightarrow> sim m p s" and "p w = Inr (Err e, w')"
  shows "yields w (expect_err m) (\<lambda>_ v. v = w')"
  using assms by (fastforce simp: yields_def expect_err_def expect_def sim_def chain_def)

end

subsection \<open>The operations of a file system\<close>

lemma count_sim: "daemon_ok fs bm \<Longrightarrow> refine.sim fs (get_free_blocks_num fs) (reads (\<lambda>w. Ok (room w))) bm"
  using fs_counts(1) [OF daemon_okD(1)] by (intro refine.simI [where s' = bm]) simp_all

lemma mount_sim: "daemon_ok fs bm \<Longrightarrow> refine.sim fs create_from_raw (give (Ok fs)) bm"
  using create_from_raw_ok [OF daemon_okD(1)] by (intro refine.simI [where s' = bm]) simp_all

lemma attr_sims:
  assumes "daemon_ok fs bm" and "0 < i"
  shows "refine.sim fs (gettype fs i) (reads (\<lambda>w. case seen w i of None \<Rightarrow> Err INVALID_ARG | Some f \<Rightarrow> Ok (ftype f))) bm"
    and "refine.sim fs (getattr fs i) (reads (\<lambda>w. case seen w i of None \<Rightarrow> Err INVALID_ARG | Some f \<Rightarrow> Ok (fattr f))) bm"
    and "refine.sim fs (read_file fs i) (reads (\<lambda>w. case seen w i of None \<Rightarrow> Err INVALID_ARG | Some f \<Rightarrow> Ok (fdata f))) bm"
  using attrs_visible [OF daemon_okD(1) [OF assms(1)] assms(2)] getattr_visible [OF daemon_okD(1) [OF assms(1)] assms(2)]
    assms(1) by (auto intro!: refine.simI [where s' = bm])

lemma seen_pos: "seen w i = Some f \<Longrightarrow> 0 < i"
  by (simp add: seen_def split: if_splits)

lemma step_count: "refine.yields fs w (unwrapped (get_free_blocks_num fs)) (\<lambda>n v. n = room w \<and> v = w)"
  by (rule refine.yields_unwrapped [OF count_sim]) simp_all

lemma step_mount: "refine.yields fs w (unwrapped create_from_raw) (\<lambda>fs1 v. fs1 = fs \<and> v = w)"
  by (rule refine.yields_unwrapped [OF mount_sim]) simp_all

lemma step_attrs:
  assumes f: "seen w i = Some f"
  shows "refine.yields fs w (expect_ok (gettype fs i)) (\<lambda>t v. t = ftype f \<and> v = w)"
    and "refine.yields fs w (expect_ok (read_file fs i)) (\<lambda>c v. c = fdata f \<and> v = w)"
  by (rule refine.yields_expect_ok [OF attr_sims(1)] refine.yields_expect_ok [OF attr_sims(3)],
      assumption, rule seen_pos [OF f], simp add: f)+

lemma step_no_attr: "seen w i = None \<Longrightarrow> 0 < i \<Longrightarrow> refine.yields fs w (expect_err (getattr fs i)) (\<lambda>_ v. v = w)"
  by (rule refine.yields_expect_err [OF attr_sims(2)]) simp_all

lemma step_new:
  assumes "t \<noteq> Unknown" and "env_now ev < 2 ^ 64" and "0 < room w"
    and "find (\<lambda>i. files w i = None) [1..<Suc (id_limit w)] = Some i"
  shows "refine.yields fs w (expect_ok (alloc_inode fs t (env_now ev) (env_heap ev)))
    (\<lambda>j v. j = i \<and> v = w\<lparr>files := (files w)(i \<mapsto> new_file t (env_now ev)), room := room w - 1\<rparr>)"
  by (rule refine.yields_expect_ok [OF new_sim]) (use assms in \<open>simp_all add: spec_new_def del: upt_Suc\<close>)

lemma step_put:
  assumes f: "seen w i = Some f" and node: "\<And>a. node_ok (f\<lparr>fattr := a, fdata := c\<rparr>)" and now: "now < 2 ^ 64"
    and sz: "length c \<le> max_size (block_bytes w)" "cost w (length c) \<le> room w + cost w (length (fdata f))"
  shows "refine.yields fs w (expect_ok (write_file fs i c now))
    (\<lambda>_ v. v = w\<lparr>files := (files w)(i \<mapsto> f\<lparr>fattr := stamped now (length c), fdata := c\<rparr>),
      room := room w + cost w (length (fdata f)) - cost w (length c)\<rparr>)"
proof -
  have "refine.yields fs w (expect_ok (write_file fs i c now)) (\<lambda>u v. u = () \<and> v =
      w\<lparr>files := (files w)(i \<mapsto> f\<lparr>fattr := stamped now (length c), fdata := c\<rparr>),
      room := room w + cost w (length (fdata f)) - cost w (length c)\<rparr>)"
  proof (rule refine.yields_expect_ok)
    fix bm assume "daemon_ok fs bm" "world_of fs bm = w"
    then show "refine.sim fs (write_file fs i c now) (spec_put now i c) bm"
      using f node by (intro put_sim [OF _ seen_pos [OF f] now]) auto
  qed (use f sz in \<open>simp add: spec_put_def\<close>)
  then show ?thesis by simp
qed

lemma step_resize:
  assumes f: "seen w i = Some f" and node: "\<And>a. node_ok (f\<lparr>fattr := a, fdata := resize_to sz (fdata f)\<rparr>)" and now: "now < 2 ^ 64"
    and new: "length (fdata f) \<noteq> sz"
    and max: "sz \<le> max_size (block_bytes w)" "cost w sz \<le> room w + cost w (length (fdata f))"
  shows "refine.yields fs w (unwrapped (resize_file fs i sz now))
    (\<lambda>_ v. v = w\<lparr>files := (files w)(i \<mapsto> f\<lparr>fattr := stamped now sz, fdata := resize_to sz (fdata f)\<rparr>),
      room := room w + cost w (length (fdata f)) - cost w sz\<rparr>)"
proof -
  let ?c = "resize_to sz (fdata f)" and ?a = "fattr f\<lparr>fsize := sz\<rparr>"
  let ?w = "w\<lparr>files := (files w)(i \<mapsto> f\<lparr>fattr := stamped now sz, fdata := ?c\<rparr>),
      room := room w + cost w (length (fdata f)) - cost w sz\<rparr>"
  have len: "length ?c = sz" by (simp add: resize_to_def)
  have "refine.yields fs w (unwrapped (resize_file fs i sz now)) (\<lambda>a v. a = ?a \<and> v = ?w)"
  proof (rule refine.yields_unwrapped)
    fix bm assume bm: "daemon_ok fs bm" "world_of fs bm = w"
    then have v: "usable fs i" "abs_fs fs bm i = Some f" using f by (auto simp: visible_Some)
    have "refine.sim fs (chain (write_file fs i ?c now) (\<lambda>r. on_ok r (\<lambda>_. give (Ok ?a))))
        (chain (spec_put now i ?c) (\<lambda>r. on_ok r (\<lambda>_. give (Ok ?a)))) bm"
      using bm f node
      by (intro refine.sim_chain [OF put_sim [OF _ seen_pos [OF f] now]] refine.sim_on_ok refine.sim_give) auto
    then show "refine.sim fs (resize_file fs i sz now) (chain (spec_put now i ?c) (\<lambda>r. on_ok r (\<lambda>_. give (Ok ?a)))) bm"
      by (rule refine.sim_run) (simp_all add: resize_file_eq [OF daemon_okD(1) [OF bm(1)] v] new)
  qed (use f max len in \<open>simp add: spec_put_def chain_def\<close>)
  then show ?thesis by (rule refine.yields_mono) simp
qed

lemma step_drop:
  assumes f: "seen w i = Some f" and sz: "length (fdata f) \<le> direct_bytes w"
  shows "refine.yields fs w (expect_ok (remove_file fs i))
    (\<lambda>_ v. v = w\<lparr>files := (files w)(i := None), room := room w + cost w (length (fdata f)) + 1\<rparr>)"
proof -
  have "refine.yields fs w (expect_ok (remove_file fs i))
    (\<lambda>u v. u = () \<and> v = w\<lparr>files := (files w)(i := None), room := room w + cost w (length (fdata f)) + 1\<rparr>)"
    by (rule refine.yields_expect_ok [OF drop_sim]) (use assms seen_pos [OF f] in \<open>simp_all add: spec_drop_def\<close>)
  then show ?thesis by simp
qed

end
