(* ===== verification/File_Tests.thy ===== *)
theory File_Tests
  imports Test_Logic
begin

text \<open>
  The tests of the file system that concern files (src/test/filessytem), and that they pass whatever the
  random draws, whatever the clock gives and whatever the memory of the device and of the heap held
  before. The random distributions belong to the C++ library: a draw is an argument. A test makes a
  device of its own, of 32768 blocks of 512 bytes, and a file system for 8192 inodes on it.
\<close>

subsection \<open>The fixture\<close>

definition kFileNum :: nat where "kFileNum = 50"
definition kTestInodeNum :: nat where "kTestInodeNum = 1024 * 8"
definition kTestDiskSize :: nat where "kTestDiskSize = 16 * 1024 * 1024"
definition kTestBlockSize :: nat where "kTestBlockSize = 512"
definition kTestBlockNum :: nat where "kTestBlockNum = kTestDiskSize div kTestBlockSize"
definition KLargeFileMin :: nat where "KLargeFileMin = 512 * 10"
definition KLargeFileMax :: nat where "KLargeFileMax = 512 * 100"

definition run_test ::
    "(nat \<Rightarrow> byte) \<Rightarrow> (nat \<Rightarrow> byte) \<Rightarrow> (file_operation \<Rightarrow> (block_manager, 'a) test) \<Rightarrow> verdict run" where
  "run_test junk heap body =
     andthen (new_memory_manager kTestBlockNum kTestBlockSize junk) (\<lambda>bm.
     andthen (chain (new_file_operation kTestInodeNum heap) body bm) (\<lambda>(r, _). Inr (verdict_of r)))"

subsection \<open>The tests on files\<close>

definition Init :: "env \<Rightarrow> file_operation \<Rightarrow> (block_manager, unit) test" where
  "Init ev fs =
     (let total_nblocks = 32768; reserved_blocks = 1 + 128 + 2 + 8 in
      next_stmt (unwrapped (get_free_blocks_num fs)) (\<lambda>n.
      next_stmt (expect (n = total_nblocks - reserved_blocks)) (\<lambda>_.
      next_stmt (expect_ok (alloc_inode fs FILE (env_now ev) (env_heap ev))) (\<lambda>i.
      next_stmt (expect (i = 1)) (\<lambda>_.
      next_stmt (unwrapped create_from_raw) (\<lambda>fs1.
      next_stmt (unwrapped (get_free_blocks_num fs1)) (\<lambda>n1.
      expect (wrap64 (n1 + 1) = total_nblocks - reserved_blocks))))))))"

text \<open>One iteration of the creating loops, the same in two tests.\<close>

definition create_one :: "env \<Rightarrow> file_operation \<Rightarrow> int \<Rightarrow> (block_manager, nat) test" where
  "create_one ev fs random_num =
     (if random_num < 3
      then next_stmt (expect_ok (alloc_inode fs Directory (env_now ev) (env_heap ev))) (\<lambda>i.
           next_stmt (expect_ok (gettype fs i)) (\<lambda>t.
           next_stmt (expect (t = type_code Directory)) (\<lambda>_. give (Some i))))
      else next_stmt (expect_ok (alloc_inode fs FILE (env_now ev) (env_heap ev))) (\<lambda>i.
           next_stmt (expect_ok (gettype fs i)) (\<lambda>t.
           next_stmt (expect (t = type_code FILE)) (\<lambda>_. give (Some i)))))"

definition CreateAndGetAttr ::
    "(nat \<Rightarrow> env) \<Rightarrow> ('g \<Rightarrow> int \<times> 'g) \<Rightarrow> 'g \<Rightarrow> file_operation \<Rightarrow> (block_manager, 'g) test" where
  "CreateAndGetAttr evs uni rng fs =
     loop_over [0..<kFileNum] (\<lambda>i g.
       let (random_num, g1) = uni g
       in next_stmt (create_one (evs i) fs random_num) (\<lambda>_. give (Some g1))) rng"

definition Remove ::
    "(nat \<Rightarrow> env) \<Rightarrow> ('g \<Rightarrow> int \<times> 'g) \<Rightarrow> 'g \<Rightarrow> file_operation \<Rightarrow> (block_manager, unit) test" where
  "Remove evs uni rng fs =
     next_stmt (unwrapped (get_free_blocks_num fs)) (\<lambda>free_block_cnt.
     next_stmt (expect (free_block_cnt \<ge> 0)) (\<lambda>_.
     next_stmt (loop_over [0..<kFileNum] (\<lambda>i (g, id_list).
         let (random_num, g1) = uni g
         in next_stmt (create_one (evs i) fs random_num) (\<lambda>id. give (Some (g1, id_list @ [id])))) (rng, [])) (\<lambda>(_, id_list).
     next_stmt (unwrapped (get_free_blocks_num fs)) (\<lambda>free_block_cnt_after_1.
     next_stmt (expect (free_block_cnt_after_1 \<le> free_block_cnt)) (\<lambda>_.
     next_stmt (loop_over id_list (\<lambda>id _.
         next_stmt (expect_ok (remove_file fs id)) (\<lambda>_. expect_err (getattr fs id))) ()) (\<lambda>_.
     next_stmt (unwrapped (get_free_blocks_num fs)) (\<lambda>free_block_cnt_after_2.
     expect (free_block_cnt_after_2 = free_block_cnt))))))))"

text \<open>The random strings of the test of large files: one draw of each distribution.\<close>

record 'g string_source =
  uni_sz :: "'g \<Rightarrow> nat \<times> 'g"
  uni_char :: "'g \<Rightarrow> byte \<times> 'g"

fun random_chars :: "'g string_source \<Rightarrow> nat \<Rightarrow> 'g \<Rightarrow> byte list \<times> 'g" where
  "random_chars rs 0 g = ([], g)"
| "random_chars rs (Suc n) g =
     (let (c, g1) = uni_char rs g; (cs, g2) = random_chars rs n g1 in ((c + 97) # cs, g2))"

definition generate_random_string :: "'g string_source \<Rightarrow> 'g \<Rightarrow> byte list \<times> 'g" where
  "generate_random_string rs rng = (let (sz, g1) = uni_sz rs rng in random_chars rs sz g1)"

definition vec_equal :: "byte list \<Rightarrow> byte list \<Rightarrow> bool" where
  "vec_equal a b =
     (if length a \<noteq> length b then False else list_all (\<lambda>i. \<not> a ! i \<noteq> b ! i) [0..<length a])"

definition WriteLargeFile ::
    "(nat \<Rightarrow> nat \<Rightarrow> env) \<Rightarrow> 'g string_source \<Rightarrow> 'g \<Rightarrow> file_operation \<Rightarrow> (block_manager, 'g \<times> (nat \<Rightarrow> byte list)) test" where
  "WriteLargeFile evs rs rng fs =
     next_stmt (loop_over [0..<kFileNum] (\<lambda>i id_list.
         next_stmt (expect_ok (alloc_inode fs FILE (env_now (evs 0 i)) (env_heap (evs 0 i)))) (\<lambda>id.
         give (Some (id_list @ [id])))) []) (\<lambda>id_list.
     loop_over [0..<10] (\<lambda>i st.
       next_stmt (loop_over id_list (\<lambda>id (g, contents).
         let (content, g1) = generate_random_string rs g;
             contents1 = contents(id := content)
         in next_stmt (expect_ok (write_file fs id (contents1 id) (env_now (evs (Suc i) id)))) (\<lambda>_.
            give (Some (g1, contents1)))) st) (\<lambda>st1.
       loop_over id_list (\<lambda>id (g, contents).
         next_stmt (expect_ok (read_file fs id)) (\<lambda>res_data.
         next_stmt (expect (vec_equal res_data (contents id))) (\<lambda>_.
         give (Some (g, contents))))) st1)) (rng, \<lambda>_. []))"

definition SetAttr :: "(nat \<Rightarrow> env) \<Rightarrow> file_operation \<Rightarrow> (block_manager, unit) test" where
  "SetAttr evs fs =
     next_stmt (expect_ok (alloc_inode fs FILE (env_now (evs 0)) (env_heap (evs 0)))) (\<lambda>inode.
     next_stmt (unwrapped (get_free_blocks_num fs)) (\<lambda>first_free_block_num.
     let content = replicate KLargeFileMin 0 in
     next_stmt (expect_ok (write_file fs inode content (env_now (evs 1)))) (\<lambda>_.
     next_stmt (unwrapped (get_free_blocks_num fs)) (\<lambda>second_free_block_num.
     let content1 = resize_to KLargeFileMax content in
     next_stmt (expect_ok (write_file fs inode content1 (env_now (evs 2)))) (\<lambda>_.
     next_stmt (unwrapped (get_free_blocks_num fs)) (\<lambda>third_free_block_num.
     next_stmt (expect (third_free_block_num < second_free_block_num)) (\<lambda>_.
     next_stmt (unwrapped (resize_file fs inode KLargeFileMin (env_now (evs 3)))) (\<lambda>_.
     next_stmt (unwrapped (get_free_blocks_num fs)) (\<lambda>final_free_block_num.
     expect (final_free_block_num = second_free_block_num))))))))))"

subsection \<open>The disk of the tests\<close>

definition test_disk :: "(nat \<Rightarrow> byte) \<Rightarrow> block_manager" where
  "test_disk junk = \<lparr>block_sz = 512, block_cnt = 32768, block_data = map junk [0..<16777216], in_memory = True\<rparr>"

lemma test_disk_geometry [simp]:
  "block_sz (test_disk junk) = 512" "block_cnt (test_disk junk) = 32768" "length (block_data (test_disk junk)) = 16777216"
  by (simp_all only: test_disk_def block_manager.simps length_map length_upt diff_zero)

lemma new_memory_test: "new_memory_manager kTestBlockNum kTestBlockSize junk = Inr (test_disk junk)"
proof -
  have "kTestBlockNum = 32768" "kTestBlockSize = 512" "wrap64 (32768 * 512) = 16777216"
    by (simp_all add: kTestDiskSize_def kTestBlockSize_def kTestBlockNum_def wrap64_def)
  then show ?thesis unfolding new_memory_manager_def Let_def test_disk_def by (simp only: if_True zero_less_numeral)
qed

lemma test_disk_layout:
  "wf_bm (test_disk junk)" "bitmap_blocks_for (test_disk junk) 8192 = 2" "bitmap_blocks (test_disk junk) = 8"
  "im_end (manager_for (test_disk junk) 8192) = 131" "max_inode_supported (manager_for (test_disk junk) 8192) = 8192"
  by (simp_all add: wf_bm_def bitmap_blocks_for_def bitmap_blocks_def im_end_def manager_for_def Let_def inode_per_block_def)

lemma test_disk_fits: "fits_device (test_disk junk) 8192"
  by (simp add: fits_device_def test_disk_layout)

text \<open>The world every test starts in: the super block, 128 blocks of inode table, two of inode bitmap and
  eight of block bitmap are reserved.\<close>

definition test_world :: "(nat \<Rightarrow> fnode option) \<Rightarrow> nat \<Rightarrow> world" where
  "test_world A n = \<lparr>files = A, room = n, block_bytes = 512, id_limit = 8192\<rparr>"

lemma test_world_sel [simp]:
  "files (test_world A n) = A" "room (test_world A n) = n" "block_bytes (test_world A n) = 512" "id_limit (test_world A n) = 8192"
  "(test_world A n)\<lparr>files := A', room := n'\<rparr> = test_world A' n'"
  by (simp_all add: test_world_def)

lemma seen_test [simp]: "seen (test_world A n) i = (if 0 < i \<and> i < 8191 then A i else None)"
  by (simp add: seen_def)

definition units :: "nat \<Rightarrow> nat" where
  "units n = total_blks 512 (nblk 512 n)"

lemma cost_test [simp]: "cost (test_world A n) k = units k"
  by (simp add: cost_def units_def)

lemma max_size_512: "max_size 512 = 61952" "direct_bytes (test_world A n) = 29184"
  by (simp_all add: max_size_def direct_bytes_def ndirect_def nslots_def)

lemma units_simps [simp]: "units 0 = 0" "units KLargeFileMin = 10" "units KLargeFileMax = 101"
  by (simp_all add: units_def total_blks_def nblk_def ndirect_def nslots_def KLargeFileMin_def KLargeFileMax_def)

lemma units_bound:
  assumes "n \<le> KLargeFileMax"
  shows "units n \<le> 101"
proof -
  have n: "n mod 512 + 512 * (n div 512) \<le> 51200" using assms by (simp only: mod_mult_div_eq KLargeFileMax_def)
  then have "n div 512 \<le> 100" by linarith
  moreover have "n div 512 \<le> 99" if "0 < n mod 512" using n that by linarith
  ultimately show ?thesis by (auto simp: units_def total_blks_def nblk_def ndirect_def nslots_def)
qed

lemma run_test_passes:
  assumes "\<And>fs. refine.yields fs (test_world Map.empty 32629) (body fs) Q"
  shows "run_test junk heap body = Inr Test_passed"
proof -
  let ?fs = "handles_for (test_disk junk) 8192"
  from new_file_operation_ok [OF test_disk_fits, of heap junk] obtain bm where b:
    "new_file_operation 8192 heap (test_disk junk) = Inr (?fs, bm)" "fs_ok ?fs bm" "abs_fs ?fs bm = Map.empty"
    "block_sz bm = 512" "card (free_set (block_allocator_of ?fs) bm) = 32629"
    by (auto simp: test_disk_layout)
  have "max_size 512 < 2 ^ 32" by (simp add: max_size_512)
  then have ok: "daemon_ok ?fs bm" using b by (simp add: daemon_ok_def tree_ok_def)
  have "max_ino ?fs = 8192" by (simp add: max_ino_def handles_for_def test_disk_layout)
  then have "world_of ?fs bm = test_world Map.empty 32629" using b by (simp add: world_of_def test_world_def)
  from refine.yieldsD [OF assms [of ?fs, folded this] ok] obtain a bm' where "body ?fs bm = Inr (Some a, bm')" by blast
  then show ?thesis using b(1)
    by (simp add: run_test_def new_memory_test kTestInodeNum_def chain_Inr)
qed

subsection \<open>The tests on files pass\<close>

lemma next_id:
  assumes "dom A = {0<..k}" and "k < m"
  shows "find (\<lambda>i. A i = None) [1..<Suc m] = Some (Suc k)"
  unfolding find_Some_iff
proof (intro exI [of _ k] conjI allI impI)
  show "k < length [1..<Suc m]" "Suc k = [1..<Suc m] ! k" using assms(2) by (simp_all add: nth_upt del: upt_Suc)
  have "Suc k \<notin> dom A" using assms(1) by simp
  then show "A ([1..<Suc m] ! k) = None" using assms(2) by (simp add: nth_upt domIff del: upt_Suc)
  fix j assume "j < k"
  then have "Suc j \<in> dom A" using assms(1) by simp
  then show "\<not> A ([1..<Suc m] ! j) = None" using assms(2) \<open>j < k\<close> by (simp add: nth_upt del: upt_Suc) blast
qed

lemma dom_next: "dom A = {0<..k} \<Longrightarrow> dom (A(Suc k \<mapsto> f)) = {0<..Suc k}"
  by auto

lemma step_new_test:
  assumes "dom A = {0<..k}" and "k < 8192" and "0 < n" and "t \<noteq> Unknown" and "env_now ev < 2 ^ 64"
  shows "refine.yields fs (test_world A n) (expect_ok (alloc_inode fs t (env_now ev) (env_heap ev)))
    (\<lambda>j v. j = Suc k \<and> v = test_world (A(Suc k \<mapsto> new_file t (env_now ev))) (n - 1))"
  using step_new [where fs = fs and t = t and ev = ev and w = "test_world A n" and i = "Suc k"] assms(2-) next_id [OF assms(1,2)]
  by (simp del: upt_Suc)

lemma Init_yields:
  assumes now: "env_now ev < 2 ^ 64"
  shows "refine.yields fs (test_world Map.empty 32629) (Init ev fs) (\<lambda>_ _. True)"
proof -
  have new: "refine.yields fs (test_world Map.empty 32629) (expect_ok (alloc_inode fs FILE (env_now ev) (env_heap ev)))
    (\<lambda>j v. j = Suc 0 \<and> v = test_world [Suc 0 \<mapsto> new_file FILE (env_now ev)] 32628)"
    using step_new_test [of Map.empty 0 32629 FILE ev fs] now by simp
  show ?thesis
    unfolding Init_def Let_def
    by (intro refine.yields_step [OF step_count] refine.yields_expect_next refine.yields_step [OF new]
        refine.yields_step [OF step_mount] refine.yields_expect) simp_all
qed

lemma new_file_sel [simp]: "fdata (new_file t now) = []" "ftype (new_file t now) = type_code t"
  by (simp_all add: new_file_def)

text \<open>The ids in use are those from \<open>k + 1\<close> to \<open>l\<close>, and the files have the property \<open>P\<close>.\<close>

definition all_files :: "(fnode \<Rightarrow> bool) \<Rightarrow> nat \<Rightarrow> nat \<Rightarrow> nat \<Rightarrow> world \<Rightarrow> bool" where
  "all_files P k l n w \<longleftrightarrow> (\<exists>A. w = test_world A n \<and> dom A = {k<..l} \<and> (\<forall>f \<in> ran A. P f))"

lemma all_filesI: "dom A = {k<..l} \<Longrightarrow> \<forall>f \<in> ran A. P f \<Longrightarrow> all_files P k l n (test_world A n)"
  by (auto simp: all_files_def)

lemma all_filesE:
  assumes "all_files P k l n w"
  obtains A where "w = test_world A n" and "dom A = {k<..l}" and "\<forall>f \<in> ran A. P f"
  using assms by (auto simp: all_files_def)

lemma all_files_room: "all_files P k l n w \<Longrightarrow> room w = n"
  by (auto simp: all_files_def)

lemma no_files [simp]: "all_files P 0 0 n (test_world Map.empty n)"
  by (auto simp: all_files_def)

lemma all_files_new:
  assumes "all_files P 0 k n w" and k: "k < 8190" and n: "0 < n" and t: "t \<noteq> Unknown" and now: "env_now ev < 2 ^ 64"
    and P: "P (new_file t (env_now ev))"
  shows "refine.yields fs w (expect_ok (alloc_inode fs t (env_now ev) (env_heap ev)))
    (\<lambda>j v. j = Suc k \<and> seen v (Suc k) = Some (new_file t (env_now ev)) \<and> all_files P 0 (Suc k) (n - 1) v)"
  using assms(1)
proof (rule all_filesE)
  fix A assume A: "w = test_world A n" "dom A = {0<..k}" "\<forall>f \<in> ran A. P f"
  have "Suc k \<notin> dom A" using A(2) by simp
  then have "A (Suc k) = None" by (simp add: domIff)
  then have "\<forall>f \<in> ran (A(Suc k \<mapsto> new_file t (env_now ev))). P f" using A(3) P by simp
  then have "all_files P 0 (Suc k) (n - 1) (test_world (A(Suc k \<mapsto> new_file t (env_now ev))) (n - 1))"
    by (rule all_filesI [OF dom_next [OF A(2)]])
  moreover have "k < 8192" using k by simp
  ultimately show ?thesis
    unfolding A(1) using k by (auto intro!: refine.yields_mono [OF step_new_test [OF A(2) _ n t now]])
qed

lemma create_one_inv:
  assumes w: "all_files P 0 k n w" and k: "k < 8190" and n: "0 < n" and now: "env_now ev < 2 ^ 64"
    and P: "\<And>t. P (new_file t (env_now ev))"
  shows "refine.yields fs w (create_one ev fs r) (\<lambda>j v. j = Suc k \<and> all_files P 0 (Suc k) (n - 1) v)"
proof -
  have "refine.yields fs w (next_stmt (expect_ok (alloc_inode fs t (env_now ev) (env_heap ev))) (\<lambda>i.
        next_stmt (expect_ok (gettype fs i)) (\<lambda>ty. next_stmt (expect (ty = type_code t)) (\<lambda>_. give (Some i)))))
    (\<lambda>j v. j = Suc k \<and> all_files P 0 (Suc k) (n - 1) v)" if t: "t \<noteq> Unknown" for t
  proof (rule refine.yields_next [OF all_files_new [OF w k n t now P]])
    fix i v assume v: "i = Suc k \<and> seen v (Suc k) = Some (new_file t (env_now ev)) \<and> all_files P 0 (Suc k) (n - 1) v"
    then have s: "seen v i = Some (new_file t (env_now ev))" by simp
    show "refine.yields fs v (next_stmt (expect_ok (gettype fs i)) (\<lambda>ty.
        next_stmt (expect (ty = type_code t)) (\<lambda>_. give (Some i)))) (\<lambda>j v. j = Suc k \<and> all_files P 0 (Suc k) (n - 1) v)"
      by (rule refine.yields_step [OF step_attrs(1) [OF s]], rule refine.yields_expect_next, simp, rule refine.yields_give)
        (use v in simp)
  qed
  from this [of Directory] this [of FILE] show ?thesis by (simp add: create_one_def)
qed

definition is_empty :: "fnode \<Rightarrow> bool" where
  "is_empty f \<longleftrightarrow> fdata f = []"

lemma is_empty_new [simp]: "is_empty (new_file t now)"
  by (simp add: is_empty_def)

lemma CreateAndGetAttr_yields:
  assumes now: "\<And>i. env_now (evs i) < 2 ^ 64"
  shows "refine.yields fs (test_world Map.empty 32629) (CreateAndGetAttr evs (uni :: 'g \<Rightarrow> int \<times> 'g) rng fs) (\<lambda>_ _. True)"
proof -
  let ?I = "\<lambda>i (g :: 'g). all_files is_empty 0 i (32629 - i)"
  let ?body = "\<lambda>i g. let (r, g1) = uni g in next_stmt (create_one (evs i) fs r) (\<lambda>_. give (Some g1))"
  have "refine.yields fs (test_world Map.empty 32629) (loop_over [0..<kFileNum] ?body rng) (?I (length [0..<kFileNum]))"
  proof (rule refine.yields_loop [where I = ?I])
    fix i g w assume i: "i < length [0..<kFileNum]" and I: "?I i g w"
    obtain r g1 where u: "uni g = (r, g1)" by fastforce
    have k: "i < 50" using i by (simp add: kFileNum_def)
    show "refine.yields fs w (?body ([0..<kFileNum] ! i) g) (?I (Suc i))"
      using i u k by (auto intro!: refine.yields_next [OF create_one_inv [OF I _ _ now is_empty_new]] refine.yields_give)
  qed simp
  then show ?thesis unfolding CreateAndGetAttr_def by (rule refine.yields_mono) simp
qed

lemma Remove_yields:
  assumes now: "\<And>i. env_now (evs i) < 2 ^ 64"
  shows "refine.yields fs (test_world Map.empty 32629) (Remove evs (uni :: 'g \<Rightarrow> int \<times> 'g) rng fs) (\<lambda>_ _. True)"
proof -
  let ?I = "\<lambda>i (g :: 'g, ids) w. ids = [1..<Suc i] \<and> all_files is_empty 0 i (32629 - i) w"
  let ?make = "\<lambda>i (g, id_list). let (r, g1) = uni g
      in next_stmt (create_one (evs i) fs r) (\<lambda>id. give (Some (g1, id_list @ [id])))"
  have "refine.yields fs (test_world Map.empty 32629) (loop_over [0..<kFileNum] ?make (rng, [])) (?I (length [0..<kFileNum]))"
  proof (rule refine.yields_loop [where I = ?I])
    fix i st w assume i: "i < length [0..<kFileNum]" and I: "?I i st w"
    obtain g ids where st: "st = (g, ids)" by fastforce
    obtain r g1 where u: "uni g = (r, g1)" by fastforce
    have k: "i < 50" using i by (simp add: kFileNum_def)
    have e: "all_files is_empty 0 i (32629 - i) w" "ids = [1..<Suc i]" using I st by auto
    show "refine.yields fs w (?make ([0..<kFileNum] ! i) st) (?I (Suc i))"
      using i u k st e(2) by (auto intro!: refine.yields_next [OF create_one_inv [OF e(1) _ _ now is_empty_new]] refine.yields_give)
  qed simp
  then have make: "refine.yields fs (test_world Map.empty 32629) (loop_over [0..<kFileNum] ?make (rng, []))
      (\<lambda>(_, ids) w. ids = [1..<Suc kFileNum] \<and> all_files is_empty 0 kFileNum (32629 - kFileNum) w)"
    by (rule refine.yields_mono) auto
  let ?J = "\<lambda>i (_ :: unit). all_files is_empty i kFileNum (32629 - kFileNum + i)"
  let ?drop = "\<lambda>id (_ :: unit). next_stmt (expect_ok (remove_file fs id)) (\<lambda>_. expect_err (getattr fs id))"
  have drop: "refine.yields fs w (loop_over [1..<Suc kFileNum] ?drop ()) (?J (length [1..<Suc kFileNum]))"
    if "all_files is_empty 0 kFileNum (32629 - kFileNum) w" for w
  proof (rule refine.yields_loop [where I = ?J])
    fix i u v assume i: "i < length [1..<Suc kFileNum]" and J: "?J i u v"
    let ?n = "32629 - kFileNum + i"
    obtain A where A: "v = test_world A ?n" "dom A = {i<..kFileNum}" "\<forall>f \<in> ran A. is_empty f"
      using J by (rule all_filesE)
    have id: "[1..<Suc kFileNum] ! i = Suc i" "i < kFileNum" "i < 50"
      using i by (simp_all add: nth_upt kFileNum_def del: upt_Suc)
    have "Suc i \<in> dom A" using A(2) id by simp
    then obtain f where f: "A (Suc i) = Some f" by blast
    then have e: "fdata f = []" using A(3) ranI [of A] unfolding is_empty_def by blast
    let ?v = "test_world (A(Suc i := None)) (Suc ?n)"
    have d: "refine.yields fs v (expect_ok (remove_file fs (Suc i))) (\<lambda>_ v. v = ?v)"
      using step_drop [of v "Suc i" f fs] f e id by (simp add: A(1))
    have n: "refine.yields fs ?v (expect_err (getattr fs (Suc i))) (\<lambda>_ v. v = ?v)" by (rule step_no_attr) simp_all
    have "dom (A(Suc i := None)) = {Suc i<..kFileNum}" "\<forall>f \<in> ran (A(Suc i := None)). is_empty f"
      using A(2,3) by (auto simp: ran_def)
    then have "all_files is_empty (Suc i) kFileNum (Suc ?n) ?v" by (rule all_filesI)
    then have rest: "refine.yields fs ?v (expect_err (getattr fs (Suc i))) (?J (Suc i))"
      by (intro refine.yields_mono [OF n]) simp
    show "refine.yields fs v (?drop ([1..<Suc kFileNum] ! i) u) (?J (Suc i))"
      unfolding id(1) by (rule refine.yields_next [OF d]) (simp only: rest)
  qed (use that in simp)
  have rest: "refine.yields fs w (next_stmt (unwrapped (get_free_blocks_num fs)) (\<lambda>after_1.
     next_stmt (expect (after_1 \<le> 32629)) (\<lambda>_.
     next_stmt (loop_over [1..<Suc kFileNum] ?drop ()) (\<lambda>_.
     next_stmt (unwrapped (get_free_blocks_num fs)) (\<lambda>after_2. expect (after_2 = 32629)))))) (\<lambda>_ _. True)"
    if w: "all_files is_empty 0 kFileNum (32629 - kFileNum) w" for w
  proof (rule refine.yields_step [OF step_count], rule refine.yields_expect_next, simp add: all_files_room [OF w],
      rule refine.yields_next [OF drop [OF w]])
    fix u v assume "?J (length [1..<Suc kFileNum]) u v"
    then have "room v = 32629" using all_files_room by (fastforce simp: kFileNum_def)
    then show "refine.yields fs v (next_stmt (unwrapped (get_free_blocks_num fs)) (\<lambda>after_2. expect (after_2 = 32629))) (\<lambda>_ _. True)"
      by (intro refine.yields_step [OF step_count] refine.yields_expect) simp_all
  qed
  show ?thesis
    unfolding Remove_def
    by (rule refine.yields_step [OF step_count], rule refine.yields_expect_next, simp, rule refine.yields_next [OF make])
      (use rest in auto)
qed

text \<open>The files of the test of large files: their contents are those of the map, and the blocks add up.\<close>

definition large_files :: "(nat \<Rightarrow> byte list) \<Rightarrow> world \<Rightarrow> bool" where
  "large_files contents w \<longleftrightarrow> (\<exists>A n. w = test_world A n
     \<and> (\<forall>i \<in> {0<..kFileNum}. \<exists>f. A i = Some f \<and> ftype f = type_code FILE \<and> fdata f = contents i)
     \<and> (\<forall>i. length (contents i) \<le> KLargeFileMax)
     \<and> n + (\<Sum>i \<in> {0<..kFileNum}. units (length (contents i))) = 32629 - kFileNum)"

lemma large_files_write:
  assumes L: "large_files contents w" and i: "i \<in> {0<..kFileNum}" and c: "length c \<le> KLargeFileMax" and now: "now < 2 ^ 64"
  shows "refine.yields fs w (expect_ok (write_file fs i c now)) (\<lambda>_. large_files (contents(i := c)))"
proof -
  from L obtain A n where w: "w = test_world A n"
    "\<And>i. i \<in> {0<..kFileNum} \<Longrightarrow> \<exists>f. A i = Some f \<and> ftype f = type_code FILE \<and> fdata f = contents i"
    "\<And>i. length (contents i) \<le> KLargeFileMax"
    "n + (\<Sum>i \<in> {0<..kFileNum}. units (length (contents i))) = 32629 - kFileNum"
    by (auto simp: large_files_def)
  obtain f where f: "A i = Some f" "ftype f = type_code FILE" "fdata f = contents i" using w(2) [OF i] by blast
  have s: "seen w i = Some f" using i f(1) by (simp add: w(1) kFileNum_def)
  have "(\<Sum>i \<in> {0<..kFileNum}. units (length (contents i))) \<le> (\<Sum>i \<in> {0<..kFileNum}. 101)"
    by (rule sum_mono) (rule units_bound [OF w(3)])
  then have "27529 \<le> n" using w(4) by (simp add: kFileNum_def)
  then have n: "units (length c) \<le> n" using units_bound [OF c] by linarith
  let ?S = "\<Sum>j \<in> {0<..kFileNum} - {i}. units (length (contents j))"
  have old: "(\<Sum>j \<in> {0<..kFileNum}. units (length (contents j))) = units (length (contents i)) + ?S"
    using i by (simp add: sum.remove)
  have "(\<Sum>j \<in> {0<..kFileNum}. units (length ((contents(i := c)) j)))
      = units (length c) + (\<Sum>j \<in> {0<..kFileNum} - {i}. units (length ((contents(i := c)) j)))"
    using i by (simp add: sum.remove)
  also have "(\<Sum>j \<in> {0<..kFileNum} - {i}. units (length ((contents(i := c)) j))) = ?S" by (rule sum.cong) auto
  finally have new: "(\<Sum>j \<in> {0<..kFileNum}. units (length ((contents(i := c)) j))) = units (length c) + ?S" .
  let ?w = "test_world (A(i \<mapsto> f\<lparr>fattr := stamped now (length c), fdata := c\<rparr>)) (n + units (length (contents i)) - units (length c))"
  have "n + units (length (contents i)) - units (length c) + (units (length c) + ?S) = 32629 - kFileNum"
    using w(4) n unfolding old by linarith
  then have "large_files (contents(i := c)) ?w"
    unfolding large_files_def new
    using w(2,3) c f(2)
    by (intro exI [of _ "A(i \<mapsto> f\<lparr>fattr := stamped now (length c), fdata := c\<rparr>)"]
        exI [of _ "n + units (length (contents i)) - units (length c)"] conjI ballI allI refl) auto
  moreover have "refine.yields fs w (expect_ok (write_file fs i c now)) (\<lambda>_ v. v = ?w)"
    using step_put [OF s node_ok_file now, of c fs] f n c
    by (simp add: w(1) max_size_512 KLargeFileMax_def)
  ultimately show ?thesis by (auto intro: refine.yields_mono)
qed

lemma large_files_read:
  assumes L: "large_files contents w" and i: "i \<in> {0<..kFileNum}"
  shows "refine.yields fs w (expect_ok (read_file fs i)) (\<lambda>c v. c = contents i \<and> v = w)"
proof -
  from L i obtain A n f where w: "w = test_world A n" "A i = Some f" "fdata f = contents i"
    unfolding large_files_def by blast
  then have "seen w i = Some f" using i by (simp add: kFileNum_def)
  from step_attrs(2) [OF this, of fs] w(3) show ?thesis by simp
qed

text \<open>The strings are as long as the draw says.\<close>

lemma length_random_chars: "random_chars rs n g = (cs, g1) \<Longrightarrow> length cs = n"
  by (induction n arbitrary: g cs g1) (auto simp: Let_def split: prod.splits)

definition sizes_in_range :: "'g string_source \<Rightarrow> bool" where
  "sizes_in_range rs \<longleftrightarrow> (\<forall>g. fst (uni_sz rs g) \<in> {KLargeFileMin..KLargeFileMax})"

lemma length_random_string:
  assumes "sizes_in_range rs" and "generate_random_string rs g = (cs, g1)"
  shows "length cs \<le> KLargeFileMax"
proof -
  obtain n g2 where n: "uni_sz rs g = (n, g2)" by fastforce
  then have "n \<in> {KLargeFileMin..KLargeFileMax}" using assms(1) unfolding sizes_in_range_def by (metis fst_conv)
  moreover have "random_chars rs n g2 = (cs, g1)" using assms(2) n by (simp add: generate_random_string_def)
  ultimately show ?thesis using length_random_chars by fastforce
qed

lemma vec_equal_iff: "vec_equal a b \<longleftrightarrow> a = b"
proof
  assume "vec_equal a b"
  then show "a = b" by (intro nth_equalityI) (auto simp: vec_equal_def list_all_iff split: if_splits)
qed (simp add: vec_equal_def list_all_iff)

lemma nth_ids: "i < length [1..<Suc kFileNum] \<Longrightarrow> [1..<Suc kFileNum] ! i = Suc i \<and> Suc i \<in> {0<..kFileNum}"
  by (auto simp: nth_upt simp del: upt_Suc)

lemma WriteLargeFile_yields:
  assumes now: "\<And>i j. env_now (evs i j) < 2 ^ 64" and sz: "sizes_in_range (rs :: 'g string_source)"
  shows "refine.yields fs (test_world Map.empty 32629) (WriteLargeFile evs rs rng fs) (\<lambda>_ _. True)"
proof -
  let ?P = "\<lambda>f. ftype f = type_code FILE \<and> fdata f = []"
  let ?I = "\<lambda>i ids w. ids = [1..<Suc i] \<and> all_files ?P 0 i (32629 - i) w"
  let ?make = "\<lambda>i id_list. next_stmt (expect_ok (alloc_inode fs FILE (env_now (evs 0 i)) (env_heap (evs 0 i)))) (\<lambda>id.
         give (Some (id_list @ [id])))"
  have "refine.yields fs (test_world Map.empty 32629) (loop_over [0..<kFileNum] ?make []) (?I (length [0..<kFileNum]))"
  proof (rule refine.yields_loop [where I = ?I])
    fix i ids w assume i: "i < length [0..<kFileNum]" and I: "?I i ids w"
    then have e: "all_files ?P 0 i (32629 - i) w" by blast
    have k: "i < 8190" "0 < 32629 - i" "[0..<kFileNum] ! i = i" using i by (simp_all add: kFileNum_def)
    show "refine.yields fs w (?make ([0..<kFileNum] ! i) ids) (?I (Suc i))"
      unfolding k(3) by (rule refine.yields_next [OF all_files_new [OF e k(1,2) _ now]], simp, simp, rule refine.yields_give)
        (use I in auto)
  qed simp
  then have make: "refine.yields fs (test_world Map.empty 32629) (loop_over [0..<kFileNum] ?make [])
      (\<lambda>ids w. ids = [1..<Suc kFileNum] \<and> large_files (\<lambda>_. []) w)"
  proof (rule refine.yields_mono)
    fix ids w assume "?I (length [0..<kFileNum]) ids w"
    then have ids: "ids = [1..<Suc kFileNum]" and "all_files ?P 0 kFileNum (32629 - kFileNum) w" by simp_all
    from this(2) obtain A where A: "w = test_world A (32629 - kFileNum)" "dom A = {0<..kFileNum}" "\<forall>f \<in> ran A. ?P f"
      by (rule all_filesE)
    have "\<exists>f. A i = Some f \<and> ?P f" if "i \<in> {0<..kFileNum}" for i
      using that A(2,3) by (metis domD ranI)
    then show "ids = [1..<Suc kFileNum] \<and> large_files (\<lambda>_. []) w"
      using ids A(1) by (auto simp: large_files_def)
  qed
  let ?J = "\<lambda>(_ :: nat) (_ :: 'g, contents). large_files contents"
  let ?fill = "\<lambda>i id (g, contents). let (content, g1) = generate_random_string rs g; contents1 = contents(id := content)
         in next_stmt (expect_ok (write_file fs id (contents1 id) (env_now (evs (Suc i) id)))) (\<lambda>_.
            give (Some (g1, contents1)))"
  let ?read = "\<lambda>id (g :: 'g, contents). next_stmt (expect_ok (read_file fs id)) (\<lambda>res_data.
         next_stmt (expect (vec_equal res_data (contents id))) (\<lambda>_. give (Some (g, contents))))"
  have wr: "refine.yields fs w (loop_over [1..<Suc kFileNum] (?fill i) st) (?J (length [1..<Suc kFileNum]))"
    if "?J 0 st w" for i st w
  proof (rule refine.yields_loop [where I = ?J])
    fix k st w assume k: "k < length [1..<Suc kFileNum]" and J: "?J k st w"
    obtain g contents where st: "st = (g, contents)" by fastforce
    obtain c g1 where c: "generate_random_string rs g = (c, g1)" by fastforce
    note id = nth_ids [OF k]
    have L: "large_files contents w" using J st by simp
    show "refine.yields fs w (?fill i ([1..<Suc kFileNum] ! k) st) (?J (Suc k))"
      using c id by (auto simp: st simp del: upt_Suc
          intro!: refine.yields_next [OF large_files_write [OF L _ length_random_string [OF sz c] now]] refine.yields_give)
  qed (use that in simp)
  have rd: "refine.yields fs w (loop_over [1..<Suc kFileNum] ?read st) (?J (length [1..<Suc kFileNum]))"
    if "?J 0 st w" for st w
  proof (rule refine.yields_loop [where I = ?J])
    fix k st w assume k: "k < length [1..<Suc kFileNum]" and J: "?J k st w"
    obtain g contents where st: "st = (g, contents)" by fastforce
    note id = nth_ids [OF k]
    have L: "large_files contents w" using J st by simp
    show "refine.yields fs w (?read ([1..<Suc kFileNum] ! k) st) (?J (Suc k))"
      using id L by (auto simp: st vec_equal_iff simp del: upt_Suc
          intro!: refine.yields_step [OF large_files_read [OF L]] refine.yields_expect_next refine.yields_give)
  qed (use that in simp)
  have rounds: "refine.yields fs w (loop_over [0..<10] (\<lambda>i st.
       next_stmt (loop_over [1..<Suc kFileNum] (?fill i) st) (loop_over [1..<Suc kFileNum] ?read)) (rng, \<lambda>_. []))
     (?J (length [0..<10 :: nat]))" if "large_files (\<lambda>_. []) w" for w
    by (rule refine.yields_loop [where I = ?J], rule refine.yields_next [OF wr], assumption, rule rd)
      (use that in auto)
  show ?thesis
    unfolding WriteLargeFile_def
    by (rule refine.yields_next [OF make]) (use rounds in \<open>auto intro: refine.yields_mono simp del: upt_Suc\<close>)
qed

text \<open>A single file, with its content and the free blocks that are left.\<close>

definition one_file :: "byte list \<Rightarrow> nat \<Rightarrow> world \<Rightarrow> bool" where
  "one_file d n w \<longleftrightarrow> (\<exists>f. w = test_world [1 \<mapsto> f] n \<and> ftype f = type_code FILE \<and> fdata f = d)"

lemma one_fileE:
  assumes "one_file d n w"
  obtains f where "w = test_world [1 \<mapsto> f] n" and "ftype f = type_code FILE" and "fdata f = d"
    and "seen w 1 = Some f"
  using assms by (auto simp: one_file_def)

lemma one_fileI: "ftype f = type_code FILE \<Longrightarrow> fdata f = d \<Longrightarrow> one_file d n (test_world [1 \<mapsto> f] n)"
  by (auto simp: one_file_def)

lemma one_file_room: "one_file d n w \<Longrightarrow> room w = n"
  by (auto simp: one_file_def)

lemma one_file_new:
  assumes "env_now ev < 2 ^ 64"
  shows "refine.yields fs (test_world Map.empty 32629) (expect_ok (alloc_inode fs FILE (env_now ev) (env_heap ev)))
    (\<lambda>j w. j = 1 \<and> one_file [] 32628 w)"
proof (rule refine.yields_mono)
  show "refine.yields fs (test_world Map.empty 32629) (expect_ok (alloc_inode fs FILE (env_now ev) (env_heap ev)))
    (\<lambda>j v. j = 1 \<and> v = test_world [1 \<mapsto> new_file FILE (env_now ev)] 32628)"
    using step_new_test [of Map.empty 0 32629 FILE ev fs] assms by simp
qed (use one_fileI in auto)

lemma one_file_write:
  assumes w: "one_file d n w" and c: "length c \<le> KLargeFileMax" and n: "101 \<le> n" and now: "now < 2 ^ 64"
  shows "refine.yields fs w (expect_ok (write_file fs 1 c now)) (\<lambda>_. one_file c (n + units (length d) - units (length c)))"
  using w
proof (rule one_fileE)
  fix f assume f: "w = test_world [1 \<mapsto> f] n" "ftype f = type_code FILE" "fdata f = d" "seen w 1 = Some f"
  have u: "units (length c) \<le> n" using units_bound [OF c] n by linarith
  show ?thesis
    by (rule refine.yields_mono [OF step_put [OF f(4) node_ok_file now]])
      (use f(2,3) c u in \<open>auto simp: f(1) max_size_512 KLargeFileMax_def intro!: one_fileI [unfolded One_nat_def]\<close>)
qed

lemma one_file_resize:
  assumes w: "one_file d n w" and sz: "length d = KLargeFileMax" and n: "101 \<le> n" and now: "now < 2 ^ 64"
  shows "refine.yields fs w (unwrapped (resize_file fs 1 KLargeFileMin now)) (\<lambda>_. one_file (resize_to KLargeFileMin d) (n + 91))"
  using w
proof (rule one_fileE)
  fix f assume f: "w = test_world [1 \<mapsto> f] n" "ftype f = type_code FILE" "fdata f = d" "seen w 1 = Some f"
  have ne: "length (fdata f) \<noteq> KLargeFileMin" "KLargeFileMin \<le> 61952"
    using f(3) sz by (simp_all add: KLargeFileMin_def KLargeFileMax_def)
  show ?thesis
    by (rule refine.yields_mono [OF step_resize [OF f(4) node_ok_file now ne(1)]])
      (use f(2,3) ne(2) sz n in \<open>auto simp: f(1) max_size_512 add.commute intro!: one_fileI [unfolded One_nat_def]\<close>)
qed

lemma SetAttr_yields:
  assumes now: "\<And>i. env_now (evs i) < 2 ^ 64"
  shows "refine.yields fs (test_world Map.empty 32629) (SetAttr evs fs) (\<lambda>_ _. True)"
proof -
  let ?c1 = "replicate KLargeFileMin (0 :: byte)"
  let ?c2 = "resize_to KLargeFileMax ?c1"
  have len: "length ?c1 = KLargeFileMin" "length ?c2 = KLargeFileMax" "KLargeFileMin \<le> KLargeFileMax"
    by (simp_all add: resize_to_def KLargeFileMin_def KLargeFileMax_def)
  have w1: "refine.yields fs w (expect_ok (write_file fs 1 ?c1 (env_now (evs 1)))) (\<lambda>_. one_file ?c1 32618)"
    if "one_file [] 32628 w" for w using one_file_write [OF that _ _ now, of ?c1 fs] len by simp
  have w2: "refine.yields fs w (expect_ok (write_file fs 1 ?c2 (env_now (evs 2)))) (\<lambda>_. one_file ?c2 32527)"
    if "one_file ?c1 32618 w" for w using one_file_write [OF that _ _ now, of ?c2 fs] len by simp
  have w3: "refine.yields fs w (unwrapped (resize_file fs 1 KLargeFileMin (env_now (evs 3))))
      (\<lambda>_. one_file (resize_to KLargeFileMin ?c2) 32618)"
    if "one_file ?c2 32527 w" for w using one_file_resize [OF that len(2) _ now, of fs 3] by simp
  show ?thesis
    unfolding SetAttr_def Let_def
    by (rule refine.yields_next [OF one_file_new [OF now]], erule conjE, hypsubst, rule refine.yields_step [OF step_count],
        rule refine.yields_next [OF w1], assumption, rule refine.yields_step [OF step_count],
        rule refine.yields_next [OF w2], assumption, rule refine.yields_step [OF step_count],
        rule refine.yields_expect_next, simp add: one_file_room, rule refine.yields_next [OF w3], assumption,
        rule refine.yields_step [OF step_count], rule refine.yields_expect, simp_all add: one_file_room)
qed

end
