(* ===== verification/Dir_Tests.thy ===== *)
theory Dir_Tests
  imports File_Tests
begin

text \<open>
  The tests of the file system that concern directories (src/test/filessytem/directory\_op\_test.cc), and
  the statement that all the tests of the file system pass.
\<close>

subsection \<open>The tests on directories\<close>

text \<open>The parser clears the list it is given.\<close>

definition Utilities :: "nat \<Rightarrow> bool" where
  "Utilities junk =
     (let input = ''''; list = parse_directory junk input in
      if list \<noteq> [] then False
      else let input = append_to_directory input ''test'' 2;
               list = parse_directory junk input
           in if \<not> length list = 1 then False
              else let input = foldl (\<lambda>input i. append_to_directory input ''test'' (i + 2)) input [0..<100];
                       list = parse_directory junk input
                   in length list = 1 + 100)"

definition UtilitiesRemove :: "nat \<Rightarrow> bool" where
  "UtilitiesRemove junk =
     (let input = foldl (\<lambda>input i. append_to_directory input (''test'' @ inode_id_to_string i) (i + 2)) '''' [0..<100];
          input = rm_from_directory junk input ''test0'';
          list = parse_directory junk input
      in if length list \<noteq> 99 then False
         else let input = rm_from_directory junk input ''test12'';
                  list = parse_directory junk input
              in length list = 98)"

text \<open>\<open>exit(1)\<close> ends the program of the tests as a failed assertion does; the assertion on the id is the
  library's own.\<close>

definition DirectOperationAdd :: "env \<Rightarrow> file_operation \<Rightarrow> (block_manager, unit) test" where
  "DirectOperationAdd ev fs =
     next_stmt (expect_ok (alloc_inode fs Directory (env_now ev) (env_heap ev))) (\<lambda>i.
     if \<not> i = 1 then crash_with AssertFailed
     else next_stmt (expect_ok (read_directory ev fs 1)) (\<lambda>list.
          expect (list = [])))"

definition mkdir_test :: "(nat \<Rightarrow> env) \<Rightarrow> file_operation \<Rightarrow> (block_manager, unit) test" where
  "mkdir_test evs fs =
     next_stmt (expect_ok (alloc_inode fs Directory (env_now (evs 0)) (env_heap (evs 0)))) (\<lambda>_.
     next_stmt (loop_over [0..<100] (\<lambda>i _.
         next_stmt (expect_ok (mkdir_op (evs (Suc i)) fs 1 (''test'' @ inode_id_to_string i))) (\<lambda>_.
         give (Some ()))) ()) (\<lambda>_.
     next_stmt (expect_ok (read_directory (evs 101) fs 1)) (\<lambda>list.
     expect (length list = 100))))"

subsection \<open>The tests on directories pass\<close>

lemma step_read_directory:
  assumes f: "seen w p = Some f" and dir: "ftype f = type_code Directory"
  shows "refine.yields fs w (expect_ok (read_directory ev fs p)) (\<lambda>es v. es = entries_of f \<and> v = w)"
proof (rule refine.yields_expect_ok)
  fix bm assume bm: "daemon_ok fs bm" "world_of fs bm = w"
  then have v: "visible fs bm p = Some f" using f by auto
  have "dir_id (abs_fs fs bm) p" using v dir seen_pos [OF f] by (simp add: dir_id_def visible_Some)
  from read_directory_visible [OF bm(1) this, of ev] v bm f
  show "refine.sim fs (read_directory ev fs p) (reads (\<lambda>w. case seen w p of None \<Rightarrow> Err INVALID_ARG | Some f \<Rightarrow> Ok (entries_of f))) bm"
    by (intro refine.simI [where s' = bm]) (simp_all add: dir_entries_def)
qed (simp add: f)

lemma entries_of_empty [simp]: "entries_of (new_file t now) = []"
  by (simp add: entries_of_def new_file_def parse_directory_def text_of_def)

lemma DirectOperationAdd_yields:
  assumes now: "env_now ev < 2 ^ 64"
  shows "refine.yields fs (test_world Map.empty 32629) (DirectOperationAdd ev fs) (\<lambda>_ _. True)"
proof -
  let ?f = "new_file Directory (env_now ev)"
  have new: "refine.yields fs (test_world Map.empty 32629) (expect_ok (alloc_inode fs Directory (env_now ev) (env_heap ev)))
    (\<lambda>j v. j = 1 \<and> v = test_world [1 \<mapsto> ?f] 32628)"
    using step_new_test [of Map.empty 0 32629 Directory ev fs] now by simp
  have s: "seen (test_world [1 \<mapsto> ?f] 32628) 1 = Some ?f" by simp
  have t: "ftype ?f = type_code Directory" by simp
  show ?thesis
    unfolding DirectOperationAdd_def
    by (rule refine.yields_step [OF new], subst if_not_P, simp,
        rule refine.yields_step [OF step_read_directory [OF s t]], rule refine.yields_expect) simp_all
qed

text \<open>The entries the tests make: \<open>test0\<close>, \<open>test1\<close> and so on, with ids from 2 on.\<close>

definition test_name :: "nat \<Rightarrow> string" where
  "test_name i = ''test'' @ inode_id_to_string i"

definition test_entries :: "nat \<Rightarrow> directory_entry list" where
  "test_entries n = map (\<lambda>i. \<lparr>ename = test_name i, eid = i + 2\<rparr>) [0..<n]"

lemma test_entries_Suc: "test_entries (Suc n) = test_entries n @ [\<lparr>ename = test_name n, eid = n + 2\<rparr>]"
  by (simp add: test_entries_def)

lemma length_test_entries [simp]: "length (test_entries n) = n"
  by (simp add: test_entries_def)

lemma test_name_inject [simp]: "test_name i = test_name j \<longleftrightarrow> i = j"
  unfolding test_name_def by (metis append_same_eq decimal_value_print same_append_eq)

lemma test_name_clean: "clean_name (test_name i)"
  by (simp add: clean_name_def test_name_def number_clean) (simp add: colon_def slash_def)

lemma test_entries_ok: "n \<le> 100 \<Longrightarrow> \<forall>e \<in> set (test_entries n). entry_ok e \<and> 0 < eid e"
  by (auto simp: test_entries_def entry_ok_def test_name_clean)

lemma test_name_new: "test_name n \<notin> ename ` set (test_entries n)"
  by (auto simp: test_entries_def)

lemma length_number: "length (inode_id_to_string n) \<le> Suc n"
proof (induction n rule: inode_id_to_string.induct)
  case (1 n)
  then show ?case by (subst inode_id_to_string.simps) auto
qed

lemma length_test_text: "n \<le> 100 \<Longrightarrow> length (dir_text (test_entries n)) \<le> 300 * n"
proof (induction n)
  case (Suc n)
  have "length (entry_text \<lparr>ename = test_name n, eid = n + 2\<rparr>) \<le> 5 + Suc n + Suc (n + 2)"
    using length_number [of n] length_number [of "n + 2"] by (simp add: entry_text_def test_name_def)
  then show ?case
    using Suc by (cases "test_entries n = []") (simp_all add: test_entries_Suc dir_text_snoc)
qed (simp add: test_entries_def)

text \<open>The directory of the test after \<open>i\<close> calls of \<open>mkdir\<close>.\<close>

definition many_dirs :: "nat \<Rightarrow> world \<Rightarrow> bool" where
  "many_dirs i w \<longleftrightarrow> (\<exists>A n f. w = test_world A n \<and> dom A = {0<..Suc i} \<and> A 1 = Some f \<and> ftype f = type_code Directory
     \<and> fdata f = bytes_of (dir_text (test_entries i)) \<and> n + units (length (dir_text (test_entries i))) = 32628 - i)"

lemma many_dirs_seen:
  assumes "many_dirs i w" and "i \<le> 100"
  obtains f where "seen w 1 = Some f" and "ftype f = type_code Directory" and "entries_of f = test_entries i"
  using assms test_entries_ok [OF assms(2)] by (auto simp: many_dirs_def entries_of_def parse_directory_text)

lemma many_dirs_create:
  assumes "many_dirs i w" and i: "i < 100"
  shows "\<exists>w'. spec_create now later Directory 1 (test_name i) w = Inr (Ok (i + 2), w') \<and> many_dirs (Suc i) w'"
proof -
  obtain A n f where w: "w = test_world A n" "dom A = {0<..Suc i}" "A 1 = Some f" "ftype f = type_code Directory"
    "fdata f = bytes_of (dir_text (test_entries i))" "n + units (length (dir_text (test_entries i))) = 32628 - i"
    using assms(1) by (auto simp: many_dirs_def)
  have ent: "entries_of f = test_entries i"
    using w(5) test_entries_ok [of i] i by (simp add: entries_of_def parse_directory_text)
  let ?es = "test_entries (Suc i)"
  let ?c = "bytes_of (dir_text ?es)"
  have len: "length (dir_text (test_entries i)) \<le> KLargeFileMax" "length (dir_text ?es) \<le> KLargeFileMax"
    using length_test_text [of i] length_test_text [of "Suc i"] i by (simp_all add: KLargeFileMax_def)
  note u = units_bound [OF len(1)] units_bound [OF len(2)]
  then have n: "101 < n" using w(6) i by linarith
  let ?A1 = "A(Suc (Suc i) \<mapsto> new_file Directory now)"
  let ?f1 = "f\<lparr>fattr := stamped later (length (dir_text ?es)), fdata := ?c\<rparr>"
  let ?n1 = "n - 1 + units (length (dir_text (test_entries i))) - units (length (dir_text ?es))"
  have fnd: "spec_find 1 (test_name i) w = Err NotExist"
    using w(1,3) find_entry_None [OF test_name_new] by (simp add: spec_find_def ent)
  have new: "spec_new now Directory w = Inr (Ok (Suc (Suc i)), test_world ?A1 (n - 1))"
    using next_id [OF w(2), of 8192] i n by (simp add: spec_new_def w(1) del: upt_Suc)
  have es1: "test_entries i @ [\<lparr>ename = test_name i, eid = Suc (Suc i)\<rparr>] = ?es" by (simp add: test_entries_Suc)
  have A1: "?A1 1 = Some f" using w(3) by simp
  have put: "put_entries later 1 (\<lambda>es. es @ [\<lparr>ename = test_name i, eid = i + 2\<rparr>]) (test_world ?A1 (n - 1))
      = Inr (Ok (), test_world (?A1(1 \<mapsto> ?f1)) ?n1)"
    using A1 u n len(2) w(5)
    by (simp add: put_entries_def spec_put_def ent es1 max_size_512 KLargeFileMax_def)
  have "many_dirs (Suc i) (test_world (?A1(1 \<mapsto> ?f1)) ?n1)"
    unfolding many_dirs_def
    using w u n by (intro exI [of _ "?A1(1 \<mapsto> ?f1)"] exI [of _ ?n1] exI [of _ ?f1]) auto
  moreover have "spec_create now later Directory 1 (test_name i) w = Inr (Ok (i + 2), test_world (?A1(1 \<mapsto> ?f1)) ?n1)"
    using fnd new put by (simp add: spec_create_def chain_def)
  ultimately show ?thesis by blast
qed

lemma step_mkdir:
  assumes w: "many_dirs i w" and i: "i < 100" and now: "env_now ev < 2 ^ 64"
  shows "refine.yields fs w (expect_ok (mkdir_op ev fs 1 (test_name i))) (\<lambda>_. many_dirs (Suc i))"
proof -
  from many_dirs_create [OF assms(1,2)] obtain w' where
    w': "spec_create (env_now ev) (env_later ev) Directory 1 (test_name i) w = Inr (Ok (i + 2), w')" "many_dirs (Suc i) w'" by blast
  have "refine.yields fs w (expect_ok (mkdir_op ev fs 1 (test_name i))) (\<lambda>j v. j = i + 2 \<and> v = w')"
    unfolding mkdir_op_def
  proof (rule refine.yields_expect_ok [OF create_sim [OF _ _ test_name_clean _ now]])
    fix bm assume "daemon_ok fs bm" "world_of fs bm = w"
    then have "abs_fs fs bm = files w" by auto
    then show "dir_id (abs_fs fs bm) 1" using w by (auto simp: many_dirs_def dir_id_def)
  qed (use w'(1) in simp_all)
  then show ?thesis by (rule refine.yields_mono) (use w'(2) in simp)
qed

lemma mkdir_test_yields:
  assumes now: "\<And>i. env_now (evs i) < 2 ^ 64"
  shows "refine.yields fs (test_world Map.empty 32629) (mkdir_test evs fs) (\<lambda>_ _. True)"
proof -
  have "many_dirs 0 (test_world [Suc 0 \<mapsto> new_file Directory (env_now (evs 0))] 32628)"
    unfolding many_dirs_def
    by (intro exI [of _ "[Suc 0 \<mapsto> new_file Directory (env_now (evs 0))]"] exI [of _ 32628]
        exI [of _ "new_file Directory (env_now (evs 0))"]) (auto simp: test_entries_def bytes_of_def)
  with step_new_test [of Map.empty 0 32629 Directory "evs 0" fs] now [of 0]
  have new: "refine.yields fs (test_world Map.empty 32629) (expect_ok (alloc_inode fs Directory (env_now (evs 0)) (env_heap (evs 0))))
    (\<lambda>_. many_dirs 0)" by (auto intro: refine.yields_mono)
  let ?body = "\<lambda>i (_ :: unit). next_stmt (expect_ok (mkdir_op (evs (Suc i)) fs 1 (''test'' @ inode_id_to_string i))) (\<lambda>_. give (Some ()))"
  let ?I = "\<lambda>i (_ :: unit). many_dirs i"
  have loop: "refine.yields fs w (loop_over [0..<100] ?body ()) (?I (length [0..<100 :: nat]))" if "many_dirs 0 w" for w
  proof (rule refine.yields_loop [where I = ?I])
    fix i u w assume i: "i < length [0..<100 :: nat]" and w: "?I i u w"
    have k: "i < 100" "[0..<100] ! i = i" using i by (simp_all add: nth_upt)
    show "refine.yields fs w (?body ([0..<100] ! i) u) (?I (Suc i))"
      unfolding k(2) test_name_def [symmetric]
      by (rule refine.yields_next [OF step_mkdir [OF w k(1) now]]) (rule refine.yields_give)
  qed (use that in simp)
  have rest: "refine.yields fs w (next_stmt (expect_ok (read_directory (evs 101) fs 1)) (\<lambda>list. expect (length list = 100))) (\<lambda>_ _. True)"
    if "many_dirs 100 w" for w
  proof (rule many_dirs_seen [OF that])
    fix f assume f: "seen w 1 = Some f" "ftype f = type_code Directory" "entries_of f = test_entries 100"
    show ?thesis
      by (rule refine.yields_step [OF step_read_directory [OF f(1,2)]], rule refine.yields_expect) (simp_all add: f(3))
  qed simp
  show ?thesis
    unfolding mkdir_test_def
    by (rule refine.yields_next [OF new], rule refine.yields_next [OF loop], assumption) (use rest in simp)
qed

text \<open>The helpers on texts.\<close>

lemma append_tests: "foldl (\<lambda>input i. append_to_directory input (test_name i) (i + 2)) [] [0..<n] = dir_text (test_entries n)"
  by (induction n) (simp_all add: test_entries_Suc append_to_directory_text test_entries_def [of 0])

lemma length_remove_entry:
  "distinct (map ename es) \<Longrightarrow> x \<in> ename ` set es \<Longrightarrow> length (filter (\<lambda>e. ename e \<noteq> x) es) = length es - 1"
proof (induction es)
  case (Cons e es)
  show ?case
  proof (cases "ename e = x")
    case True
    then have "filter (\<lambda>e. ename e \<noteq> x) es = es" using Cons.prems(1) by (auto simp: filter_id_conv) (metis imageI)
    then show ?thesis using True by simp
  next
    case False
    then have "x \<in> ename ` set es" using Cons.prems(2) by auto
    then show ?thesis using Cons False by (cases es) simp_all
  qed
qed simp

lemma UtilitiesRemove_passes: "UtilitiesRemove junk"
proof -
  let ?es = "test_entries 100"
  let ?es1 = "filter (\<lambda>e. ename e \<noteq> test_name 0) ?es"
  let ?es2 = "filter (\<lambda>e. ename e \<noteq> test_name 12) ?es1"
  have ok: "\<forall>e \<in> set ?es. entry_ok e" using test_entries_ok [of 100] by simp
  have len: "length (dir_text ?es) < 2 ^ 32" using length_test_text [of 100] by simp
  have len1: "length (dir_text ?es1) < 2 ^ 32" using length_filter_dir_text [of _ ?es] len by (rule le_less_trans)
  have names: "''test0'' = test_name 0" "''test12'' = test_name 12"
    by (simp_all add: test_name_def) code_simp+
  have "distinct (map ename ?es)" by (simp add: test_entries_def distinct_map inj_on_def comp_def)
  note d = this distinct_map_filter [OF this]
  have e: "\<lparr>ename = test_name i, eid = i + 2\<rparr> \<in> set ?es" if "i < 100" for i using that by (simp add: test_entries_def)
  from e [of 12] have "\<lparr>ename = test_name 12, eid = 12 + 2\<rparr> \<in> set ?es1" by simp
  from imageI [OF e, of 0 ename] imageI [OF this, of ename]
  have mem: "test_name 0 \<in> ename ` set ?es" "test_name 12 \<in> ename ` set ?es1" by simp_all
  have cnt: "length ?es1 = 99" "length ?es2 = 98"
    using d length_remove_entry [of ?es "test_name 0"] length_remove_entry [of ?es1 "test_name 12"] mem by auto
  have r: "rm_from_directory junk (dir_text ?es) (test_name 0) = dir_text ?es1"
    "rm_from_directory junk (dir_text ?es1) (test_name 12) = dir_text ?es2"
    using rm_from_directory_text [OF ok len] rm_from_directory_text [OF _ len1] ok by auto
  have p: "parse_directory junk (dir_text ?es1) = ?es1" "parse_directory junk (dir_text ?es2) = ?es2"
    using ok by (auto intro!: parse_directory_text)
  show ?thesis
    unfolding UtilitiesRemove_def test_name_def [symmetric] append_tests names by (simp only: Let_def r p cnt simp_thms if_False)
qed

text \<open>The second to the last entries all have the same name.\<close>

lemma append_same:
  "foldl (\<lambda>input i. append_to_directory input s (f i)) (dir_text es) is = dir_text (es @ map (\<lambda>i. \<lparr>ename = s, eid = f i\<rparr>) is)"
  by (induction "is" arbitrary: es) (simp_all add: append_to_directory_text)

lemma Utilities_passes: "Utilities junk"
proof -
  let ?e = "\<lambda>i. \<lparr>ename = ''test'', eid = i\<rparr>"
  have name: "clean_name ''test''" by (simp add: clean_name_def colon_def slash_def)
  have one: "append_to_directory [] ''test'' 2 = dir_text [?e 2]"
    using append_to_directory_text [of "[]" "''test''" 2] by simp
  have all: "foldl (\<lambda>input i. append_to_directory input ''test'' (i + 2)) (dir_text [?e 2]) [0..<100]
      = dir_text ([?e 2] @ map (\<lambda>i. ?e (i + 2)) [0..<100])" by (rule append_same)
  have "parse_directory junk (dir_text [?e 2]) = [?e 2]"
    "parse_directory junk (dir_text ([?e 2] @ map (\<lambda>i. ?e (i + 2)) [0..<100])) = [?e 2] @ map (\<lambda>i. ?e (i + 2)) [0..<100]"
    by (rule parse_directory_text, auto simp: entry_ok_def name)+
  moreover have "parse_directory junk [] = []" by (simp add: parse_directory_def)
  ultimately show ?thesis
    unfolding Utilities_def Let_def one all by (simp only: list.size length_append length_map length_upt) simp
qed

subsection \<open>All of them\<close>

definition demo_clock :: env where
  "demo_clock = \<lparr>env_now = 7, env_wait = 1, env_heap = (\<lambda>_. 0), env_id = 0\<rparr>"

text \<open>C13. The tests of the file system pass on every run: whatever numbers the random generators draw in
  the ranges of their distributions, whatever the clock gives, and whatever the memory of the device, of
  the heap and of the parser's variable held before. So with 50 files of 10 to 100 blocks each, rewritten
  ten times, every content is read back; removing 50 files and directories gives back all their blocks and
  no attribute of them remains; growing and cutting a file moves the count of free blocks and moves it
  back; a hundred directories made in the root are all listed; and a file system mounted from its device
  counts what the one that was made there counts.\<close>

theorem filesystem_tests_pass:
  assumes now: "\<And>i. env_now (evs i) < 2 ^ 64" "\<And>i j. env_now (clk i j) < 2 ^ 64" and sz: "sizes_in_range rs"
  shows "run_test junk heap (Init (evs 0)) = Inr Test_passed
    \<and> run_test junk heap (CreateAndGetAttr evs uni rng) = Inr Test_passed
    \<and> run_test junk heap (Remove evs uni rng) = Inr Test_passed
    \<and> run_test junk heap (WriteLargeFile clk rs seed) = Inr Test_passed
    \<and> run_test junk heap (SetAttr evs) = Inr Test_passed
    \<and> run_test junk heap (DirectOperationAdd (evs 0)) = Inr Test_passed
    \<and> run_test junk heap (mkdir_test evs) = Inr Test_passed
    \<and> Utilities (env_id (evs 0)) \<and> UtilitiesRemove (env_id (evs 0))"
proof (intro conjI Utilities_passes UtilitiesRemove_passes)
qed (rule run_test_passes, rule Init_yields CreateAndGetAttr_yields Remove_yields WriteLargeFile_yields SetAttr_yields
    DirectOperationAdd_yields mkdir_test_yields, (rule now sz)+)+

definition demo_strings :: "nat string_source" where
  "demo_strings = \<lparr>uni_sz = (\<lambda>g. (5120 + g mod 46081, Suc g)), uni_char = (\<lambda>g. (word_of_nat (g mod 27), Suc g))\<rparr>"

theorem filesystem_tests_pass_witness:
  "run_test (\<lambda>_. 0) (\<lambda>_. 0) (WriteLargeFile (\<lambda>_ _. demo_clock) demo_strings 0) = Inr Test_passed
    \<and> run_test (\<lambda>_. 0) (\<lambda>_. 0) (Remove (\<lambda>_. demo_clock) (\<lambda>g. (int (g mod 101), Suc g)) 0) = Inr Test_passed"
proof -
  have now: "env_now demo_clock < 2 ^ 64" by (simp add: demo_clock_def)
  have "g mod 46081 \<le> 46080" for g :: nat using mod_less_divisor [of 46081 g] by simp
  then have "sizes_in_range demo_strings"
    by (simp add: sizes_in_range_def demo_strings_def KLargeFileMin_def KLargeFileMax_def)
  from filesystem_tests_pass [where evs = "\<lambda>_. demo_clock" and clk = "\<lambda>_ _. demo_clock" and junk = "\<lambda>_. 0" and heap = "\<lambda>_. 0"
      and uni = "\<lambda>g. (int (g mod 101), Suc g)" and rng = 0 and seed = 0, OF now now this]
  show ?thesis by blast
qed

end
