(* ===== verification/Library_Tests.thy ===== *)
theory Library_Tests
  imports Test_Logic
begin

text \<open>
  The tests of the layers below the file system (src/test/basic/bitmap\_test.cc, src/test/block,
  src/test/metadata), and that they pass. \<open>EXPECT\<close> differs from \<open>ASSERT\<close> in that the test goes on
  after a failure, which it reports at its end; the model stops there, with the same verdict.
  Memory from \<open>new\<close> is not initialised: its bytes are the argument \<open>junk\<close>. The file \<open>test.db\<close> of the
  block manager's tests is empty or as an earlier run has left it.

  The rules of theory Test_Logic are used with the devices and bitmaps themselves in the place of worlds.
\<close>

subsection \<open>Steps on a state\<close>

text \<open>A call that changes the object, and one that only reads it.\<close>

definition does :: "('s \<Rightarrow> 's run) \<Rightarrow> ('s, unit) test" where
  "does f s = andthen (f s) (\<lambda>s'. Inr (Some (), s'))"

definition asks :: "('s \<Rightarrow> 'a run) \<Rightarrow> ('s, 'a) test" where
  "asks f s = andthen (f s) (\<lambda>a. Inr (Some a, s))"

text \<open>A call whose result, of type \<open>Result\<close> or not, is not looked at, and one that has no \<open>Result\<close>.\<close>

definition calls :: "('s, 'a) exec \<Rightarrow> ('s, 'a) test" where
  "calls m = chain m (\<lambda>a. give (Some a))"

definition ends :: "(crash + 'a option \<times> 's) \<Rightarrow> verdict run" where
  "ends r = andthen r (\<lambda>(v, _). Inr (verdict_of v))"

subsection \<open>The tests of the bitmap\<close>

definition data_sz :: nat where "data_sz = 4096"

definition test_bitmap :: "(nat \<Rightarrow> byte) \<Rightarrow> bitmap" where
  "test_bitmap junk = \<lparr>bits = map junk [0..<data_sz], payload = data_sz\<rparr>"

definition BitmapBasic :: "(bitmap, unit) test" where
  "BitmapBasic =
     next_stmt (does bitmap_zeroed) (\<lambda>_.
     next_stmt (loop_over [0..<data_sz * KBitsPerByte] (\<lambda>i _.
         next_stmt (asks (\<lambda>bm. bitmap_check bm i)) (\<lambda>c. expect (\<not> c))) ()) (\<lambda>_.
     next_stmt (does (\<lambda>bm. bitmap_set bm 3)) (\<lambda>_.
     next_stmt (asks (\<lambda>bm. bitmap_check bm 3)) (\<lambda>c. next_stmt (expect c) (\<lambda>_.
     next_stmt (does (\<lambda>bm. bitmap_set bm 50)) (\<lambda>_.
     next_stmt (asks (\<lambda>bm. bitmap_check bm 50)) (\<lambda>c. next_stmt (expect c) (\<lambda>_.
     next_stmt (does (\<lambda>bm. bitmap_clear bm 3)) (\<lambda>_.
     next_stmt (asks (\<lambda>bm. bitmap_check bm 3)) (\<lambda>c. next_stmt (expect (\<not> c)) (\<lambda>_.
     next_stmt (asks (\<lambda>bm. bitmap_check bm 50)) (\<lambda>c. expect c))))))))))))"

definition BitmapFree :: "(bitmap, unit) test" where
  "BitmapFree =
     next_stmt (does bitmap_zeroed) (\<lambda>_.
     next_stmt (loop_over [0..<data_sz * KBitsPerByte] (\<lambda>i _.
         next_stmt (asks find_first_free) (\<lambda>free. case free of
           None \<Rightarrow> give None
         | Some v \<Rightarrow>
             next_stmt (expect (v = i)) (\<lambda>_.
             next_stmt (does (\<lambda>bm. bitmap_set bm i)) (\<lambda>_.
             if i mod 1000 = 0 then next_stmt (asks count_ones) (\<lambda>n. expect (n = i + 1)) else give (Some ()))))) ()) (\<lambda>_.
     next_stmt (does (\<lambda>bm. bitmap_clear bm 4096)) (\<lambda>_.
     next_stmt (asks find_first_free) (\<lambda>free. next_stmt (expect (free \<noteq> None)) (\<lambda>_.
     next_stmt (does (\<lambda>bm. bitmap_set bm 4096)) (\<lambda>_.
     next_stmt (asks find_first_free) (\<lambda>free. expect (free = None))))))))"

subsection \<open>The tests of the block device\<close>

text \<open>\<open>strncpy\<close> copies the string and fills up with zeros.\<close>

definition strncpy :: "string \<Rightarrow> nat \<Rightarrow> byte list" where
  "strncpy s n = take n (map (\<lambda>c. word_of_nat (of_char c)) s @ replicate n 0)"

definition test_string :: "nat \<Rightarrow> byte list" where
  "test_string n = strncpy ''A test string.'' n"

text \<open>The part that three tests begin with: \<open>data\<close> and \<open>buf\<close> are as long as a block, and \<open>memcmp\<close>
  compares them.\<close>

definition write_and_read :: "nat \<Rightarrow> (nat \<Rightarrow> byte) \<Rightarrow> (block_manager, byte list) test" where
  "write_and_read b junk =
     next_stmt (calls (reads block_size)) (\<lambda>bs.
     let data = test_string bs; buf = map junk [0..<bs] in
     next_stmt (calls (write_block b data)) (\<lambda>_.
     next_stmt (calls (read_block b buf)) (\<lambda>(_, buf1).
     next_stmt (expect (buf1 = data)) (\<lambda>_. give (Some buf1)))))"

definition ReadWritePageTest :: "byte list \<Rightarrow> (nat \<Rightarrow> byte) \<Rightarrow> verdict run" where
  "ReadWritePageTest file junk =
     andthen (open_default_file_manager file) (\<lambda>bm. ends (write_and_read 0 junk bm))"

definition ZeroTest :: "byte list \<Rightarrow> (nat \<Rightarrow> byte) \<Rightarrow> verdict run" where
  "ZeroTest file junk =
     andthen (open_default_file_manager file) (\<lambda>bm. ends (
       next_stmt (write_and_read 1 junk) (\<lambda>buf.
       next_stmt (expect (list_ex (\<lambda>x. x \<noteq> 0) buf)) (\<lambda>_.
       next_stmt (calls (zero_block 1)) (\<lambda>_.
       next_stmt (calls (read_block 1 buf)) (\<lambda>(_, buf1).
       expect (list_all (\<lambda>x. x = 0) buf1))))) bm))"

definition InMemoryTest :: "(nat \<Rightarrow> byte) \<Rightarrow> (nat \<Rightarrow> byte) \<Rightarrow> verdict run" where
  "InMemoryTest mem junk =
     andthen (new_memory_manager 4096 4096 mem) (\<lambda>bm. ends (write_and_read 0 junk bm))"

text \<open>The loop of the test of the iterator; the fuel is one more than the blocks of the range.\<close>

fun iterator_loop :: "nat \<Rightarrow> block_iterator \<Rightarrow> nat \<Rightarrow> (block_manager, nat) test" where
  "iterator_loop 0 iter cnt = crash_with NoReturn"
| "iterator_loop (Suc fuel) iter cnt =
     next_stmt (calls (reads (has_next iter))) (\<lambda>more.
     if \<not> more then give (Some cnt)
     else next_stmt (calls (reads (value_window iter))) (\<lambda>w.
          next_stmt (calls (lift_run (store_checked w 0 (le_bytes 8 (wrap32 (cnt + 73)))))) (\<lambda>w1.
          next_stmt (calls (reads (set_value_window iter w1))) (\<lambda>iter1.
          next_stmt (unwrapped (flush_cur_block iter1)) (\<lambda>_.
          next_stmt (calls (iterator_next 4096 iter1)) (\<lambda>(res, iter2).
          next_stmt (calls (lift_run (unwrap res))) (\<lambda>_.
          iterator_loop fuel iter2 (wrap32 (cnt + 1)))))))))"

definition Iterator :: "(nat \<Rightarrow> byte) \<Rightarrow> verdict run" where
  "Iterator mem =
     andthen (new_memory_manager 1024 4096 mem) (\<lambda>bm. ends (
       next_stmt (unwrapped (iterator_create 2 128)) (\<lambda>iter.
       next_stmt (iterator_loop (Suc (128 - 2)) iter 0) (\<lambda>count.
       next_stmt (expect (count = 128 - 2)) (\<lambda>_.
       loop_over [2..<128] (\<lambda>i _.
         next_stmt (calls (read_block i (replicate 4096 0))) (\<lambda>(_, buffer).
         next_stmt (calls (lift_run (load_checked buffer 0 8))) (\<lambda>ptr.
         expect (le_nat ptr = i - 2 + 73)))) ()))) bm))"

subsection \<open>The tests of the block allocator\<close>

definition AllocatorInit :: "(nat \<Rightarrow> byte) \<Rightarrow> (nat \<Rightarrow> byte) \<Rightarrow> verdict run" where
  "AllocatorInit mem mem1 =
     andthen (new_memory_manager (1024 * 1024) 4096 mem) (\<lambda>bm.
     andthen (new_block_allocator_at_start bm) (\<lambda>(allocator, bm).
     let bitmap_block_cnt = total_bitmap_block allocator in
     andthen (free_block_cnt allocator bm) (\<lambda>(n, bm).
     if \<not> n = sub32 (total_blocks bm) bitmap_block_cnt then Inr Test_failed
     else andthen (new_memory_manager (1024 * 1024) 4096 mem1) (\<lambda>bm1.
     let reserved_block = 1 in
     andthen (new_block_allocator reserved_block True bm1) (\<lambda>(allocator_1, bm1).
     let bitmap_block_cnt1 = total_bitmap_block allocator_1 in
     andthen (free_block_cnt allocator_1 bm1) (\<lambda>(n1, bm1).
     if \<not> n1 = sub32 (sub32 (total_blocks bm1) bitmap_block_cnt1) reserved_block then Inr Test_failed
     else andthen (free_block_cnt allocator_1 bm1) (\<lambda>(n1, bm1).
          andthen (free_block_cnt allocator bm) (\<lambda>(n, bm).
          Inr (if wrap32 (n1 + 1) = n then Test_passed else Test_failed)))))))))"

definition Allocation :: "(nat \<Rightarrow> byte) \<Rightarrow> verdict run" where
  "Allocation mem =
     andthen (new_memory_manager 1024 4096 mem) (\<lambda>bm. ends (
       next_stmt (calls new_block_allocator_at_start) (\<lambda>allocator.
       let bitmap_block_cnt = total_bitmap_block allocator in
       next_stmt (calls (free_block_cnt allocator)) (\<lambda>free_cnt.
       next_stmt (loop_over [0..<free_cnt] (\<lambda>i _.
           next_stmt (expect_ok (allocate allocator)) (\<lambda>free_block_id.
           expect (free_block_id = wrap32 (i + bitmap_block_cnt)))) ()) (\<lambda>_.
       next_stmt (calls (free_block_cnt allocator)) (\<lambda>n.
       next_stmt (expect (n = 0)) (\<lambda>_.
       loop_over [0..<free_cnt] (\<lambda>i _.
         next_stmt (calls (deallocate allocator (wrap32 (i + bitmap_block_cnt)))) (\<lambda>res. expect (is_ok res))) ()))))) bm))"

subsection \<open>The test of the super block\<close>

text \<open>\<open>SetUpTestCase\<close>, \<open>SetUp\<close> and the test. \<open>sb\<close> is the memory the super block is built in.\<close>

definition CreateFromZero :: "(nat \<Rightarrow> byte) \<Rightarrow> (nat \<Rightarrow> byte) \<Rightarrow> verdict run" where
  "CreateFromZero mem sb =
     andthen (new_memory_manager 1024 4096 mem) (\<lambda>bm. ends (
       next_stmt (calls (new_block_allocator 1 True)) (\<lambda>allocator.
       next_stmt (calls (reads (\<lambda>bm. new_super_block bm 1024 sb))) (\<lambda>r.
       next_stmt (calls (lift_run r)) (\<lambda>superblock.
       next_stmt (unwrapped (flush_super_block superblock 0)) (\<lambda>_.
       next_stmt (unwrapped (create_from_existing 0)) (\<lambda>superblock1.
       expect (get_ninodes superblock1 = 1024)))))) bm))"

subsection \<open>The tests of the inode\<close>

definition test_block_sz :: nat where "test_block_sz = 4096"

definition test_inode_block :: "byte list" where
  "test_inode_block = replicate test_block_sz 0"

text \<open>The inode outside the buffer is only its header.\<close>

definition InodeInit :: "nat \<Rightarrow> verdict run" where
  "InodeInit now =
     andthen (new_inode FILE test_block_sz now) (\<lambda>inode.
     if \<not> hnblocks inode > 0 then Inr Test_failed
     else andthen (flush_to_buffer inode test_inode_block) (\<lambda>inode_p.
     if \<not> get_type_code inode_p = type_code FILE then Inr Test_failed
     else if \<not> hnblocks inode = get_nblocks inode_p then Inr Test_failed
     else andthen (ends (loop_over [0..<get_nblocks inode_p] (\<lambda>i _.
            next_stmt (asks (\<lambda>inode_p. blocks_get inode_p i)) (\<lambda>b. expect (b = KInvalidBlockID))) () inode_p)) (\<lambda>v.
     if v = Test_failed then Inr Test_failed
     else let file_sz_supported_by_one_block = test_block_sz div 8 * test_block_sz;
              file_in_inode = ((test_block_sz - sizeof_Inode) div 8 - 1) * test_block_sz
          in Inr (if max_file_sz_supported (encode_header inode) = file_sz_supported_by_one_block + file_in_inode
                  then Test_passed else Test_failed))))"

text \<open>The loops of the other two tests run over the slots of a buffer that is all zero. \<open>holds\<close> is the
  assertion on a slot and the count; the second loop stores to the slots and does not count.\<close>

fun slots_loop :: "nat \<Rightarrow> (nat \<Rightarrow> nat \<Rightarrow> bool) \<Rightarrow> inode_iterator \<Rightarrow> nat \<Rightarrow> (byte list, nat) test" where
  "slots_loop 0 holds iter cnt = crash_with NoReturn"
| "slots_loop (Suc fuel) holds iter cnt =
     next_stmt (calls (reads (\<lambda>inode_p. inode_iter_ne iter (inode_end inode_p)))) (\<lambda>more.
     if \<not> more then give (Some cnt)
     else next_stmt (asks (\<lambda>inode_p. inode_deref inode_p iter)) (\<lambda>b.
          next_stmt (expect (holds b cnt)) (\<lambda>_.
          slots_loop fuel holds (snd (inode_incr_post iter)) (wrap32 (cnt + 1)))))"

fun slots_write_loop :: "nat \<Rightarrow> inode_iterator \<Rightarrow> nat \<Rightarrow> (byte list, unit) test" where
  "slots_write_loop 0 iter cnt = crash_with NoReturn"
| "slots_write_loop (Suc fuel) iter cnt =
     next_stmt (calls (reads (\<lambda>inode_p. inode_iter_ne iter (inode_end inode_p)))) (\<lambda>more.
     if \<not> more then give (Some ())
     else next_stmt (does (\<lambda>inode_p. blocks_set inode_p (nat (cur_idx iter)) (wrap32 (cnt + 73)))) (\<lambda>_.
          slots_write_loop fuel (snd (inode_incr_post iter)) cnt))"

definition Iteration :: "verdict run" where
  "Iteration = ends (
     next_stmt (slots_loop (Suc (get_nblocks test_inode_block)) (\<lambda>b cnt. b = KInvalidBlockID) inode_begin 0) (\<lambda>cnt.
     next_stmt (asks (\<lambda>inode_p. Inr (get_nblocks inode_p))) (\<lambda>n.
     next_stmt (expect (cnt = n)) (\<lambda>_.
     slots_write_loop (Suc n) inode_begin 0))) test_inode_block)"

definition IterationWrite :: "verdict run" where
  "IterationWrite = ends (
     next_stmt (slots_loop (Suc (get_nblocks test_inode_block)) (\<lambda>b cnt. b = wrap32 (cnt + 73)) inode_begin 0) (\<lambda>cnt.
     next_stmt (asks (\<lambda>inode_p. Inr (get_nblocks inode_p))) (\<lambda>n. expect (cnt = n))) test_inode_block)"

subsection \<open>The tests of the inode manager\<close>

definition test_block_cnt :: nat where "test_block_cnt = 4096"

text \<open>\<open>SetUp\<close>: the manager and the number of inodes it supports.\<close>

definition inode_manager_set_up :: "(block_manager, inode_manager \<times> nat) test" where
  "inode_manager_set_up =
     (let test_inode_num = 1024 in
      next_stmt (calls (new_inode_manager test_inode_num)) (\<lambda>inode_manager.
      next_stmt (expect (get_max_inode_supported inode_manager \<ge> test_inode_num)) (\<lambda>_.
      give (Some (inode_manager, get_max_inode_supported inode_manager)))))"

definition InitAndTable :: "(nat \<Rightarrow> byte) \<Rightarrow> verdict run" where
  "InitAndTable mem =
     andthen (new_memory_manager test_block_cnt test_block_sz mem) (\<lambda>bm. ends (
       next_stmt inode_manager_set_up (\<lambda>_.
       loop_over [1..<64] (\<lambda>i _.
         next_stmt (unwrapped (set_table (i - 1) (i + 73))) (\<lambda>_.
         next_stmt (unwrapped (im_get i)) (\<lambda>b. expect (b = i + 73)))) ()) bm))"

text \<open>A round of the loop, \<open>prev\<close> the block of the round before. The loop stops at the first allocation that
  finds no block; \<open>None\<close> stands for having stopped.\<close>

definition inode_allocation_round ::
    "inode_manager \<Rightarrow> block_allocator \<Rightarrow> (nat \<Rightarrow> nat) \<Rightarrow> (nat \<Rightarrow> nat \<Rightarrow> byte) \<Rightarrow> nat \<Rightarrow> nat option \<Rightarrow> (block_manager, nat option) test" where
  "inode_allocation_round inode_manager1 allocator now heap i prev = (case prev of
     None \<Rightarrow> give (Some None)
   | Some prev_id \<Rightarrow>
       next_stmt (calls (allocate allocator)) (\<lambda>free_block_res.
       if is_err free_block_res
       then next_stmt (expect (prev_id = test_block_cnt - 1)) (\<lambda>_. give (Some None))
       else next_stmt (calls (lift_run (unwrap free_block_res))) (\<lambda>free_block.
            next_stmt (unwrapped (allocate_inode inode_manager1 Directory free_block (now i) (heap i))) (\<lambda>inode_id.
            next_stmt (expect (inode_id = i + 1)) (\<lambda>_. give (Some (Some free_block)))))))"

definition inode_allocation ::
    "(nat \<Rightarrow> nat) \<Rightarrow> (nat \<Rightarrow> nat \<Rightarrow> byte) \<Rightarrow> inode_manager \<times> nat \<Rightarrow> (block_manager, nat option) test" where
  "inode_allocation now heap = (\<lambda>(inode_manager, test_inode_num).
     next_stmt (calls (reads (create_from_block_manager test_inode_num))) (\<lambda>r.
     next_stmt (unwrapped (lift_run r)) (\<lambda>inode_manager1.
     next_stmt (expect (get_max_inode_supported inode_manager1 = test_inode_num)) (\<lambda>_.
     next_stmt (unwrapped (free_inode_cnt inode_manager1)) (\<lambda>free_cnt.
     next_stmt (calls (new_block_allocator (get_reserved_blocks inode_manager1) True)) (\<lambda>allocator.
     next_stmt (expect (free_cnt = test_inode_num)) (\<lambda>_.
     loop_over [0..<free_cnt] (inode_allocation_round inode_manager1 allocator now heap) (Some 0))))))))"

definition InodeAllocation :: "(nat \<Rightarrow> byte) \<Rightarrow> (nat \<Rightarrow> nat) \<Rightarrow> (nat \<Rightarrow> nat \<Rightarrow> byte) \<Rightarrow> verdict run" where
  "InodeAllocation mem now heap =
     andthen (new_memory_manager test_block_cnt test_block_sz mem) (\<lambda>bm.
     ends (next_stmt inode_manager_set_up (inode_allocation now heap) bm))"

end
