(* ===== verification/Library_Tests_Pass.thy ===== *)
theory Library_Tests_Pass
  imports Library_Tests
begin

text \<open>
  The tests of the layers below the file system pass. The devices and bitmaps take the place of the
  worlds of theory Test_Logic: the interpretation \<open>plain\<close> gives its rules for the state itself.
\<close>

subsection \<open>Rules\<close>

interpretation plain: simulation "\<lambda>_. True" "\<lambda>s. s" .

lemma does_next: "f s = Inr s' \<Longrightarrow> plain.yields s' (k ()) R \<Longrightarrow> plain.yields s (next_stmt (does f) k) R"
  by (simp add: plain.yields_def next_stmt_def does_def chain_def)

lemma asks_next: "f s = Inr a \<Longrightarrow> plain.yields s (k a) R \<Longrightarrow> plain.yields s (next_stmt (asks f) k) R"
  by (simp add: plain.yields_def next_stmt_def asks_def chain_def)

lemma calls_next: "m s = Inr (a, s') \<Longrightarrow> plain.yields s' (k a) R \<Longrightarrow> plain.yields s (next_stmt (calls m) k) R"
  by (simp add: plain.yields_def next_stmt_def calls_def chain_def)

lemma unwrapped_next: "m s = Inr (Ok a, s') \<Longrightarrow> plain.yields s' (k a) R \<Longrightarrow> plain.yields s (next_stmt (unwrapped m) k) R"
  by (simp add: plain.yields_def next_stmt_def unwrapped_def chain_def)

lemma expect_ok_next: "m s = Inr (Ok a, s') \<Longrightarrow> plain.yields s' (k a) R \<Longrightarrow> plain.yields s (next_stmt (expect_ok m) k) R"
  by (simp add: plain.yields_def next_stmt_def expect_ok_def chain_def)

lemma calls_reads_next: "plain.yields s (k (f s)) R \<Longrightarrow> plain.yields s (next_stmt (calls (reads f)) k) R"
  by (rule calls_next) simp

lemma calls_lift_next: "r = Inr a \<Longrightarrow> plain.yields s (k a) R \<Longrightarrow> plain.yields s (next_stmt (calls (lift_run r)) k) R"
  by (rule calls_next) simp_all

lemma asks_end: "f s = Inr a \<Longrightarrow> Q a s \<Longrightarrow> plain.yields s (asks f) Q"
  by (simp add: plain.yields_def asks_def)

lemma ends_passed: "plain.yields s m Q \<Longrightarrow> ends (m s) = Inr Test_passed"
  by (auto simp: plain.yields_def ends_def)

subsection \<open>The tests of the bitmap pass\<close>

definition zero_bitmap :: bitmap where
  "zero_bitmap = \<lparr>bits = replicate data_sz 0, payload = data_sz\<rparr>"

lemma zero_bitmap_ok: "bitmap_ok zero_bitmap" "payload zero_bitmap = 4096" "k < 32768 \<Longrightarrow> \<not> bit_at (bits zero_bitmap) k"
  by (simp_all add: bitmap_ok_def zero_bitmap_def data_sz_def bit_at_def)

lemma zeroed_test: "bitmap_zeroed (test_bitmap junk) = Inr zero_bitmap"
  by (simp add: bitmap_zeroed_def test_bitmap_def zero_bitmap_def store_full)

text \<open>Bitmaps of the size of the tests, and the updates of their bits.\<close>

definition test_bits :: "bitmap \<Rightarrow> (nat \<Rightarrow> bool) \<Rightarrow> bool" where
  "test_bits b P \<longleftrightarrow> bitmap_ok b \<and> payload b = 4096 \<and> (\<forall>k < 32768. bit_at (bits b) k = P k)"

lemma test_bits_zero: "test_bits zero_bitmap (\<lambda>_. False)"
  using zero_bitmap_ok by (simp add: test_bits_def)

lemma test_bits_update:
  assumes "test_bits b P" and "i < 32768"
  shows "\<exists>b'. bitmap_set b i = Inr b' \<and> test_bits b' (P(i := True))"
    and "\<exists>b'. bitmap_clear b i = Inr b' \<and> test_bits b' (P(i := False))"
    and "bitmap_check b i = Inr (P i)"
  using assms bitmap_set_ok [of b i] bitmap_clear_ok [of b i] bitmap_check_ok [of b i]
  by (auto simp: test_bits_def bitmap_ok_def bit_set_bit_at)

lemma test_bits_search:
  assumes "test_bits b P"
  shows "find_first_free b = Inr (find (\<lambda>k. \<not> P k) [0..<32768])"
    and "count_ones b = Inr (card {k. k < 32768 \<and> P k})"
proof -
  have "find (\<lambda>k. \<not> bit_at (bits b) k) [0..<32768] = find (\<lambda>k. \<not> P k) [0..<32768]"
    using assms by (intro find_cong refl) (auto simp: test_bits_def)
  then show "find_first_free b = Inr (find (\<lambda>k. \<not> P k) [0..<32768])"
    using assms find_first_free_ok [of b] by (simp add: test_bits_def first_clear_def del: upt_rec_numeral)
  have "{k. k < 32768 \<and> bit_at (bits b) k} = {k. k < 32768 \<and> P k}" using assms by (auto simp: test_bits_def)
  then show "count_ones b = Inr (card {k. k < 32768 \<and> P k})"
    using assms count_ones_ok [of b] by (simp add: test_bits_def)
qed

lemma BitmapBasic_passes: "ends (BitmapBasic (test_bitmap junk)) = Inr Test_passed"
proof -
  have lim: "data_sz * KBitsPerByte = 32768" by (simp add: data_sz_def KBitsPerByte_def)
  let ?body = "\<lambda>i (_ :: unit). next_stmt (asks (\<lambda>bm. bitmap_check bm i)) (\<lambda>c. expect (\<not> c))"
  let ?I = "\<lambda>_ (_ :: unit) b. b = zero_bitmap"
  have loop: "plain.yields zero_bitmap (loop_over [0..<data_sz * KBitsPerByte] ?body ()) (\<lambda>u v. u = () \<and> v = zero_bitmap)"
    unfolding lim
  proof (rule plain.yields_mono, rule plain.yields_loop [where I = ?I])
    fix i u b assume i: "i < length [0..<32768 :: nat]" and b: "b = zero_bitmap"
    have k: "i < 32768" "[0..<32768] ! i = i" using i by (simp_all add: nth_upt)
    show "plain.yields b (?body ([0..<32768] ! i) u) (?I (Suc i))"
      unfolding k(2) b
      by (rule asks_next, rule test_bits_update(3) [OF test_bits_zero k(1)], rule plain.yields_expect) simp_all
  qed simp_all
  obtain b1 where b1: "bitmap_set zero_bitmap 3 = Inr b1" "test_bits b1 ((\<lambda>_. False)(3 := True))"
    using test_bits_update(1) [OF test_bits_zero, of 3] by auto
  obtain b2 where b2: "bitmap_set b1 50 = Inr b2" "test_bits b2 ((\<lambda>_. False)(3 := True, 50 := True))"
    using test_bits_update(1) [OF b1(2), of 50] by auto
  obtain b3 where b3: "bitmap_clear b2 3 = Inr b3" "test_bits b3 ((\<lambda>_. False)(3 := True, 50 := True, 3 := False))"
    using test_bits_update(2) [OF b2(2), of 3] by auto
  have c: "bitmap_check b1 3 = Inr True" "bitmap_check b2 50 = Inr True" "bitmap_check b3 3 = Inr False" "bitmap_check b3 50 = Inr True"
    using test_bits_update(3) [OF b1(2), of 3] test_bits_update(3) [OF b2(2), of 50]
      test_bits_update(3) [OF b3(2), of 3] test_bits_update(3) [OF b3(2), of 50] by simp_all
  note run = does_next [where f = "\<lambda>bm. bitmap_set bm 3", OF b1(1)] does_next [where f = "\<lambda>bm. bitmap_set bm 50", OF b2(1)]
    does_next [where f = "\<lambda>bm. bitmap_clear bm 3", OF b3(1)] asks_next [where f = "\<lambda>bm. bitmap_check bm 3", OF c(1)]
    asks_next [where f = "\<lambda>bm. bitmap_check bm 50", OF c(2)] asks_next [where f = "\<lambda>bm. bitmap_check bm 3", OF c(3)]
    asks_next [where f = "\<lambda>bm. bitmap_check bm 50", OF c(4)]
  have "plain.yields (test_bitmap junk) BitmapBasic (\<lambda>_ _. True)"
    unfolding BitmapBasic_def
    by (intro does_next [where f = bitmap_zeroed, OF zeroed_test] plain.yields_step [OF loop] run
        plain.yields_expect_next plain.yields_expect) simp_all
  then show ?thesis by (rule ends_passed)
qed

lemma find_upto: "i < n \<Longrightarrow> find (\<lambda>k. \<not> k < i) [0..<n] = Some i"
  unfolding find_Some_iff by (intro exI [of _ i]) simp

lemma BitmapFree_passes: "ends (BitmapFree (test_bitmap junk)) = Inr Test_passed"
proof -
  have lim: "data_sz * KBitsPerByte = 32768" by (simp add: data_sz_def KBitsPerByte_def)
  let ?body = "\<lambda>i (_ :: unit). next_stmt (asks find_first_free) (\<lambda>free. case free of
           None \<Rightarrow> give None
         | Some v \<Rightarrow>
             next_stmt (expect (v = i)) (\<lambda>_.
             next_stmt (does (\<lambda>bm. bitmap_set bm i)) (\<lambda>_.
             if i mod 1000 = 0 then next_stmt (asks count_ones) (\<lambda>n. expect (n = i + 1)) else give (Some ()))))"
  let ?I = "\<lambda>i (_ :: unit) b. test_bits b (\<lambda>k. k < i)"
  have loop: "plain.yields zero_bitmap (loop_over [0..<data_sz * KBitsPerByte] ?body ()) (?I (length [0..<32768 :: nat]))"
    unfolding lim
  proof (rule plain.yields_loop [where I = ?I])
    fix i u b assume i: "i < length [0..<32768 :: nat]" and b: "test_bits b (\<lambda>k. k < i)"
    have k: "i < 32768" "[0..<32768] ! i = i" using i by (simp_all add: nth_upt)
    have f: "find_first_free b = Inr (Some i)" using test_bits_search(1) [OF b] find_upto [OF k(1)] by simp
    obtain b1 where b1: "bitmap_set b i = Inr b1" "test_bits b1 ((\<lambda>k. k < i)(i := True))"
      using test_bits_update(1) [OF b k(1)] by blast
    have upd: "(\<lambda>k. k < i)(i := True) = (\<lambda>k. k < Suc i)" by (auto simp: fun_eq_iff)
    have c: "count_ones b1 = Inr (i + 1)"
    proof -
      have "{k. k < 32768 \<and> k < Suc i} = {..i}" using k(1) by auto
      then show ?thesis using test_bits_search(2) [OF b1(2)] unfolding upd by simp
    qed
    have "plain.yields b1 (if i mod 1000 = 0 then next_stmt (asks count_ones) (\<lambda>n. expect (n = i + 1)) else give (Some ())) (?I (Suc i))"
      using b1(2) unfolding upd
      by (auto intro!: asks_next [where f = count_ones, OF c] plain.yields_expect plain.yields_give)
    then show "plain.yields b (?body ([0..<32768] ! i) u) (?I (Suc i))"
      unfolding k(2)
      by (intro asks_next [where f = find_first_free, OF f])
        (simp add: plain.yields_expect_next does_next [where f = "\<lambda>bm. bitmap_set bm i", OF b1(1)])
  qed (simp add: test_bits_zero)
  have rest: "plain.yields b (next_stmt (does (\<lambda>bm. bitmap_clear bm 4096)) (\<lambda>_.
     next_stmt (asks find_first_free) (\<lambda>free. next_stmt (expect (free \<noteq> None)) (\<lambda>_.
     next_stmt (does (\<lambda>bm. bitmap_set bm 4096)) (\<lambda>_.
     next_stmt (asks find_first_free) (\<lambda>free. expect (free = None))))))) (\<lambda>_ _. True)"
    if b: "test_bits b (\<lambda>k. k < 32768)" for b
  proof -
    obtain b1 where b1: "bitmap_clear b 4096 = Inr b1" "test_bits b1 ((\<lambda>k. k < 32768)(4096 := False))"
      using test_bits_update(2) [OF b, of 4096] by auto
    obtain b2 where b2: "bitmap_set b1 4096 = Inr b2" "test_bits b2 ((\<lambda>k. k < 32768)(4096 := False, 4096 := True))"
      using test_bits_update(1) [OF b1(2), of 4096] by auto
    have f1: "find (\<lambda>k. \<not> ((\<lambda>k. k < 32768)(4096 := False)) k) [0..<32768] \<noteq> None"
      unfolding find_None_iff by (auto intro!: bexI [of _ 4096])
    have f2: "find (\<lambda>k. \<not> ((\<lambda>k. k < 32768)(4096 := False, 4096 := True)) k) [0..<32768] = None"
      unfolding find_None_iff by auto
    show ?thesis
      by (rule does_next, rule b1(1), rule asks_next, rule test_bits_search(1) [OF b1(2)], rule plain.yields_expect_next, rule f1,
          rule does_next, rule b2(1), rule asks_next, rule test_bits_search(1) [OF b2(2)], rule plain.yields_expect, rule f2, rule TrueI)
  qed
  have "plain.yields (test_bitmap junk) BitmapFree (\<lambda>_ _. True)"
    unfolding BitmapFree_def
    by (rule does_next, rule zeroed_test, rule plain.yields_next [OF loop], rule rest) simp
  then show ?thesis by (rule ends_passed)
qed

subsection \<open>The tests of the block device pass\<close>

lemma length_strncpy [simp]: "length (strncpy s n) = n"
  by (simp add: strncpy_def)

lemma write_and_read_yields:
  assumes wf: "wf_bm bm" and b: "b < block_cnt bm"
  shows "plain.yields bm (write_and_read b junk) (\<lambda>buf s. buf = test_string (block_sz bm) \<and> s = upd_blk b (test_string (block_sz bm)) bm)"
proof -
  let ?d = "test_string (block_sz bm)"
  have len: "length ?d = block_sz bm" by (simp add: test_string_def)
  have w: "write_block b ?d bm = Inr (Ok (), upd_blk b ?d bm)" using wf b len by (rule write_block_ok)
  have r: "read_block b (map junk [0..<block_sz bm]) (upd_blk b ?d bm) = Inr ((Ok (), ?d), upd_blk b ?d bm)"
    using read_block_ok [of "upd_blk b ?d bm" b "map junk [0..<block_sz bm]"] wf b len by (simp add: blk_upd_blk)
  show ?thesis
    unfolding write_and_read_def Let_def
    by (rule calls_reads_next, unfold block_size_def, rule calls_next, rule w, rule calls_next, rule r, unfold prod.case,
        rule plain.yields_expect_next, rule refl, rule plain.yields_give) simp
qed

text \<open>The file of the tests.\<close>

definition usual_file :: "byte list \<Rightarrow> bool" where
  "usual_file file \<longleftrightarrow> file = [] \<or> length file = 4096 * 4096"

lemma open_usual_file:
  assumes "usual_file file"
  obtains bm where "open_default_file_manager file = Inr bm" and "wf_bm bm" and "block_sz bm = 4096" and "block_cnt bm = 4096"
proof (cases "file = []")
  case True
  have "open_default_file_manager [] = Inr \<lparr>block_sz = 4096, block_cnt = 4096, block_data = replicate (4096 * 4096) 0, in_memory = False\<rparr>"
    using open_fresh_file [of 4096] by (simp add: open_default_file_manager_def KDefaultBlockCnt_def)
  then show ?thesis using True that by (simp add: wf_bm_def)
next
  case False
  let ?bm = "\<lparr>block_sz = 4096, block_cnt = 4096, block_data = file, in_memory = False\<rparr>"
  have len: "length file = 4096 * 4096" using False assms by (simp add: usual_file_def)
  then have wf: "wf_bm ?bm" by (simp add: wf_bm_def)
  have "open_file_manager (block_data ?bm) KDefaultBlockCnt = Inr ?bm"
    using open_same_file [OF wf, of "[]"] by (simp add: KDefaultBlockCnt_def)
  then show ?thesis using wf that by (simp add: open_default_file_manager_def)
qed

lemma ReadWritePageTest_passes:
  assumes "usual_file file"
  shows "ReadWritePageTest file junk = Inr Test_passed"
proof (rule open_usual_file [OF assms])
  fix bm assume bm: "open_default_file_manager file = Inr bm" "wf_bm bm" "block_sz bm = 4096" "block_cnt bm = 4096"
  then show ?thesis by (simp add: ReadWritePageTest_def ends_passed [OF write_and_read_yields])
qed

lemma ZeroTest_passes:
  assumes "usual_file file"
  shows "ZeroTest file junk = Inr Test_passed"
proof (rule open_usual_file [OF assms])
  fix bm assume bm: "open_default_file_manager file = Inr bm" "wf_bm bm" "block_sz bm = 4096" "block_cnt bm = 4096"
  let ?d = "test_string (block_sz bm)" and ?z = "replicate 4096 (0 :: byte)"
  let ?bm1 = "upd_blk 1 ?d bm"
  have d: "length ?d = 4096" "list_ex (\<lambda>x. x \<noteq> 0) ?d"
    by (simp_all add: test_string_def strncpy_def bm(3))
  have wf: "wf_bm ?bm1" using bm d(1) by simp
  have z: "zero_block 1 ?bm1 = Inr (Ok (), upd_blk 1 ?z ?bm1)"
    using zero_block_ok [OF wf, of 1] bm by simp
  have r: "read_block 1 ?d (upd_blk 1 ?z ?bm1) = Inr ((Ok (), ?z), upd_blk 1 ?z ?bm1)"
    using read_block_ok [of "upd_blk 1 ?z ?bm1" 1 ?d] wf bm d(1) by (simp add: blk_upd_blk)
  have "plain.yields bm (next_stmt (write_and_read 1 junk) (\<lambda>buf.
       next_stmt (expect (list_ex (\<lambda>x. x \<noteq> 0) buf)) (\<lambda>_.
       next_stmt (calls (zero_block 1)) (\<lambda>_.
       next_stmt (calls (read_block 1 buf)) (\<lambda>(_, buf1).
       expect (list_all (\<lambda>x. x = 0) buf1)))))) (\<lambda>_ _. True)"
    by (rule plain.yields_step [OF write_and_read_yields [OF bm(2)]], simp add: bm, rule plain.yields_expect_next, rule d(2),
        rule calls_next, rule z, rule calls_next, rule r, unfold prod.case, rule plain.yields_expect) (simp_all add: list_all_iff)
  then show ?thesis using bm(1) by (simp add: ZeroTest_def ends_passed)
qed

lemma new_memory_device:
  assumes "0 < cnt" and "0 < sz" and "cnt < 2 ^ 32" and "sz < 2 ^ 32"
  obtains bm where "new_memory_manager cnt sz mem = Inr bm" and "wf_bm bm" and "block_sz bm = sz" and "block_cnt bm = cnt"
proof -
  let ?bm = "\<lparr>block_sz = sz, block_cnt = cnt, block_data = map mem [0..<cnt * sz], in_memory = True\<rparr>"
  have wf: "wf_bm ?bm" using assms by (simp add: wf_bm_def)
  then have "wrap64 (cnt * sz) = cnt * sz" using device_size_less [OF wf] by simp
  then have "new_memory_manager cnt sz mem = Inr ?bm" using assms by (simp add: new_memory_manager_def Let_def)
  then show ?thesis using wf by (rule that) simp_all
qed

lemma InMemoryTest_passes: "InMemoryTest mem junk = Inr Test_passed"
proof (rule new_memory_device [of 4096 4096 mem])
  fix bm assume bm: "new_memory_manager 4096 4096 mem = Inr bm" "wf_bm bm" "block_sz bm = 4096" "block_cnt bm = 4096"
  then show ?thesis by (simp add: InMemoryTest_def ends_passed [OF write_and_read_yields])
qed simp_all

text \<open>The iterator's loop: the blocks from 2 up to the cursor hold the numbers from 73 on.\<close>

definition numbered :: "nat \<Rightarrow> block_manager \<Rightarrow> bool" where
  "numbered n bm \<longleftrightarrow> wf_bm bm \<and> block_sz bm = 4096 \<and> block_cnt bm = 1024
     \<and> (\<forall>k < n. le_nat (load (blk bm (2 + k)) 0 8) = k + 73)"

lemma iterator_loop_yields:
  "numbered k bm \<Longrightarrow> at_block it 2 128 k bm \<Longrightarrow> k + n = 126 \<Longrightarrow>
   plain.yields bm (iterator_loop (Suc n) it k) (\<lambda>c s. c = 126 \<and> numbered 126 s)"
proof (induction n arbitrary: k bm it)
  case 0
  then have "\<not> has_next it bm" using has_next_iff [of bm it 2 128 k] by (simp add: numbered_def)
  then show ?case
    using 0 unfolding iterator_loop.simps by (intro calls_reads_next) (simp add: plain.yields_give)
next
  case (Suc n)
  have wf: "wf_bm bm" and sz: "block_sz bm = 4096" "block_cnt bm = 1024" using Suc.prems(1) by (simp_all add: numbered_def)
  have k: "k < 126" using Suc.prems(3) by simp
  have more: "has_next it bm" using has_next_iff [OF wf Suc.prems(2)] k by simp
  let ?v = "le_bytes 8 (wrap32 (k + 73))"
  let ?d = "store (blk bm (2 + k)) 0 ?v"
  let ?bm = "upd_blk (2 + k) ?d bm"
  let ?it = "set_value_window it ?d bm"
  have len: "length (blk bm (2 + k)) = 4096" "length ?d = 4096" using wf sz k by simp_all
  have win: "value_window it bm = blk bm (2 + k)" "flush_cur_block ?it bm = Inr (Ok (), ?bm)"
    using at_block_window [OF wf Suc.prems(2)] len sz k by simp_all
  have st: "store_checked (blk bm (2 + k)) 0 ?v = Inr ?d" using len by simp
  have wf1: "wf_bm ?bm" using wf sz k len by simp
  have blk1: "blk ?bm c = (if c = 2 + k then ?d else blk bm c)" if "c < 1024" for c
    using blk_upd_blk [OF wf, of "2 + k" c ?d] that sz k len by simp
  have at1: "at_block ?it 2 128 k ?bm"
    using Suc.prems(2) blk1 [of "2 + k"] k by (simp add: at_block_def set_value_window_def sz)
  obtain it2 where it2: "iterator_next 4096 ?it ?bm = Inr ((Ok (), it2), ?bm)" "at_block it2 2 128 (Suc k) ?bm"
    using iterator_next_ok [OF wf1 at1] k sz by auto
  have w: "wrap32 (k + 73) = k + 73" "wrap32 (k + 1) = Suc k" using k by simp_all
  have "le_nat (load ?d 0 8) = k + 73"
    using load_store_same [of 0 ?v "blk bm (2 + k)"] len k by (simp add: w le_nat_le_bytes)
  then have num: "numbered (Suc k) ?bm"
    using Suc.prems(1) wf1 blk1 k by (auto simp: numbered_def less_Suc_eq)
  have "plain.yields ?bm (iterator_loop (Suc n) it2 (wrap32 (k + 1))) (\<lambda>c s. c = 126 \<and> numbered 126 s)"
    unfolding w(2) using Suc.prems(3) by (intro Suc.IH [OF num it2(2)]) simp
  then show ?case
    by (subst iterator_loop.simps)
      (rule calls_reads_next, simp only: more not_True_eq_False if_False, rule calls_reads_next, unfold win(1), rule calls_lift_next, rule st,
       rule calls_reads_next, rule unwrapped_next, rule win(2), rule calls_next, rule it2(1), unfold prod.case,
       rule calls_lift_next, rule unwrap.simps(1))
qed

lemma Iterator_passes: "Iterator mem = Inr Test_passed"
proof (rule new_memory_device [of 1024 4096 mem])
  fix bm assume bm: "new_memory_manager 1024 4096 mem = Inr bm" "wf_bm bm" "block_sz bm = 4096" "block_cnt bm = 1024"
  obtain it where it: "iterator_create 2 128 bm = Inr (Ok it, bm)" "at_block it 2 128 0 bm"
    using iterator_create_ok [OF bm(2), of 2 128] bm by auto
  have "numbered 0 bm" using bm by (simp add: numbered_def)
  from iterator_loop_yields [OF this it(2), of 126]
  have loop: "plain.yields bm (iterator_loop (Suc (128 - 2)) it 0) (\<lambda>c s. c = 126 \<and> numbered 126 s)" by simp
  let ?check = "\<lambda>i (_ :: unit). next_stmt (calls (read_block i (replicate 4096 0))) (\<lambda>(_, buffer).
         next_stmt (calls (lift_run (load_checked buffer 0 8))) (\<lambda>ptr. expect (le_nat ptr = i - 2 + 73)))"
  let ?I = "\<lambda>(_ :: nat) (_ :: unit). numbered 126"
  have check: "plain.yields s (loop_over [2..<128] ?check ()) (?I (length [2..<128 :: nat]))" if "numbered 126 s" for s
  proof (rule plain.yields_loop [where I = ?I])
    fix i u s assume i: "i < length [2..<128 :: nat]" and s: "numbered 126 s"
    have k: "i < 126" "[2..<128] ! i = 2 + i" using i by (simp_all add: nth_upt del: upt_rec_numeral)
    have len: "length (blk s (2 + i)) = 4096" using s k by (simp add: numbered_def)
    have r: "read_block (2 + i) (replicate 4096 0) s = Inr ((Ok (), blk s (2 + i)), s)"
      using s k by (intro read_block_ok) (simp_all add: numbered_def)
    have l: "load_checked (blk s (2 + i)) 0 8 = Inr (load (blk s (2 + i)) 0 8)" using len by simp
    show "plain.yields s (?check ([2..<128] ! i) u) (?I (Suc i))"
      unfolding k(2)
      by (rule calls_next, rule r, unfold prod.case, rule calls_lift_next, rule l, rule plain.yields_expect)
        (use s k in \<open>simp_all add: numbered_def\<close>)
  qed (use that in simp)
  have "plain.yields bm (next_stmt (unwrapped (iterator_create 2 128)) (\<lambda>iter.
       next_stmt (iterator_loop (Suc (128 - 2)) iter 0) (\<lambda>count.
       next_stmt (expect (count = 128 - 2)) (\<lambda>_. loop_over [2..<128] ?check ())))) (\<lambda>_ _. True)"
    by (rule unwrapped_next, rule it(1), rule plain.yields_next [OF loop], rule plain.yields_expect_next, simp,
        rule plain.yields_mono [OF check]) simp_all
  then show ?thesis by (simp only: Iterator_def bm(1) andthen_simps ends_passed)
qed simp_all

subsection \<open>The tests of the block allocator pass\<close>

lemma bitmap_blocks_4096: "block_sz bm = 4096 \<Longrightarrow> block_cnt bm = 1024 \<or> block_cnt bm = 4096 \<Longrightarrow> bitmap_blocks bm = 1"
  "block_sz bm = 4096 \<Longrightarrow> block_cnt bm = 1048576 \<Longrightarrow> bitmap_blocks bm = 32"
  by (auto simp: bitmap_blocks_def)

lemma fresh_allocator:
  assumes wf: "wf_bm bm" and sz: "block_sz bm = 4096" and fits: "base + bitmap_blocks bm \<le> block_cnt bm" and cnt: "0 < block_cnt bm"
  obtains s where "new_block_allocator base True bm = Inr (allocator_for base bm, s)" and "alloc_ok (allocator_for base bm) s"
    and "block_cnt s = block_cnt bm" and "block_sz s = 4096"
    and "free_set (allocator_for base bm) s = {base + bitmap_blocks bm..<block_cnt bm}"
    and "\<forall>c < base. blk s c = blk bm c"
proof -
  have T: "bpb bm < 2 ^ 32" by (simp add: sz)
  from new_block_allocator_ok [OF wf T cnt fits] obtain s where s:
    "new_block_allocator base True bm = Inr (allocator_for base bm, s)" "alloc_ok (allocator_for base bm) s"
    "block_sz s = block_sz bm" "block_cnt s = block_cnt bm"
    "\<forall>c < block_cnt bm. c < base \<or> base + bitmap_blocks bm \<le> c \<longrightarrow> blk s c = blk bm c"
    "\<forall>b < block_cnt bm. used (allocator_for base bm) s b \<longleftrightarrow> b < base + bitmap_blocks bm" by blast
  have "free_set (allocator_for base bm) s = {base + bitmap_blocks bm..<block_cnt bm}"
    using s(4,6) by (auto simp: free_set_def)
  moreover have "\<forall>c < base. blk s c = blk bm c" using s(5) fits by simp
  ultimately show ?thesis using s sz that by simp
qed

lemma total_bitmap_for: "bitmap_blocks bm < 2 ^ 32 \<Longrightarrow> total_bitmap_block (allocator_for base bm) = bitmap_blocks bm"
  by (simp add: total_bitmap_block_def allocator_for_def)

lemma AllocatorInit_passes: "AllocatorInit mem mem1 = Inr Test_passed"
proof (rule new_memory_device [of "1024 * 1024" 4096 mem])
  fix bm assume bm: "new_memory_manager (1024 * 1024) 4096 mem = Inr bm" "wf_bm bm" "block_sz bm = 4096" "block_cnt bm = 1024 * 1024"
  show ?thesis
  proof (rule new_memory_device [of "1024 * 1024" 4096 mem1])
    fix bm1 assume bm1: "new_memory_manager (1024 * 1024) 4096 mem1 = Inr bm1" "wf_bm bm1" "block_sz bm1 = 4096" "block_cnt bm1 = 1024 * 1024"
    have m: "bitmap_blocks bm = 32" "bitmap_blocks bm1 = 32" using bm bm1 bitmap_blocks_4096(2) by simp_all
    have fits: "0 + bitmap_blocks bm \<le> block_cnt bm" "0 < block_cnt bm" "1 + bitmap_blocks bm1 \<le> block_cnt bm1" "0 < block_cnt bm1"
      using m bm(4) bm1(4) by simp_all
    obtain s where s: "new_block_allocator 0 True bm = Inr (allocator_for 0 bm, s)" "alloc_ok (allocator_for 0 bm) s"
      "block_cnt s = block_cnt bm" "block_sz s = 4096" "free_set (allocator_for 0 bm) s = {0 + bitmap_blocks bm..<block_cnt bm}"
      by (rule fresh_allocator [OF bm(2,3) fits(1,2)])
    obtain s1 where s1: "new_block_allocator 1 True bm1 = Inr (allocator_for 1 bm1, s1)" "alloc_ok (allocator_for 1 bm1) s1"
      "block_cnt s1 = block_cnt bm1" "block_sz s1 = 4096" "free_set (allocator_for 1 bm1) s1 = {1 + bitmap_blocks bm1..<block_cnt bm1}"
      by (rule fresh_allocator [OF bm1(2,3) fits(3,4)])
    have c: "free_block_cnt (allocator_for 0 bm) s = Inr (1048544, s)" "free_block_cnt (allocator_for 1 bm1) s1 = Inr (1048543, s1)"
      unfolding ba.count_free [OF s(2)] ba.count_free [OF s1(2)] s(5) s1(5) m bm(4) bm1(4) card_atLeastLessThan by simp_all
    have t: "total_bitmap_block (allocator_for 0 bm) = 32" "total_bitmap_block (allocator_for 1 bm1) = 32"
      using m total_bitmap_for [of bm] total_bitmap_for [of bm1] by simp_all
    have b: "total_blocks s = 1048576" "total_blocks s1 = 1048576"
      using s(3) s1(3) bm(4) bm1(4) by (simp_all add: total_blocks_def)
    have w: "sub32 1048576 32 = 1048544" "sub32 1048544 1 = 1048543" "wrap32 (1048543 + 1) = 1048544"
      by (simp_all add: sub32_id)
    show ?thesis
      unfolding AllocatorInit_def new_block_allocator_at_start_def Let_def
      by (simp only: bm(1) bm1(1) s(1) s1(1) andthen_simps prod.case t b c w not_True_eq_False simp_thms if_True if_False)
  qed simp_all
qed simp_all

lemma Allocation_passes: "Allocation mem = Inr Test_passed"
proof (rule new_memory_device [of 1024 4096 mem])
  fix bm assume bm: "new_memory_manager 1024 4096 mem = Inr bm" "wf_bm bm" "block_sz bm = 4096" "block_cnt bm = 1024"
  let ?al = "allocator_for 0 bm"
  have m: "bitmap_blocks bm = 1" using bm bitmap_blocks_4096(1) by simp
  have fits: "0 + bitmap_blocks bm \<le> block_cnt bm" "0 < block_cnt bm" using m bm(4) by simp_all
  obtain s where s: "new_block_allocator 0 True bm = Inr (?al, s)" "alloc_ok ?al s"
    "block_cnt s = 1024" "free_set ?al s = {1..<1024}"
    using fresh_allocator [OF bm(2,3) fits] m bm(4) by (metis add_0)
  have t: "total_bitmap_block ?al = 1" using m total_bitmap_for [of bm] by simp
  define n where "n = (1023 :: nat)"
  let ?I = "\<lambda>i (_ :: unit) s. alloc_ok ?al s \<and> block_cnt s = 1024 \<and> free_set ?al s = {i + 1..<1024}"
  let ?take = "\<lambda>i (_ :: unit). next_stmt (expect_ok (allocate ?al)) (\<lambda>b. expect (b = wrap32 (i + 1)))"
  have takes: "plain.yields s (loop_over [0..<n] ?take ()) (?I (length [0..<n]))"
  proof (rule plain.yields_loop [where I = ?I])
    fix i u s assume i: "i < length [0..<n]" and s: "?I i u s"
    have k: "i < 1023" "[0..<n] ! i = i" using i by (simp_all add: nth_upt n_def)
    have free: "free_set ?al s = {i + 1..<1024}" using s by blast
    then have min: "Min (free_set ?al s) = i + 1" using k by (intro Min_eqI) auto
    have ne: "free_set ?al s \<noteq> {}" using free k by simp
    obtain s' where s': "allocate ?al s = Inr (Ok (i + 1), s')" "alloc_ok ?al s'" "block_cnt s' = block_cnt s"
      "free_set ?al s' = free_set ?al s - {i + 1}"
      using ba.acquire_least [OF _ ne] s unfolding min by blast
    have "free_set ?al s' = {Suc i + 1..<1024}" unfolding s'(4) free by auto
    then have "?I (Suc i) () s'" using s'(2,3) s by simp
    then show "plain.yields s (?take ([0..<n] ! i) u) (?I (Suc i))"
      unfolding k(2) by (intro expect_ok_next [where m = "allocate ?al", OF s'(1)] plain.yields_expect) (use k in simp_all)
  qed (use s in simp)
  let ?J = "\<lambda>i (_ :: unit) s. alloc_ok ?al s \<and> block_cnt s = 1024 \<and> free_set ?al s = {1..<i + 1}"
  let ?drop = "\<lambda>i (_ :: unit). next_stmt (calls (deallocate ?al (wrap32 (i + 1)))) (\<lambda>res. expect (is_ok res))"
  have drops: "plain.yields s (loop_over [0..<n] ?drop ()) (?J (length [0..<n]))" if "?J 0 () s" for s
  proof (rule plain.yields_loop [where I = ?J])
    fix i u s assume i: "i < length [0..<n]" and s: "?J i u s"
    have k: "i < 1023" "[0..<n] ! i = i" "wrap32 (i + 1) = i + 1" using i by (simp_all add: nth_upt n_def)
    have free: "free_set ?al s = {1..<i + 1}" using s by blast
    obtain s' where s': "deallocate ?al (i + 1) s = Inr (Ok (), s')" "alloc_ok ?al s'" "block_cnt s' = block_cnt s"
      "free_set ?al s' = insert (i + 1) (free_set ?al s)"
      using ba.release_used [of ?al s "i + 1"] s k(1) free by auto
    have "free_set ?al s' = {1..<Suc i + 1}" unfolding s'(4) free by auto
    then have "?J (Suc i) () s'" using s'(2,3) s by simp
    then show "plain.yields s (?drop ([0..<n] ! i) u) (?J (Suc i))"
      unfolding k(2,3) by (intro calls_next [where m = "deallocate ?al (i + 1)", OF s'(1)] plain.yields_expect) simp_all
  qed (use that in simp)
  have c: "free_block_cnt ?al s = Inr (n, s)" unfolding ba.count_free [OF s(2)] s(4) card_atLeastLessThan by (simp add: n_def)
  have rest: "plain.yields s (next_stmt (calls (free_block_cnt ?al)) (\<lambda>k. next_stmt (expect (k = 0)) (\<lambda>_.
      loop_over [0..<n] ?drop ()))) (\<lambda>_ _. True)" if s: "?I n () s" for s
  proof -
    have c: "free_block_cnt ?al s = Inr (0, s)" using ba.count_free [of ?al s] s by (simp add: n_def)
    have "?J 0 () s" using s by (simp add: n_def)
    from plain.yields_mono [OF drops [OF this]] show ?thesis
      by (intro calls_next [where m = "free_block_cnt ?al", OF c] plain.yields_expect_next) simp_all
  qed
  have "plain.yields bm (next_stmt (calls new_block_allocator_at_start) (\<lambda>allocator.
       let bitmap_block_cnt = total_bitmap_block allocator in
       next_stmt (calls (free_block_cnt allocator)) (\<lambda>free_cnt.
       next_stmt (loop_over [0..<free_cnt] (\<lambda>i _.
           next_stmt (expect_ok (allocate allocator)) (\<lambda>free_block_id.
           expect (free_block_id = wrap32 (i + bitmap_block_cnt)))) ()) (\<lambda>_.
       next_stmt (calls (free_block_cnt allocator)) (\<lambda>n.
       next_stmt (expect (n = 0)) (\<lambda>_.
       loop_over [0..<free_cnt] (\<lambda>i _.
         next_stmt (calls (deallocate allocator (wrap32 (i + bitmap_block_cnt)))) (\<lambda>res. expect (is_ok res))) ())))))) (\<lambda>_ _. True)"
    unfolding new_block_allocator_at_start_def
    by (rule calls_next, rule s(1), unfold Let_def t, rule calls_next, rule c, rule plain.yields_next [OF takes], rule rest) simp
  then show ?thesis by (simp only: Allocation_def bm(1) andthen_simps ends_passed)
qed simp_all

subsection \<open>The tests of the super block and of the inode pass\<close>

lemma CreateFromZero_passes: "CreateFromZero mem sb = Inr Test_passed"
proof (rule new_memory_device [of 1024 4096 mem])
  fix bm assume bm: "new_memory_manager 1024 4096 mem = Inr bm" "wf_bm bm" "block_sz bm = 4096" "block_cnt bm = 1024"
  have m: "bitmap_blocks bm = 1" using bm bitmap_blocks_4096(1) by simp
  have fits: "1 + bitmap_blocks bm \<le> block_cnt bm" "0 < block_cnt bm" using m bm(4) by simp_all
  obtain s where s: "new_block_allocator 1 True bm = Inr (allocator_for 1 bm, s)" "alloc_ok (allocator_for 1 bm) s"
    "block_cnt s = block_cnt bm" "block_sz s = 4096" "free_set (allocator_for 1 bm) s = {1 + bitmap_blocks bm..<block_cnt bm}"
    by (rule fresh_allocator [OF bm(2,3) fits])
  let ?im = "\<lparr>max_inode_supported = 1024, n_table_blocks = 0, n_bitmap_blocks = 0\<rparr>"
  have wf: "wf_bm s" using s(2) by simp
  have pos: "0 < block_cnt s" "32 \<le> block_sz s" "(1024 :: nat) < 2 ^ 64" "max_inode_supported ?im = 1024"
    using s(3,4) bm(4) by simp_all
  obtain b d where b: "new_super_block s 1024 sb = Inr b" "length d = block_sz s"
    "flush_super_block b 0 s = Inr (Ok (), upd_blk 0 d s)" "super_ok ?im (upd_blk 0 d s)"
    by (rule flush_super_block_ok [OF wf pos])
  have wf1: "wf_bm (upd_blk 0 d s)" "0 < block_cnt (upd_blk 0 d s)" "32 \<le> block_sz (upd_blk 0 d s)" using wf pos b(2) by simp_all
  note c = create_from_existing_ok [OF wf1]
  have n: "get_ninodes (decode_super_block (take 32 (blk (upd_blk 0 d s) 0))) = 1024"
    using b(4) by (simp add: super_ok_def get_ninodes_def Let_def)
  have "plain.yields bm (next_stmt (calls (new_block_allocator 1 True)) (\<lambda>allocator.
       next_stmt (calls (reads (\<lambda>bm. new_super_block bm 1024 sb))) (\<lambda>r.
       next_stmt (calls (lift_run r)) (\<lambda>superblock.
       next_stmt (unwrapped (flush_super_block superblock 0)) (\<lambda>_.
       next_stmt (unwrapped (create_from_existing 0)) (\<lambda>superblock1.
       expect (get_ninodes superblock1 = 1024))))))) (\<lambda>_ _. True)"
    by (rule calls_next, rule s(1), rule calls_reads_next, rule calls_lift_next, rule b(1), rule unwrapped_next, rule b(3),
        rule unwrapped_next, rule c, rule plain.yields_expect, rule n, rule TrueI)
  then show ?thesis by (simp only: CreateFromZero_def bm(1) andthen_simps ends_passed)
qed simp_all

lemma InodeInit_passes:
  assumes now: "now < 2 ^ 64"
  shows "InodeInit now = Inr Test_passed"
proof -
  let ?a = "\<lparr>atime = now, mtime = now, ctime = now, fsize = 0\<rparr>"
  let ?h = "\<lparr>itype = 1, inner_attr = ?a, hblock_size = 4096, hnblocks = 506\<rparr>"
  have n: "nslots 4096 = 506" by (simp add: nslots_def)
  have new: "new_inode FILE test_block_sz now = Inr ?h"
    by (simp add: new_inode_def sizeof_Inode_def set_all_time_def test_block_sz_def)
  obtain buf where buf: "flush_to_buffer ?h test_inode_block = Inr buf" "ino_ok 4096 buf" "get_type_code buf = 1"
    "\<forall>j < 506. slot buf j = 0"
    using new_inode_ok [of 4096 now test_inode_block FILE] new now n by (auto simp: test_inode_block_def test_block_sz_def)
  have nb: "get_nblocks buf = 506" using buf(2) n by (simp add: ino_ok_def)
  let ?body = "\<lambda>i (_ :: unit). next_stmt (asks (\<lambda>inode_p. blocks_get inode_p i)) (\<lambda>b. expect (b = KInvalidBlockID))"
  have "plain.yields buf (loop_over [0..<get_nblocks buf] ?body ()) ((\<lambda>(_ :: nat) (_ :: unit) s. s = buf) (length [0..<get_nblocks buf]))"
  proof (rule plain.yields_loop [where I = "\<lambda>(_ :: nat) (_ :: unit) s. s = buf"])
    fix i u s assume i: "i < length [0..<get_nblocks buf]" and s: "s = buf"
    have k: "i < 506" "[0..<get_nblocks buf] ! i = i" using i nb by (simp_all add: nth_upt)
    have g: "blocks_get buf i = Inr 0" using blocks_get_ok [OF buf(2), of i] buf(4) k(1) n by simp
    show "plain.yields s (?body ([0..<get_nblocks buf] ! i) u) (\<lambda>_ s. s = buf)"
      unfolding k(2) s by (rule asks_next, rule g, rule plain.yields_expect) (simp_all add: KInvalidBlockID_def)
  qed simp
  then have slots: "ends (loop_over [0..<get_nblocks buf] ?body () buf) = Inr Test_passed" by (rule ends_passed)
  have len: "length (encode_header ?h) = 44 + 0" "take 44 (encode_header ?h) = encode_header ?h" by (simp_all add: encode_header_def)
  have g: "get_block_size (encode_header ?h) = 4096" "get_nblocks (encode_header ?h) = 506"
    using get_le_encode [OF len] now by simp_all
  have sz: "max_file_sz_supported (encode_header ?h) = test_block_sz div 8 * test_block_sz + ((test_block_sz - sizeof_Inode) div 8 - 1) * test_block_sz"
    unfolding max_file_sz_supported_def g Let_def by (simp add: test_block_sz_def sizeof_Inode_def sub32_id)
  have sel: "0 < hnblocks ?h" "get_type_code buf = type_code FILE" "hnblocks ?h = get_nblocks buf"
    using buf(3) nb by simp_all
  show ?thesis
    unfolding InodeInit_def new andthen_simps buf(1) slots Let_def sz
    using sel by simp
qed

text \<open>
  The two tests of the iterator pass because their buffer says that the inode has no blocks: the fixture
  clears it before each test, and the loops end before their first step.
\<close>

lemma no_slots: "get_nblocks test_inode_block = 0" "inode_end test_inode_block = inode_begin"
proof -
  have "le_nat (replicate 4 0) = 0" by (simp add: numeral_eq_Suc)
  then show "get_nblocks test_inode_block = 0"
    by (simp add: get_nblocks_def get_le_def load_def test_inode_block_def test_block_sz_def)
  then show "inode_end test_inode_block = inode_begin" by (simp add: inode_end_def inode_begin_def)
qed

lemma slots_loop_none: "slots_loop (Suc 0) holds inode_begin 0 test_inode_block = Inr (Some 0, test_inode_block)"
  by (simp add: next_stmt_def calls_def chain_def inode_iter_ne_def no_slots)

lemma Iteration_passes: "Iteration = Inr Test_passed" "IterationWrite = Inr Test_passed"
  unfolding Iteration_def IterationWrite_def no_slots
  by (simp_all add: ends_def next_stmt_def chain_def slots_loop_none asks_def expect_def no_slots calls_def inode_iter_ne_def
      del: slots_loop.simps)

subsection \<open>The tests of the inode manager pass\<close>

text \<open>The manager of the tests: 64 blocks of table and one of bitmap for 32768 inodes.\<close>

definition test_manager :: inode_manager where
  "test_manager = \<lparr>max_inode_supported = 32768, n_table_blocks = 64, n_bitmap_blocks = 1\<rparr>"

lemma test_manager_sel [simp]: "max_inode_supported test_manager = 32768" "n_table_blocks test_manager = 64"
  "n_bitmap_blocks test_manager = 1" "im_end test_manager = 66" "get_reserved_blocks test_manager = 66"
  by (simp_all add: test_manager_def im_end_def get_reserved_blocks_def)

lemma manager_for_test: "block_sz bm = 4096 \<Longrightarrow> manager_for bm 1024 = test_manager"
  by (simp add: manager_for_def bitmap_blocks_for_def test_manager_def Let_def)

definition fresh_manager :: "block_manager \<Rightarrow> bool" where
  "fresh_manager s \<longleftrightarrow> im_ok test_manager s \<and> block_sz s = 4096 \<and> block_cnt s = 4096 \<and> ino_free test_manager s = {..<32768}"

lemma set_up_yields:
  assumes "wf_bm bm" and "block_sz bm = 4096" and "block_cnt bm = 4096"
  shows "plain.yields bm inode_manager_set_up (\<lambda>r s. r = (test_manager, 32768) \<and> fresh_manager s)"
proof -
  have fits: "im_end (manager_for bm 1024) < block_cnt bm" using assms by (simp add: manager_for_test)
  from new_inode_manager_ok [OF assms(1) _ _ _ _ fits] assms(2,3) obtain s where s:
    "new_inode_manager 1024 bm = Inr (test_manager, s)" "im_ok test_manager s" "block_sz s = 4096" "block_cnt s = 4096"
    "\<forall>i < 32768. \<not> ibit test_manager s i"
    by (auto simp: manager_for_test)
  then have "fresh_manager s" by (auto simp: fresh_manager_def ino_free_def)
  then show ?thesis
    unfolding inode_manager_set_up_def Let_def
    by (intro calls_next [where m = "new_inode_manager 1024", OF s(1)] plain.yields_expect_next plain.yields_give)
      (simp_all add: get_max_inode_supported_def)
qed

lemma InitAndTable_passes: "InitAndTable mem = Inr Test_passed"
proof (rule new_memory_device [of test_block_cnt test_block_sz mem])
  fix bm assume bm: "new_memory_manager test_block_cnt test_block_sz mem = Inr bm" "wf_bm bm"
    "block_sz bm = test_block_sz" "block_cnt bm = test_block_cnt"
  let ?body = "\<lambda>i (_ :: unit). next_stmt (unwrapped (set_table (i - 1) (i + 73))) (\<lambda>_.
         next_stmt (unwrapped (im_get i)) (\<lambda>b. expect (b = i + 73)))"
  let ?I = "\<lambda>(_ :: nat) (_ :: unit). im_ok test_manager"
  have loop: "plain.yields s (loop_over [1..<64] ?body ()) (?I (length [1..<64 :: nat]))" if "fresh_manager s" for s
  proof (rule plain.yields_loop [where I = ?I])
    fix i u s assume i: "i < length [1..<64 :: nat]" and s: "im_ok test_manager s"
    have k: "i < 63" "[1..<64] ! i = Suc i" using i by (simp_all add: nth_upt del: upt_rec_numeral)
    have set: "set_table (Suc i - 1) (Suc i + 73) s = Inr (Ok (), upd_table i (Suc i + 73) s)"
      using set_table_ok [OF s, of i "Suc i + 73"] k(1) by simp
    have ok: "im_ok test_manager (upd_table i (Suc i + 73) s)" using im_ok_upd_table [OF s, of i] k(1) by simp
    have get: "im_get (Suc i) (upd_table i (Suc i + 73) s) = Inr (Ok (Suc i + 73), upd_table i (Suc i + 73) s)"
      using im_get_ok [OF ok, of "Suc i"] table_upd_table [OF s, of i i "Suc i + 73"] k(1) by simp
    show "plain.yields s (?body ([1..<64] ! i) u) (?I (Suc i))"
      unfolding k(2) by (rule unwrapped_next, rule set, rule unwrapped_next, rule get, rule plain.yields_expect, rule refl, rule ok)
  qed (use that in \<open>simp add: fresh_manager_def\<close>)
  have "plain.yields bm (next_stmt inode_manager_set_up (\<lambda>_. loop_over [1..<64] ?body ())) (\<lambda>_ _. True)"
    using bm by (intro plain.yields_next [OF set_up_yields] plain.yields_mono [OF loop]) (simp_all add: test_block_sz_def test_block_cnt_def)
  then show ?thesis by (simp only: InitAndTable_def bm(1) andthen_simps ends_passed)
qed (simp_all add: test_block_cnt_def test_block_sz_def)

text \<open>The allocation loop: after \<open>i\<close> rounds the first \<open>i\<close> blocks behind the tables and the first \<open>i\<close> ids are in use.\<close>

definition allocated :: "block_allocator \<Rightarrow> nat \<Rightarrow> block_manager \<Rightarrow> bool" where
  "allocated al i s \<longleftrightarrow> im_ok test_manager s \<and> alloc_ok al s \<and> block_sz s = 4096 \<and> block_cnt s = 4096
     \<and> bitmap_block_id al = 66 \<and> free_set al s = {67 + i..<4096} \<and> ino_free test_manager s = {i..<32768}"

lemma allocated_step:
  assumes A: "allocated al i s" and i: "i < 4029" and now: "now < 2 ^ 64"
  shows "\<exists>s1 s2. allocate al s = Inr (Ok (67 + i), s1)
    \<and> allocate_inode test_manager Directory (67 + i) now heap s1 = Inr (Ok (i + 1), s2) \<and> allocated al (Suc i) s2"
proof -
  let ?im = test_manager and ?b = "67 + i"
  have im: "im_ok ?im s" and al: "alloc_ok al s" and geo: "block_sz s = 4096" "block_cnt s = 4096"
    and base: "bitmap_block_id al = 66" and free: "free_set al s = {?b..<4096}" and ids: "ino_free ?im s = {i..<32768}"
    using A by (simp_all add: allocated_def)
  have home: "bm_home al t c = 66" if "block_sz t = 4096" "c < 4096" for t c using that base by (simp add: bm_home_def)
  have "Min (free_set al s) = ?b" unfolding free using i by (intro Min_eqI) simp_all
  moreover have "free_set al s \<noteq> {}" unfolding free using i by simp
  ultimately have min: "Min (free_set al s) = ?b" "free_set al s \<noteq> {}" by simp_all
  let ?s1 = "mark al True ?b s"
  have a: "allocate al s = Inr (Ok ?b, ?s1)" using allocate_free [OF al min(2)] unfolding min(1) .
  let ?d = "set_bit_at True (blk s 66) (?b mod bpb s)"
  have s1: "?s1 = upd_blk 66 ?d s" using home [of s ?b] geo i by (simp add: mark_def)
  have d: "length ?d = block_sz s" "66 < block_cnt s" using im geo by simp_all
  have im1: "im_ok ?im ?s1" unfolding s1 by (rule im_ok_upd_blk [OF im d(2,1)])
  have ids1: "ino_free ?im ?s1 = {i..<32768}"
    unfolding ids [symmetric] s1 using outside_tables(2) [OF im _ _ d(2,1)] by (auto simp: ino_free_def)
  have geo1: "block_sz ?s1 = 4096" "block_cnt ?s1 = 4096" using geo unfolding s1 by simp_all
  have al1: "alloc_ok al ?s1" and free1: "free_set al ?s1 = {?b..<4096} - {?b}"
    using al used_mark [OF al, of ?b] geo i free [symmetric] unfolding s1 [symmetric]
    by (auto simp: free_set_def alloc_ok_mark)
  have bid: "?b < block_cnt ?s1" using geo1 i by simp
  have "Min (ino_free ?im ?s1) = i" unfolding ids1 using i by (intro Min_eqI) simp_all
  moreover have "ino_free ?im ?s1 \<noteq> {}" unfolding ids1 using i by simp
  ultimately have "find (\<lambda>j. \<not> ibit ?im ?s1 j) [0..<max_inode_supported ?im] = Some i" by (simp only: ino_free_find if_False)
  with allocate_inode_eq [OF im1 bid now, of Directory heap] obtain buf where buf:
    "fresh_inode (block_sz ?s1) Directory now buf"
    "allocate_inode ?im Directory ?b now heap ?s1 = Inr (Ok (i + 1), put_inode ?im i ?b buf ?s1)"
    by (auto simp: alloc_inode_spec_def)
  let ?s2 = "put_inode ?im i ?b buf ?s1"
  have len: "length buf = block_sz ?s1" using buf(1) by (simp add: fresh_inode_def ino_ok_def)
  have i2: "i < max_inode_supported ?im" "im_end ?im \<le> ?b" using i by simp_all
  note p = put_inode_ok [OF im1 i2(1,2) bid len]
  have geo2: "block_sz ?s2 = 4096" "block_cnt ?s2 = 4096" using geo1 by simp_all
  have "blk ?s2 66 = blk ?s1 66" using p(2) [of 66] geo1 by simp
  then have u: "used al ?s2 c = used al ?s1 c" if "c < 4096" for c
    using home [of ?s1 c] home [of ?s2 c] geo1 geo2 that by (simp add: used_def)
  have "free_set al ?s2 = free_set al ?s1" using u geo1 geo2 by (auto simp: free_set_def)
  also have "\<dots> = {67 + Suc i..<4096}" unfolding free1 by auto
  finally have free2: "free_set al ?s2 = {67 + Suc i..<4096}" .
  have "ino_free ?im ?s2 = ino_free ?im ?s1 - {i}"
  proof (rule set_eqI)
    fix x
    show "x \<in> ino_free ?im ?s2 \<longleftrightarrow> x \<in> ino_free ?im ?s1 - {i}"
      by (cases "x < max_inode_supported ?im") (simp_all add: ino_free_def p(4))
  qed
  also have "\<dots> = {Suc i..<32768}" unfolding ids1 by auto
  finally have ids2: "ino_free ?im ?s2 = {Suc i..<32768}" .
  have "alloc_ok al ?s2" using al1 im_ok_wf [OF p(1)] geo1 geo2 by (simp add: alloc_ok_def)
  then have "allocated al (Suc i) ?s2" using p(1) geo2 base free2 ids2 by (simp add: allocated_def)
  then show ?thesis using a buf(2) by blast
qed

text \<open>What holds between the rounds: there is a block for the first 4029 of them.\<close>

definition round_inv :: "block_allocator \<Rightarrow> nat \<Rightarrow> nat option \<Rightarrow> block_manager \<Rightarrow> bool" where
  "round_inv al i prev s \<longleftrightarrow> (\<forall>p. prev = Some p \<longrightarrow> i \<le> 4029 \<and> (0 < i \<longrightarrow> p = 66 + i) \<and> allocated al i s)"

lemma round_yields:
  assumes I: "round_inv al i prev s" and now: "now i < 2 ^ 64"
  shows "plain.yields s (inode_allocation_round test_manager al now heap i prev) (round_inv al (Suc i))"
proof (cases prev)
  case None
  then show ?thesis by (simp add: inode_allocation_round_def plain.yields_give round_inv_def)
next
  case (Some p)
  then have A: "allocated al i s" "i \<le> 4029" "0 < i \<Longrightarrow> p = 66 + i" using I by (simp_all add: round_inv_def)
  show ?thesis
  proof (cases "i = 4029")
    case True
    then have "free_set al s = {}" using A(1) by (simp add: allocated_def)
    then have full: "allocate al s = Inr (Err OUT_OF_RESOURCE, s)" using A(1) by (intro allocate_full) (simp_all add: allocated_def)
    have "p = test_block_cnt - 1" using A(3) True by (simp add: test_block_cnt_def)
    then show ?thesis
      unfolding inode_allocation_round_def Some option.case
      by (intro calls_next [where m = "allocate al", OF full]) (simp add: plain.yields_expect_next plain.yields_give round_inv_def)
  next
    case False
    then have i: "i < 4029" using A(2) by simp
    from allocated_step [OF A(1) i now] obtain s1 s2 where st: "allocate al s = Inr (Ok (67 + i), s1)"
      "allocate_inode test_manager Directory (67 + i) (now i) (heap i) s1 = Inr (Ok (i + 1), s2)" "allocated al (Suc i) s2" by blast
    have "round_inv al (Suc i) (Some (67 + i)) s2" using st(3) i by (simp add: round_inv_def)
    then show ?thesis
      unfolding inode_allocation_round_def Some option.case
      by - (rule calls_next, rule st(1), simp only: is_err.simps if_False, rule calls_lift_next, rule unwrap.simps(1),
          rule unwrapped_next, rule st(2), rule plain.yields_expect_next, rule refl, rule plain.yields_give)
  qed
qed

lemma inode_allocation_yields:
  assumes s: "fresh_manager s" and now: "\<And>i. now i < 2 ^ 64"
  shows "plain.yields s (inode_allocation now heap (im0, 32768)) (\<lambda>_ _. True)"
proof -
  define n where "n = (32768 :: nat)"
  have im: "im_ok test_manager s" and geo: "block_sz s = 4096" "block_cnt s = 4096" and ids: "ino_free test_manager s = {..<32768}"
    using s by (simp_all add: fresh_manager_def)
  have c: "create_from_block_manager n s = Inr (Ok test_manager)"
    using create_from_block_manager_ok [of s 1024] im geo(1) by (simp add: manager_for_test n_def)
  have f: "free_inode_cnt test_manager s = Inr (Ok n, s)" unfolding free_inode_cnt_ok [OF im] ids by (simp add: n_def)
  have m: "bitmap_blocks s = 1" using geo bitmap_blocks_4096(1) by simp
  have fits: "66 + bitmap_blocks s \<le> block_cnt s" "0 < block_cnt s" using m geo by simp_all
  obtain t where t: "new_block_allocator 66 True s = Inr (allocator_for 66 s, t)" "alloc_ok (allocator_for 66 s) t"
    "block_cnt t = block_cnt s" "block_sz t = 4096" "free_set (allocator_for 66 s) t = {66 + bitmap_blocks s..<block_cnt s}"
    "\<forall>c < 66. blk t c = blk s c"
    by (rule fresh_allocator [OF im_ok_wf [OF im] geo(1) fits])
  have im1: "im_ok test_manager t" by (rule im_ok_cong [OF im]) (use t geo in simp_all)
  have "ibit test_manager t i = ibit test_manager s i" if "i < max_inode_supported test_manager" for i
    by (rule ibit_cong [OF im that]) (use t geo in simp_all)
  then have "ino_free test_manager t = {0..<32768}"
    unfolding atLeast0LessThan ids [symmetric] by (auto simp: ino_free_def)
  then have "allocated (allocator_for 66 s) 0 t" using im1 t m geo by (simp add: allocated_def allocator_for_def)
  then have I: "round_inv (allocator_for 66 s) 0 (Some 0) t" by (simp add: round_inv_def)
  have loop: "plain.yields t (loop_over [0..<n] (inode_allocation_round test_manager (allocator_for 66 s) now heap) (Some 0))
      (round_inv (allocator_for 66 s) (length [0..<n]))"
  proof (rule plain.yields_loop [where I = "round_inv (allocator_for 66 s)"])
    fix i prev v assume i: "i < length [0..<n]" and v: "round_inv (allocator_for 66 s) i prev v"
    have k: "[0..<n] ! i = i" using i by simp
    show "plain.yields v (inode_allocation_round test_manager (allocator_for 66 s) now heap ([0..<n] ! i) prev)
        (round_inv (allocator_for 66 s) (Suc i))"
      unfolding k by (rule round_yields [OF v now])
  qed (rule I)
  show ?thesis
    unfolding inode_allocation_def prod.case n_def [symmetric]
    by (rule calls_reads_next, unfold c, rule unwrapped_next, rule exec_simps(3), rule plain.yields_expect_next,
        simp add: get_max_inode_supported_def n_def, rule unwrapped_next, rule f, unfold test_manager_sel, rule calls_next, rule t(1),
        rule plain.yields_expect_next, rule refl, rule plain.yields_mono [OF loop], rule TrueI)
qed

lemma InodeAllocation_passes:
  assumes now: "\<And>i. now i < 2 ^ 64"
  shows "InodeAllocation mem now heap = Inr Test_passed"
proof (rule new_memory_device [of test_block_cnt test_block_sz mem])
  fix bm assume bm: "new_memory_manager test_block_cnt test_block_sz mem = Inr bm" "wf_bm bm"
    "block_sz bm = test_block_sz" "block_cnt bm = test_block_cnt"
  have "plain.yields bm (next_stmt inode_manager_set_up (inode_allocation now heap)) (\<lambda>_ _. True)"
    by (rule plain.yields_next [OF set_up_yields])
      (use bm inode_allocation_yields now in \<open>auto simp: test_block_sz_def test_block_cnt_def\<close>)
  then show ?thesis by (simp only: InodeAllocation_def bm(1) andthen_simps ends_passed)
qed (simp_all add: test_block_cnt_def test_block_sz_def)

subsection \<open>All of them\<close>

text \<open>C30. The tests of the layers below the file system pass on every run, whatever the memory of the devices
  and buffers held before and whatever the clock gives, the device file of two of them being absent,
  empty or left by an earlier run. So the bitmap's search finds the bits in order and counts them; blocks
  come back as written and zeroed blocks are zero; the iterator passes every block of its range once and
  writes to it; the allocator gives all its blocks in ascending order and takes them back, and a reserved
  block costs one; the super block and a new inode come back from their blocks, the latter with the
  largest file size worked out from the sizes of its parts; and the inode manager gives out as many
  inodes as there are blocks for them, with consecutive ids.\<close>

theorem library_tests_pass:
  assumes db: "usual_file file" and now: "\<And>i. now i < 2 ^ 64"
  shows "ends (BitmapBasic (test_bitmap junk)) = Inr Test_passed \<and> ends (BitmapFree (test_bitmap junk)) = Inr Test_passed
    \<and> ReadWritePageTest file junk = Inr Test_passed \<and> ZeroTest file junk = Inr Test_passed
    \<and> InMemoryTest mem junk = Inr Test_passed \<and> Iterator mem = Inr Test_passed
    \<and> AllocatorInit mem mem1 = Inr Test_passed \<and> Allocation mem = Inr Test_passed
    \<and> CreateFromZero mem junk = Inr Test_passed
    \<and> InodeInit (now 0) = Inr Test_passed \<and> Iteration = Inr Test_passed \<and> IterationWrite = Inr Test_passed
    \<and> InitAndTable mem = Inr Test_passed \<and> InodeAllocation mem now heap = Inr Test_passed"
  by (intro conjI BitmapBasic_passes BitmapFree_passes ReadWritePageTest_passes [OF db] ZeroTest_passes [OF db]
      InMemoryTest_passes Iterator_passes AllocatorInit_passes Allocation_passes CreateFromZero_passes
      InodeInit_passes [OF now] Iteration_passes InitAndTable_passes InodeAllocation_passes [OF now])

theorem library_tests_pass_witness:
  "ZeroTest [] (\<lambda>_. 0) = Inr Test_passed \<and> InodeAllocation (\<lambda>_. 0) (\<lambda>i. i mod 7) (\<lambda>_ _. 0) = Inr Test_passed"
proof -
  have "usual_file []" by (simp add: usual_file_def)
  moreover have "(i :: nat) mod 7 < 2 ^ 64" for i using mod_less_divisor [of 7 i] by simp
  ultimately show ?thesis
    using library_tests_pass [of "[]" "\<lambda>i. i mod 7" "\<lambda>_. 0" "\<lambda>_. 0" "\<lambda>_. 0" "\<lambda>_ _. 0"] by blast
qed

end
