(* ===== verification/Spec2Isabelle.thy ===== *)
theory Spec2Isabelle
  imports Device_Claims Inode_Claims File_Claims Directory_Claims Daemon_Main Daemon_Capacity
    Dir_Tests Library_Tests_Pass
begin

text \<open>
  \<^bold>\<open>chfs, an inode file system\<close>

  The program (src/src, src/daemons/single\_node\_fs) is a file system in layers. A block device in
  memory or in a mapped file is cut into blocks of equal size. Block 0 holds the super block; then
  come the inode table (ids to blocks), the bitmap of inodes in use, the bitmap of blocks in use,
  and the data blocks. A file is an inode block with direct block pointers and one indirect block;
  a directory is a file whose bytes are a text of \<open>name:id\<close> entries separated by \<open>/\<close>. A FUSE
  daemon serves requests of the kernel one after the other.

  \<^bold>\<open>Theories and the code they model\<close>

  \<^item> Chfs\_Prelude: machine integers as naturals with the wrap-around written out
    (\<open>wrap32\<close>, \<open>wrap64\<close>, \<open>sub32\<close>, \<open>sub64\<close>), bytes as words, the ways a call can end (\<open>crash\<close>), the
    sequencing of calls (\<open>chain\<close>), buffers (\<open>load\<close>, \<open>store\<close>, little-endian integers) and the locale
    \<open>indexed_store\<close>. Chfs\_Result: common/error\_code.h and common/result.h.
  \<^item> Bitmap: common/bitmap.h. Block\_Manager: block/manager.h and block/manager.cc, the device as the
    list of its bytes. Block\_Iterator: the iterator of the same files. Block\_Allocator and
    Allocator\_Laws: block/allocator.h and block/allocator.cc.
  \<^item> Inode: metadata/inode.h and metadata/inode.cc, an inode being the bytes of its block.
    Inode\_Manager, Inode\_Table, Inode\_Setup: metadata/manager.h and metadata/manager.cc.
    Super\_Block: metadata/superblock.h and metadata/superblock.cc.
  \<^item> File\_Operations: the class \<open>FileOperation\<close>, filesystem/control\_op.cc and filesystem/data\_op.cc.
    File\_System defines soundness (\<open>fs_ok\<close>) and the abstract content (\<open>abs_fs\<close>: ids to type,
    attributes, bytes); File\_Read, File\_Resize, File\_Write, File\_Spec, File\_Control and
    File\_Mount prove that the operations implement their effect on it.
  \<^item> Dir\_Text and Directory: filesystem/directory\_op.cc. Fuse\_Daemon: daemons/single\_node\_fs/main.cc
    and consts.h, with the handlers' replies in Daemon\_Replies and the daemon as a state machine in
    Daemon\_Steps. Logger: logger.h. Daemon\_Main: \<open>main\<close>, from the check of the user to the exit status.
  \<^item> Daemon\_Spec: the abstract specification of the daemon and the proof that the handlers
    refine it. Daemon\_Promises: what follows from it for clients. Daemon\_Capacity: where the blocks are,
    along a run of the daemon.
  \<^item> Stress\_Test: stress-test/allocator.cc. Test\_Logic: the statements of a test case and the rules
    that show a test gets to its end. File\_Tests and Dir\_Tests: the tests of src/test/filessytem.
    Library\_Tests and Library\_Tests\_Pass: those of src/test/basic, src/test/block and
    src/test/metadata. \<open>filesystem_tests_pass\<close> and \<open>library_tests_pass\<close> say that every test case passes.
  \<^item> Demo\_States: concrete runs for the witnesses. Device\_Claims, Inode\_Claims, File\_Claims,
    Directory\_Claims and this theory: the properties.

  \<^bold>\<open>State and operations\<close>

  The whole mutable state of the program is the device (\<open>block_manager\<close>); the inode manager, the
  allocator and \<open>FileOperation\<close> are immutable records of layout numbers. Every operation is a
  function from a device to a crash or a result with the new device; \<open>ChfsResult\<close> is the ordinary
  value \<open>chfs_result\<close>. Order and short-circuits of the calls are those of the code. The clock,
  the uninitialised contents of heap buffers and of one variable are arguments (\<open>env\<close>); a creation reads the
  clock twice, the second time \<open>env_wait\<close> seconds later (\<open>env_later\<close>), and buffers that are in use in the same
  call have their own parts of the heap (\<open>heap_part\<close>). \<open>write_file\<close> reads the clock twice as well, but the first
  reading is overwritten by the second, the one the model has.

  \<^bold>\<open>Locales\<close>

  \<open>indexed_store\<close> is the contract of everything that is read and written by index; it is
  interpreted on the device (\<open>dev.cells\<close>, through \<open>block_device\<close>), the inode table (\<open>tbl\<close>), the two
  bitmaps (\<open>ino_bits\<close>, \<open>use_bits\<close>) and the pointers of an inode (\<open>ptrs\<close>). \<open>block_store\<close> is the
  contract of an allocator, interpreted on the block allocator (\<open>ba\<close>). \<open>simulation\<close> holds the
  rules by which a refinement is composed along the sequencing of calls; it is interpreted on the
  devices of the daemon and the worlds they stand for (\<open>refine\<close>) and, for the tests, on any state
  standing for itself (\<open>plain\<close>). Theory Test\_Logic adds to it the rules of total correctness for tests.

  \<^bold>\<open>Specification\<close>

  A \<open>world\<close> is the files by id, the number of free blocks, the block size and the number of ids.
  \<open>spec_handle\<close> is a function from a request, the two readings of the clock and a world to a reply and the next world,
  or to the way the daemon stops. \<open>world_of\<close> takes a device to its world; \<open>handle_sim\<close> is the refinement
  of one request, put together from one lemma per operation (\<open>put_sim\<close>, \<open>new_sim\<close>, \<open>drop_sim\<close>,
  \<open>find_sim\<close>, \<open>entries_sim\<close>, \<open>create_sim\<close>, \<open>unlink_sim\<close>). Since both sides are functions of their input, the
  refinement also goes the other way: \<open>runs_refine\<close> and \<open>runs_realised\<close> make the runs equal.

  \<^bold>\<open>What the lemmas show\<close>

  Each operation has a lemma per outcome in the collection \<open>chfs_exec\<close>: what it returns and which
  device results, errors and crashes included. Frame lemmas say what stays the same. On top of
  them \<open>fs_ok\<close> is kept by every operation on every path, including the error returns, and the
  effect on \<open>abs_fs\<close> is stated exactly, with the number of free blocks. The daemon keeps \<open>daemon_ok\<close>, and \<open>stops\<close> lists
  exactly the requests that end it. \<open>run_kept\<close> accounts for every block along a run.

  \<^bold>\<open>Bounds\<close>

  \<open>fs_ok\<close> asks for blocks of 52 to 2^29 bytes (an inode needs its 44-byte header and a pointer;
  bit numbers in a block are 32-bit) and fewer than 2^32 blocks. Recursion is structural in a
  counter the code computes (numbers of blocks, of words, of bits) or has a measure (the loops
  over file content and over directory text); the loop of the writer is given the result
  \<open>NoReturn\<close> for block size 0, where the code would not end. \<open>visit_blocks\<close> takes the number of
  blocks of the range as fuel, which its lemma shows to be enough.

  \<^bold>\<open>Assumptions\<close>

  Assertions are compiled in; memory does not run out; the parts of requests the kernel checks
  itself are \<open>request_ok\<close> (theory Daemon\_Steps): ids are not 0, the parent of a name is a directory,
  only regular files are written to or given a size (a request that changes other attributes of
  a directory has size 0), and offsets are not negative. It asks in addition that a name to be created has no colon, which the kernel does not
  check; \<open>colon_names_get_lost\<close> says what happens otherwise. libfuse is the parameter \<open>libfuse\<close> for
  the layout of directory records, the constructors of \<open>reply\<close> for its reply functions, and, with
  the operating system, the parameter \<open>host\<close> for the mount, the session and its requests. The
  random generator and the order of an \<open>unordered_set\<close> are parameters of the stress test; the draws of
  the random distributions, within their ranges (\<open>sizes_in_range\<close>), are parameters of the other tests, and
  the file \<open>test.db\<close> that two of them open is empty or of the default size (\<open>usual_file\<close>).

  \<^bold>\<open>Not modelled\<close>

  Every function body under src/src, daemons, stress-test and test has its counterpart, but for the
  following. What the definitions do not name are declarations, type names, constructors that only
  copy their arguments, the unused constant \<open>kSingleMaxInode\<close> and the release of heap memory.
  Left out are the test framework, the \<open>main\<close> that calls it, and its first test, which calls nothing of the program; build files and scripts; console output;
  failures of \<open>open\<close>, \<open>ftruncate\<close> and \<open>mmap\<close> (of these calls the effect on the content of the file is
  modelled); concurrency: the session loop of libfuse serves one request after the other and the
  code has no threads. The handlers of \<open>flush\<close>, \<open>release\<close>, \<open>fsync\<close> and of open directories are
  defined but not in the table of \<open>main\<close>, so they are no requests here.
\<close>

subsection \<open>The daemon\<close>

text \<open>The daemon comes up: \<open>bootstrap_fuse\<close> makes a sound file system with an empty root directory
  under id 1 and nothing else, whatever the memory of the new device held.\<close>

theorem daemon_starts:
  assumes now: "env_now ev < 2 ^ 64"
  shows "\<exists>fs bm. bootstrap_fuse ev = Inr (Some fs, bm) \<and> daemon_ok fs bm
    \<and> abs_fs fs bm = [1 \<mapsto> new_file Directory (env_now ev)]"
  using bootstrap_ok [OF now] by blast

text \<open>C4. Whatever requests arrive, in whatever order, as long as each is one that the kernel's own checks
  let through and no name to be created holds a colon (\<open>request_ok\<close>), at every moment the device holds
  a sound file system in which every directory parses back to its entries and every file has one of
  the two known types.\<close>

theorem daemon_invariant:
  assumes dev: "new_memory_manager (kDiskSize div KBlockSize) KBlockSize junk = Inr dev"
    and r: "reachable lf dev KMaxInodeNum fs (Serving bm)"
  shows "fs_ok fs bm \<and> (\<forall>ino f. abs_fs fs bm ino = Some f \<longrightarrow>
    ftype f = type_code FILE
    \<or> ftype f = type_code Directory \<and> fdata f = bytes_of (dir_list_to_string (entries_of f))
      \<and> (\<forall>e \<in> set (entries_of f). entry_ok e \<and> 0 < eid e))"
proof -
  have d: "dev = disk junk" "KMaxInodeNum = 1024" using dev by (simp_all add: new_memory_disk KMaxInodeNum_def)
  have fits: "fits_device dev KMaxInodeNum" "im_end (manager_for dev KMaxInodeNum) + bitmap_blocks dev < block_cnt dev"
    "max_size (block_sz dev) < 2 ^ 32"
    unfolding d by (simp_all add: disk_fits disk_layout max_size_1024)
  have ok: "daemon_ok fs bm" by (rule reachable_ok [OF r fits(1,3,2) refl])
  have "dir_list_to_string (entries_of f) = dir_text (entries_of f)"
    if a: "abs_fs fs bm ino = Some f" and t: "ftype f = type_code Directory" for ino f
  proof -
    have "fdata f = bytes_of (dir_text (entries_of f))" using daemon_okD(4) [OF ok a] t by (auto simp: node_ok_def)
    then have "length (dir_text (entries_of f)) = length (fdata f)" by (metis length_bytes_of)
    then have "length (entries_of f) < 2 ^ 32"
      using length_le_dir_text [of "entries_of f"] blocks_of_file(2) [OF daemon_okD(1) [OF ok] a] daemon_okD(2) [OF ok]
      by linarith
    then show ?thesis by (rule dir_list_to_string_text)
  qed
  then show ?thesis using daemon_okD(1,4) [OF ok] unfolding node_ok_def by metis
qed

definition demo_libfuse :: libfuse where
  "demo_libfuse = \<lparr>direntry_size = (\<lambda>n. length n + 1), direntry = (\<lambda>n i off. bytes_of n @ [word_of_nat i])\<rparr>"

lemma demo_mknod:
  "daemon_step lf demo_fs (Serving demo_root) (Mknod 1 ''f'', Some (Reply_entry 2 (stat_of (new_file FILE 7)))) (Serving demo_file)"
proof -
  have now: "env_now demo_env < 2 ^ 64" by simp
  have rq: "request_ok (abs_fs demo_fs demo_root) (Mknod 1 ''f'')"
    by (simp add: dir_id_def demo_root_ok new_file_def clean_name_def colon_def slash_def)
  have "handle lf demo_env demo_fs (Mknod 1 ''f'') demo_root = Inr (Reply_entry 2 (stat_of (new_file FILE 7)), demo_file)"
    using reply_entry_ok [OF demo_file_daemon, of 2] demo_file_visible demo_file_ok(1)
    by (simp add: chfs_mknod_def chain_Inr)
  then show ?thesis by (rule daemon_step.reply [OF rq now])
qed

lemma demo_step: "\<exists>rep. daemon_step lf demo_fs (Serving demo_root) (Mknod 1 ''f'', Some rep) (Serving demo_file)"
  using demo_mknod by blast

lemma demo_reachable: "reachable lf (disk (\<lambda>_. 0)) 1024 demo_fs (Serving demo_file)"
proof -
  have boot: "make_root 1024 demo_env (disk (\<lambda>_. 0)) = Inr (Some demo_fs, demo_root)"
    using demo_root_ok(1) by (simp add: bootstrap_fuse_def new_memory_disk KMaxInodeNum_def)
  have now: "env_now demo_env < 2 ^ 64" by simp
  show ?thesis using demo_step [of lf] reachable.step [OF reachable.boot [OF boot now]] by blast
qed

lemma daemon_invariant_witness: "fs_ok demo_fs demo_file"
proof -
  have "new_memory_manager (kDiskSize div KBlockSize) KBlockSize (\<lambda>_. 0) = Inr (disk (\<lambda>_. 0))" by (rule new_memory_disk)
  then show ?thesis
    using daemon_invariant [of "\<lambda>_. 0" "disk (\<lambda>_. 0)" demo_libfuse demo_fs demo_file] demo_reachable
    by (simp add: KMaxInodeNum_def)
qed

text \<open>C5. Of the requests that \<open>request_ok\<close> admits, the daemon stops exactly on those that \<open>stops\<close>
  lists, in the way it lists: unimplemented requests, listing or writing an id that is not readable, creating without a free block, and
  removing a file that has an indirect block.\<close>

theorem daemon_stops_exactly:
  assumes "daemon_ok fs bm" and "request_ok (abs_fs fs bm) r" and "env_now ev < 2 ^ 64"
  shows "handle lf ev fs r bm = Inl c \<longleftrightarrow> stops fs bm r = Some c"
  using handle_served [OF assms, of lf] by (auto simp: served_def split: option.splits)

lemma daemon_stops_exactly_witness:
  "handle demo_libfuse demo_env demo_fs (Write 5 [1] 1 0) demo_file = Inl Unimplemented
   \<and> (\<forall>c. handle demo_libfuse demo_env demo_fs (Write 2 [1] 1 0) demo_file \<noteq> Inl c)"
proof -
  have "5 \<notin> dom (abs_fs demo_fs demo_file)" unfolding demo_file_ok by simp
  then have a: "abs_fs demo_fs demo_file 5 = None" by (simp add: domIff)
  have rq: "request_ok (abs_fs demo_fs demo_file) (Write 5 [1] 1 0)" "request_ok (abs_fs demo_fs demo_file) (Write 2 [1] 1 0)"
    using a demo_file_entry(2) by (simp_all add: file_id_def new_file_def)
  have now: "env_now demo_env < 2 ^ 64" by simp
  have v: "visible demo_fs demo_file 5 = None" using a by (simp add: visible_def)
  show ?thesis
    using daemon_stops_exactly [OF demo_file_daemon rq(1) now, of demo_libfuse]
      daemon_stops_exactly [OF demo_file_daemon rq(2) now, of demo_libfuse] v demo_file_visible
    by auto
qed

text \<open>A request to change attributes resizes the file, whatever attributes its mask asks to change:
  the size field becomes the new size, bytes are cut or zeros added, all three times are set. A
  request to change the mode comes with size 0 and so empties the file, or the directory, it is for.\<close>

theorem setattr_reply:
  assumes ok: "daemon_ok fs bm" and f: "visible fs bm ino = Some f" and now: "env_now ev < 2 ^ 64"
    and p: "file_id (abs_fs fs bm) ino \<or> dir_id (abs_fs fs bm) ino \<and> sz = 0"
    and f': "f' = f\<lparr>fattr := stamped (env_now ev) (unat sz),
                  fdata := take (unat sz) (fdata f) @ replicate (unat sz - length (fdata f)) 0\<rparr>"
  shows "\<exists>rep bm'. handle lf ev fs (Setattr ino sz to_set) bm = Inr (rep, bm') \<and> daemon_ok fs bm'
    \<and> (if length (fdata f) = unat sz then rep = Reply_attr (stat_of f) \<and> bm' = bm
       else if unat sz \<le> max_size (block_sz bm) \<and> blocks_for bm (unat sz)
         \<le> card (free_set (block_allocator_of fs) bm) + blocks_for bm (length (fdata f))
       then rep = Reply_attr (stat_of f') \<and> abs_fs fs bm' = (abs_fs fs bm)(ino \<mapsto> f')
       else rep = Reply_err ENOSYS \<and> abs_fs fs bm' = abs_fs fs bm)"
proof -
  have v: "abs_fs fs bm ino = Some f" using f by (simp add: visible_Some)
  have ino: "0 < ino" using p by (auto simp: file_id_def dir_id_def)
  show ?thesis
    unfolding handle.simps using resized_node [OF p v] f' by (intro chfs_setattr_ok [OF ok f ino now f']) simp
qed

subsection \<open>The daemon refines its specification\<close>

text \<open>C1. Every request that \<open>request_ok\<close> admits does what the abstract specification says: \<open>spec_handle\<close>, a function on files,
  number of free blocks and two constants, gives the reply and the files and free blocks afterwards,
  or the way the daemon stops. What the clock shows is the only other input.\<close>

theorem request_refines:
  assumes ok: "daemon_ok fs bm" and rq: "request_ok (abs_fs fs bm) r" and now: "env_now ev < 2 ^ 64"
    and lf: "sizes_agree lf"
  shows "(case handle lf ev fs r bm of Inl c \<Rightarrow> Inl c | Inr (rep, bm') \<Rightarrow> Inr (rep, world_of fs bm'))
    = spec_handle lf (env_now ev) (env_later ev) r (world_of fs bm)"
  using handle_sim [OF assms] by (auto simp: refine.sim_def split: sum.splits)

lemma demo_libfuse_sizes: "sizes_agree demo_libfuse"
  by (simp add: sizes_agree_def demo_libfuse_def)

lemma demo_write:
  "request_ok (abs_fs demo_fs demo_file) (Write 2 [1, 2, 3] 3 0)"
  "spec_handle demo_libfuse (env_now demo_env) (env_later demo_env) (Write 2 [1, 2, 3] 3 0) (world_of demo_fs demo_file)
    = Inr (Reply_write 3, (world_of demo_fs demo_file)\<lparr>files := (abs_fs demo_fs demo_file)(2 \<mapsto>
        (new_file FILE 7)\<lparr>fattr := stamped 7 3, fdata := [1, 2, 3]\<rparr>), room := 16312\<rparr>)"
proof -
  show "request_ok (abs_fs demo_fs demo_file) (Write 2 [1, 2, 3] 3 0)"
    using demo_file_entry(2) by (simp add: file_id_def new_file_def)
  have b: "blocks_for demo_file (Suc (Suc (Suc 0))) = 1" "blocks_for demo_file 0 = 0"
    by (simp_all add: blocks_for_def demo_file_ok total_blks_def nblk_def ndirect_def nslots_def)
  have c: "spliced [] 0 [1, 2, 3] = ([1, 2, 3] :: byte list)" by (simp add: spliced_def resize_to_def store_def numeral_3_eq_3)
  have n: "fdata (new_file FILE 7) = []" "take_bit 64 (Suc (Suc (Suc 0))) = Suc (Suc (Suc 0))"
    by (simp_all add: new_file_def take_bit_nat_eq_self)
  show "spec_handle demo_libfuse (env_now demo_env) (env_later demo_env) (Write 2 [1, 2, 3] 3 0) (world_of demo_fs demo_file)
    = Inr (Reply_write 3, (world_of demo_fs demo_file)\<lparr>files := (abs_fs demo_fs demo_file)(2 \<mapsto>
        (new_file FILE 7)\<lparr>fattr := stamped 7 3, fdata := [1, 2, 3]\<rparr>), room := 16312\<rparr>)"
    using demo_file_visible b by (simp add: spec_put_def c n demo_file_ok max_size_1024 chain_def numeral_3_eq_3)
qed

lemma request_refines_witness:
  "\<exists>bm'. handle demo_libfuse demo_env demo_fs (Write 2 [1, 2, 3] 3 0) demo_file = Inr (Reply_write 3, bm')
     \<and> room (world_of demo_fs bm') = 16312"
proof -
  have now: "env_now demo_env < 2 ^ 64" by simp
  show ?thesis
    using request_refines [OF demo_file_daemon demo_write(1) now demo_libfuse_sizes] demo_write(2)
    by (auto simp del: spec_handle.simps split: sum.splits dest: arg_cong [of _ _ room])
qed

text \<open>C2. The daemon and its specification have the same runs, as long as the kernel sends only requests that
  \<open>request_ok\<close> admits: those that its own checks let through, and no creation of a name with a colon, which the kernel
  does not check. From start-up on, a sequence of such requests and
  their replies, up to the moment the daemon stops if it does, is possible for the program exactly when
  it is possible for the specification that starts with an empty root directory, 16315 free
  blocks of 1024 bytes and 8192 ids, and they end in corresponding states.\<close>

theorem daemon_refines:
  assumes boot: "bootstrap_fuse ev = Inr (Some fs, bm)" and now: "env_now ev < 2 ^ 64" and lf: "sizes_agree lf"
  shows "runs (spec_step lf) (Up (initial_world (env_now ev))) tr t
    \<longleftrightarrow> (\<exists>s. runs (daemon_step lf fs) (Serving bm) tr s \<and> t = stands_for fs s)"
proof -
  have b: "daemon_ok fs bm" "world_of fs bm = initial_world (env_now ev)"
    using bootstrap_world [OF now] boot by auto
  then show ?thesis
    using runs_refine [OF _ lf, of fs "Serving bm" tr] runs_realised [OF _ lf, of _ tr t fs "Serving bm"]
    by (auto simp: state_ok_def)
qed

lemma daemon_refines_witness:
  "\<exists>rep. runs (spec_step demo_libfuse) (Up (initial_world 7)) [(Mknod 1 ''f'', Some rep)] (Up (world_of demo_fs demo_file))
     \<and> (\<exists>s. runs (daemon_step demo_libfuse demo_fs) (Serving demo_root) [(Mknod 1 ''f'', Some rep)] s
          \<and> stands_for demo_fs s = Up (world_of demo_fs demo_file))"
proof -
  obtain rep where "daemon_step demo_libfuse demo_fs (Serving demo_root) (Mknod 1 ''f'', Some rep) (Serving demo_file)"
    using demo_step by blast
  then have r: "runs (daemon_step demo_libfuse demo_fs) (Serving demo_root) [(Mknod 1 ''f'', Some rep)] (Serving demo_file)"
    by (auto simp: runs_simps)
  have "env_now demo_env < 2 ^ 64" by simp
  from daemon_refines [OF demo_root_ok(1) this demo_libfuse_sizes, of "[(Mknod 1 ''f'', Some rep)]"
      "Up (world_of demo_fs demo_file)"] r show ?thesis by fastforce
qed

text \<open>C23. No block is ever lost but by a request that fails for want of space: from start-up on, along
  every run of requests that \<open>request_ok\<close> admits, the free blocks and the blocks of the files together are at most 16316, and exactly so many
  as long as no write or change of size has been answered with an error and no creation with the one for
  no room (\<open>may_lose\<close>). So a client
  who knows the sizes of the files can tell beforehand which writes succeed: a write to a file that can be read is acknowledged
  exactly if the new size is one that an inode can hold and all the files then fit into 16316 blocks, and answered with \<open>ENOSYS\<close> otherwise.\<close>

theorem writes_that_fit_succeed:
  assumes boot: "bootstrap_fuse ev = Inr (Some fs, bm0)" and now: "env_now ev < 2 ^ 64" and lf: "sizes_agree lf"
    and run: "runs (daemon_step lf fs) (Serving bm0) tr (Serving bm)"
    and taken_by: "taken_by = (\<lambda>ids. \<Sum>i \<in> ids. Suc (blocks_for bm (length (fdata (the (abs_fs fs bm i))))))"
  shows "card (free_set (block_allocator_of fs) bm) + taken_by (dom (abs_fs fs bm)) \<le> 16316
    \<and> (list_all (\<lambda>x. \<not> may_lose x) tr \<longrightarrow>
         card (free_set (block_allocator_of fs) bm) + taken_by (dom (abs_fs fs bm)) = 16316
       \<and> (\<forall>i buf sz off f ev' n. request_ok (abs_fs fs bm) (Write i buf sz off) \<and> visible fs bm i = Some f
            \<and> env_now ev' < 2 ^ 64 \<and> n = max (length (fdata f)) (unat off + unat sz) \<longrightarrow>
            (\<exists>bm'. handle lf ev' fs (Write i buf sz off) bm
               = Inr (if n \<le> max_size (block_sz bm) \<and> taken_by (dom (abs_fs fs bm) - {i}) + Suc (blocks_for bm n) \<le> 16316
                      then Reply_write (unat sz) else Reply_err ENOSYS, bm'))))"
proof -
  have b: "daemon_ok fs bm0" "world_of fs bm0 = initial_world (env_now ev)" using bootstrap_world [OF now] boot by auto
  note k = run_kept [OF run lf refl refl b(1)]
  have h: "held (world_of fs bm) = taken_by (dom (abs_fs fs bm))" by (simp add: held_def taken_by)
  have "kept (list_all (\<lambda>x. \<not> may_lose x) tr) (world_of fs bm0) (world_of fs bm)" using k by blast
  then have total: "card (free_set (block_allocator_of fs) bm) + taken_by (dom (abs_fs fs bm)) \<le> 16316"
    "list_all (\<lambda>x. \<not> may_lose x) tr \<Longrightarrow> card (free_set (block_allocator_of fs) bm) + taken_by (dom (abs_fs fs bm)) = 16316"
    unfolding kept_def b(2) blocks_in_initial by (simp_all add: blocks_in_def h)
  have "\<exists>bm'. handle lf ev' fs (Write i buf sz off) bm
      = Inr (if n \<le> max_size (block_sz bm) \<and> taken_by (dom (abs_fs fs bm) - {i}) + Suc (blocks_for bm n) \<le> 16316
             then Reply_write (unat sz) else Reply_err ENOSYS, bm')"
    if all: "list_all (\<lambda>x. \<not> may_lose x) tr" and rq: "request_ok (abs_fs fs bm) (Write i buf sz off)"
      and f: "visible fs bm i = Some f" and now': "env_now ev' < 2 ^ 64"
      and n: "n = max (length (fdata f)) (unat off + unat sz)" for i buf sz off f ev' n
  proof -
    have fA: "abs_fs fs bm i = Some f" using f by (simp add: visible_Some)
    have "held (world_of fs bm) = Suc (blocks_for bm (length (fdata f))) + held_but i (world_of fs bm)"
      using held_split [of "world_of fs bm" i f] finite_files [of fs bm] k fA by simp
    moreover have "held_but i (world_of fs bm) = taken_by (dom (abs_fs fs bm) - {i})" by (simp add: held_but_def taken_by)
    ultimately have "taken_by (dom (abs_fs fs bm) - {i}) + Suc (blocks_for bm n) \<le> 16316
        \<longleftrightarrow> blocks_for bm n \<le> card (free_set (block_allocator_of fs) bm) + blocks_for bm (length (fdata f))"
      using total(2) [OF all] h by linarith
    then show ?thesis using write_reply [OF _ rq f now' lf n] k by auto
  qed
  then show ?thesis using total by blast
qed

lemma writes_that_fit_succeed_witness:
  "\<exists>bm'. handle demo_libfuse demo_env demo_fs (Write 2 [1] 1 0) demo_file = Inr (Reply_write 1, bm')"
proof -
  have r: "runs (daemon_step demo_libfuse demo_fs) (Serving demo_root) [(Mknod 1 ''f'', Some (Reply_entry 2 (stat_of (new_file FILE 7))))]
      (Serving demo_file)"
    using demo_mknod by (auto simp: runs_simps)
  have n: "env_now demo_env < 2 ^ 64" by simp
  have rq: "request_ok (abs_fs demo_fs demo_file) (Write 2 [1] 1 0)"
    using demo_file_entry(2) by (simp add: file_id_def new_file_def)
  have d: "dom (abs_fs demo_fs demo_file) - {2} = {1}" using demo_file_ok(5) by auto
  have l: "length (fdata (the (abs_fs demo_fs demo_file 1))) = 3"
    using dir_atD(4) [OF demo_file_ok(2)] by (simp only: length_bytes_of demo_text) simp
  have b: "blocks_for demo_file 3 = 1" "blocks_for demo_file 1 = 1"
    by (simp_all add: blocks_for_def demo_file_ok total_blks_def nblk_def ndirect_def nslots_def)
  have fits: "(1 :: nat) \<le> max_size (block_sz demo_file)" by (simp add: demo_file_ok max_size_1024)
  have len: "(1 :: nat) = max (length (fdata (new_file FILE 7))) (unat (0 :: 64 word) + unat (1 :: 64 word))"
    by (simp add: new_file_def)
  note w = writes_that_fit_succeed [OF demo_root_ok(1) n demo_libfuse_sizes r refl]
  have "list_all (\<lambda>x. \<not> may_lose x) [(Mknod 1 ''f'', Some (Reply_entry 2 (stat_of (new_file FILE 7))))]" by simp
  note v = conjunct2 [OF mp [OF conjunct2 [OF w] this]]
  have "\<exists>bm'. handle demo_libfuse demo_env demo_fs (Write 2 [1] 1 0) demo_file
      = Inr (if 1 \<le> max_size (block_sz demo_file)
           \<and> (\<Sum>i \<in> dom (abs_fs demo_fs demo_file) - {2}. Suc (blocks_for demo_file (length (fdata (the (abs_fs demo_fs demo_file i))))))
             + Suc (blocks_for demo_file 1) \<le> 16316
         then Reply_write (unat (1 :: 64 word)) else Reply_err ENOSYS, bm')"
    by (rule v [rule_format, where f = "new_file FILE 7"], intro conjI, rule rq, rule demo_file_visible, rule n, rule len)
  then show ?thesis unfolding d using fits by (simp add: l [unfolded One_nat_def] b [unfolded One_nat_def])
qed

text \<open>C3. The process as a whole: on a host that lets it come up, and for every session whose requests are all
  such as \<open>request_ok\<close> admits when they arrive (the kernel's own checks let them through, and no name to be
  created has a colon, which the kernel does not check), the process mounts, sends exactly the replies of the specification in their order, and, unless the
  specification stops, closes the session, unmounts, and exits with status 0 if the session loop
  returned 0; otherwise it aborts. The error status that \<open>main\<close> means to return is never returned.\<close>

theorem process_answers:
  assumes r: "ready h argv" and now: "env_now ev < 2 ^ 64" and lf: "sizes_agree lf"
    and adm: "admissible lf (requests h) (initial_world (env_now ev))"
  shows "case spec_serve lf (requests h) (initial_world (env_now ev)) of (reps, s) \<Rightarrow>
      fst (main_process lf h argv ev) = (case s of
         Down c \<Rightarrow> Crashed c | Up w \<Rightarrow> if loop_result h = 0 then Exited 0 else Aborted)
      \<and> events (snd (main_process lf h argv ev)) = Mounted (argv_at argv 1) # map Replied reps
         @ (case s of Down c \<Rightarrow> [] | Up w \<Rightarrow> [Session_destroyed, Unmounted (argv_at argv 1)])"
  using main_serves [OF assms] by (auto split: prod.split)

definition demo_host :: host where
  "demo_host = \<lparr>uid = 1000, euid = 1000, log_opens = True, on_apple = False, parse_cmdline = (\<lambda>args. Some args),
     mounts = (\<lambda>m args. Some args), makes_session = (\<lambda>args. True),
     requests = [(demo_env, Open 1), (demo_env, Getattr 5), (demo_env, Rmdir 1 ''d''), (demo_env, Open 1)],
     loop_result = 0, site = (\<lambda>r. (''chfs_rmdir'', ''main.cc'', 295))\<rparr>"

lemma process_answers_witness:
  "fst (main_process demo_libfuse demo_host [''fs'', ''mnt''] demo_env) = Crashed Unimplemented
   \<and> events (snd (main_process demo_libfuse demo_host [''fs'', ''mnt''] demo_env))
     = [Mounted (Some ''mnt''), Replied Reply_open, Replied (Reply_err ENOENT)]"
proof -
  have r: "ready demo_host [''fs'', ''mnt'']" by (simp add: ready_def demo_host_def)
  have n: "env_now demo_env < 2 ^ 64" by simp
  have a: "admissible demo_libfuse (requests demo_host) (initial_world (env_now demo_env))"
    by (simp add: demo_host_def seen_def initial_world_def)
  have "spec_serve demo_libfuse (requests demo_host) (initial_world (env_now demo_env))
    = ([Reply_open, Reply_err ENOENT], Down Unimplemented)"
    by (simp add: demo_host_def seen_def initial_world_def)
  then show ?thesis using process_answers [OF r n demo_libfuse_sizes a] by (simp add: argv_at_def)
qed

text \<open>C24. How the process can end, for every host: with status 0 exactly when the command line is refused or
  a session has been served to its end and its loop returned 0, else with status 1 if at all. The mount
  stays behind exactly when a request ends the process or the session cannot be made after the mount.\<close>

theorem process_ends:
  assumes boot: "bootstrap_fuse ev = Inr (Some fs, bm)"
  shows "(fst (main_process lf h argv ev) = Exited 0 \<longleftrightarrow>
      log_opens h \<and> uid h \<noteq> 0 \<and> euid h \<noteq> 0 \<and>
      (parse_cmdline h (fuse_argv (on_apple h) argv) = None
       \<or> ready h argv \<and> survives lf fs (requests h) bm \<and> loop_result h = 0))
    \<and> (\<forall>n. fst (main_process lf h argv ev) = Exited n \<longrightarrow> n = 0 \<or> n = 1)
    \<and> ((\<exists>m. Mounted m \<in> set (events (snd (main_process lf h argv ev)))
           \<and> Unmounted m \<notin> set (events (snd (main_process lf h argv ev)))) \<longleftrightarrow>
       (\<exists>c. fst (main_process lf h argv ev) = Crashed c)
       \<or> fst (main_process lf h argv ev) = Exited 1 \<and>
         (\<exists>args. parse_cmdline h (fuse_argv (on_apple h) argv) = Some args \<and> mounts h (argv_at argv 1) args \<noteq> None))"
  by (intro conjI main_ends [OF boot])

lemma process_ends_witness:
  "fst (main_process demo_libfuse (demo_host\<lparr>makes_session := (\<lambda>args. False)\<rparr>) [''fs'', ''mnt''] demo_env) = Exited 1
   \<and> (\<exists>m. Mounted m \<in> set (events (snd (main_process demo_libfuse (demo_host\<lparr>makes_session := (\<lambda>args. False)\<rparr>)
        [''fs'', ''mnt''] demo_env))))"
proof -
  let ?h = "demo_host\<lparr>makes_session := (\<lambda>args. False)\<rparr>"
  have e: "fst (main_process demo_libfuse ?h [''fs'', ''mnt''] demo_env) = Exited 1"
    by (simp add: main_process_def new_logger_def pre_process_def bootstrap_daemon_def demo_host_def demo_root_ok(1) Let_def)
  have "\<exists>args. parse_cmdline ?h (fuse_argv (on_apple ?h) [''fs'', ''mnt'']) = Some args
      \<and> mounts ?h (argv_at [''fs'', ''mnt''] 1) args \<noteq> None" by (simp add: demo_host_def)
  then show ?thesis using e process_ends [OF demo_root_ok(1), of demo_libfuse ?h "[''fs'', ''mnt'']"] by blast
qed

text \<open>C9. Every reply to a request that \<open>request_ok\<close> admits fits it: attributes and entries are those of a regular file or a directory with
  their fixed permissions, created files have the type asked for, data is never longer than the
  client's buffer, a write is acknowledged in full, and every error is one of the request's own.\<close>

theorem replies_fit:
  assumes ok: "daemon_ok fs bm" and rq: "request_ok (abs_fs fs bm) r" and now: "env_now ev < 2 ^ 64"
    and lf: "sizes_agree lf" and h: "handle lf ev fs r bm = Inr (rep, bm')"
  shows "reply_fits r rep"
proof -
  have "spec_handle lf (env_now ev) (env_later ev) r (world_of fs bm) = Inr (rep, world_of fs bm')"
    using handle_sim [OF ok rq now lf] h by (auto simp: refine.sim_def split: sum.splits)
  then show ?thesis using rq by (intro spec_reply_fits [where w = "world_of fs bm"]) simp_all
qed

lemma replies_fit_witness:
  "\<exists>rep bm'. handle demo_libfuse demo_env demo_fs (Mkdir 1 ''d'') demo_root = Inr (rep, bm')
     \<and> (is_entry directory_stat rep \<or> error_reply [EEXIST, ENOSYS, -1] rep)"
proof -
  have d: "dir_id (abs_fs demo_fs demo_root) 1" "clean_name ''d''" "env_now demo_env < 2 ^ 64"
    by (simp_all add: demo_root_ok(3) dir_id_def new_file_def clean_name_def colon_def slash_def)
  then have rq: "request_ok (abs_fs demo_fs demo_root) (Mkdir 1 ''d'')" by simp
  have "stops demo_fs demo_root (Mkdir 1 ''d'') = None" using demo_root_free(1) by simp
  with handle_served [OF demo_root_ok(2) rq d(3), of demo_libfuse] obtain rep bm' where
    "handle demo_libfuse demo_env demo_fs (Mkdir 1 ''d'') demo_root = Inr (rep, bm')" by (auto simp: served_def)
  then show ?thesis using replies_fit [OF demo_root_ok(2) rq d(3) demo_libfuse_sizes] by auto
qed

text \<open>C8. A request that \<open>request_ok\<close> admits and that is answered with an error changes no file, attribute or directory. The one exception
  is creation. If the directory cannot be read or has no room for the entry, one new empty file of the
  type stays behind that has no name, and the error is \<open>ENOENT\<close> for a file and \<open>ENOSYS\<close> for a directory. And if the new id is one of the
  last two, which cannot be read, the error is -1 though the file is made: the one change then is the new
  empty file and the entry for it, at the end of the directory.\<close>

theorem failed_requests_change_nothing:
  assumes ok: "daemon_ok fs bm" and rq: "request_ok (abs_fs fs bm) r" and now: "env_now ev < 2 ^ 64"
    and lf: "sizes_agree lf" and h: "handle lf ev fs r bm = Inr (Reply_err e, bm')" and e: "e \<noteq> 0"
  shows "abs_fs fs bm' = abs_fs fs bm \<or> (\<exists>t p name i. creates r = Some (t, p, name) \<and> abs_fs fs bm i = None \<and> 0 < i \<and> i \<le> max_ino fs \<and>
      (e = (if t = FILE then ENOENT else ENOSYS) \<and> abs_fs fs bm' = (abs_fs fs bm)(i \<mapsto> new_file t (env_now ev))
         \<and> (\<forall>f. usable fs p \<and> ((abs_fs fs bm)(i \<mapsto> new_file t (env_now ev))) p = Some f \<longrightarrow> length (with_entry name i f) \<le> max_size (block_sz bm) \<longrightarrow>
              card (free_set (block_allocator_of fs) bm) + blocks_for bm (length (fdata f)) \<le> blocks_for bm (length (with_entry name i f)))
       \<or> e = -1 \<and> max_ino fs \<le> Suc i \<and> (\<exists>f. usable fs p \<and> abs_fs fs bm p = Some f
           \<and> abs_fs fs bm' = (abs_fs fs bm)(i \<mapsto> new_file t (env_now ev),
               p \<mapsto> f\<lparr>fattr := stamped (env_later ev) (length (with_entry name i f)), fdata := with_entry name i f\<rparr>))))"
  by (rule failed_request [OF assms])

lemma failed_requests_change_nothing_witness:
  "\<exists>bm'. handle demo_libfuse demo_env demo_fs (Unlink 1 ''x'') demo_root = Inr (Reply_err ENOENT, bm')
     \<and> abs_fs demo_fs bm' = abs_fs demo_fs demo_root"
proof -
  have d: "dir_id (abs_fs demo_fs demo_root) 1" "env_now demo_env < 2 ^ 64"
    by (simp_all add: demo_root_ok(3) dir_id_def new_file_def)
  then have rq: "request_ok (abs_fs demo_fs demo_root) (Unlink 1 ''x'')" by simp
  have h: "handle demo_libfuse demo_env demo_fs (Unlink 1 ''x'') demo_root = Inr (Reply_err ENOENT, demo_root)"
    using read_directory_ok [OF demo_root_dir, of demo_env]
    by (simp add: chfs_unlink_def unlink_def lookup_def chain_def)
  show ?thesis
    using h failed_requests_change_nothing [OF demo_root_ok(2) rq d(2) demo_libfuse_sizes h]
    by (auto simp: ENOENT_def)
qed

text \<open>C6. Clients read what they have written: after an acknowledged write of a request that \<open>request_ok\<close> admits, reading the same range gives
  exactly the written bytes, and every other id answers attributes and reads as before.\<close>

theorem write_then_read_reply:
  assumes ok: "daemon_ok fs bm" and rq: "request_ok (abs_fs fs bm) (Write i buf sz off)" and now: "env_now ev < 2 ^ 64"
    and lf: "sizes_agree lf" and h: "handle lf ev fs (Write i buf sz off) bm = Inr (Reply_write n, bm')"
  shows "handle lf ev' fs (Read i sz off) bm' = Inr (Reply_buf buf, bm')
    \<and> (\<forall>j q. 0 < j \<and> j \<noteq> i \<and> (q = Getattr j \<or> (\<exists>sz' off'. q = Read j sz' off' \<and> unat off' + unat sz' < 2 ^ 63)) \<longrightarrow>
        (\<exists>rep. handle lf ev' fs q bm = Inr (rep, bm) \<and> handle lf ev' fs q bm' = Inr (rep, bm')))"
  using write_read [OF assms] by blast

lemma write_then_read_reply_witness:
  "\<exists>bm'. handle demo_libfuse demo_env demo_fs (Write 2 [1, 2, 3] 3 0) demo_file = Inr (Reply_write 3, bm')
     \<and> handle demo_libfuse demo_env demo_fs (Read 2 3 0) bm' = Inr (Reply_buf [1, 2, 3], bm')"
proof -
  have now: "env_now demo_env < 2 ^ 64" by simp
  from handle_sim [OF demo_file_daemon demo_write(1) now demo_libfuse_sizes] demo_write(2)
  obtain bm' where h: "handle demo_libfuse demo_env demo_fs (Write 2 [1, 2, 3] 3 0) demo_file = Inr (Reply_write 3, bm')"
    by (auto simp: refine.sim_def simp del: spec_handle.simps)
  from write_then_read_reply [OF demo_file_daemon demo_write(1) now demo_libfuse_sizes this] h show ?thesis by blast
qed

text \<open>C7. Removing a file right after it was created, under a name without slash and colon in a directory that
  can be read, takes back everything but the times of the directory: the
  entries, the id, every other file and the number of free blocks are what they were.\<close>

theorem unlink_undoes_mknod:
  assumes ok: "daemon_ok fs bm" and p: "dir_id (abs_fs fs bm) p" and f: "visible fs bm p = Some f" and name: "clean_name name"
    and now: "env_now ev < 2 ^ 64" "env_now ev' < 2 ^ 64" and lf: "sizes_agree lf"
    and h: "handle lf ev fs (Mknod p name) bm = Inr (Reply_entry i st, bm1)"
  shows "\<exists>bm2. handle lf ev' fs (Unlink p name) bm1 = Inr (Reply_err 0, bm2) \<and> daemon_ok fs bm2
    \<and> abs_fs fs bm2 = (abs_fs fs bm)(p \<mapsto> f\<lparr>fattr := stamped (env_now ev') (length (fdata f))\<rparr>)
    \<and> card (free_set (block_allocator_of fs) bm2) = card (free_set (block_allocator_of fs) bm)"
proof -
  from unlink_created [OF assms] obtain bm2 where u: "handle lf ev' fs (Unlink p name) bm1 = Inr (Reply_err 0, bm2)"
    "daemon_ok fs bm2" "world_of fs bm2 = (world_of fs bm)
      \<lparr>files := (abs_fs fs bm)(p \<mapsto> f\<lparr>fattr := stamped (env_now ev') (length (fdata f))\<rparr>)\<rparr>" by blast
  show ?thesis using u(1,2) arg_cong [OF u(3), of files] arg_cong [OF u(3), of room] by auto
qed

lemma unlink_undoes_mknod_witness:
  "\<exists>bm2. handle demo_libfuse demo_env demo_fs (Unlink 1 ''f'') demo_file = Inr (Reply_err 0, bm2)
     \<and> card (free_set (block_allocator_of demo_fs) bm2) = 16315"
proof -
  have now: "env_now demo_env < 2 ^ 64" by simp
  have d: "dir_id (abs_fs demo_fs demo_root) 1" "clean_name ''f''"
    "visible demo_fs demo_root 1 = Some (new_file Directory 7)"
    by (simp_all add: demo_root_ok(3) dir_id_def new_file_def clean_name_def colon_def slash_def visible_def demo_usable)
  have h: "handle demo_libfuse demo_env demo_fs (Mknod 1 ''f'') demo_root
      = Inr (Reply_entry 2 (stat_of (new_file FILE 7)), demo_file)"
    using reply_entry_ok [OF demo_file_daemon, of 2] demo_file_visible demo_file_ok(1)
    by (simp add: chfs_mknod_def chain_Inr)
  show ?thesis
    using unlink_undoes_mknod [OF demo_root_ok(2) d(1,3,2) now now demo_libfuse_sizes h] demo_root_ok(5) by auto
qed

text \<open>C10. Where on the device the files lie, what free blocks and new buffers hold and what mkfs found
  there does not show: two devices with the same files and the same number of free blocks answer
  every request that \<open>request_ok\<close> admits alike and have the same files afterwards.\<close>

theorem layout_does_not_show:
  assumes ok: "daemon_ok fs1 bm1" "daemon_ok fs2 bm2" and same: "world_of fs1 bm1 = world_of fs2 bm2"
    and rq: "request_ok (abs_fs fs1 bm1) r" and now: "env_now ev1 < 2 ^ 64" "env_now ev2 = env_now ev1" "env_later ev2 = env_later ev1"
    and lf: "sizes_agree lf"
  shows "case (handle lf ev1 fs1 r bm1, handle lf ev2 fs2 r bm2) of
      (Inl c1, Inl c2) \<Rightarrow> c1 = c2
    | (Inr (rep1, bm1'), Inr (rep2, bm2')) \<Rightarrow> rep1 = rep2 \<and> world_of fs1 bm1' = world_of fs2 bm2'
    | _ \<Rightarrow> False"
proof -
  have "abs_fs fs2 bm2 = abs_fs fs1 bm1" using arg_cong [OF same, of files] by simp
  then show ?thesis
    using handle_sim [OF ok(1) rq now(1) lf] handle_sim [OF ok(2) _ _ lf, of r ev2] rq now same
    by (auto simp: refine.sim_def split: sum.splits)
qed

lemma layout_does_not_show_witness:
  "\<exists>fs1 fs2 bm1 bm2. bootstrap_fuse \<lparr>env_now = 5, env_wait = 1, env_heap = (\<lambda>_. 255), env_id = 3\<rparr> = Inr (Some fs1, bm1)
     \<and> bootstrap_fuse \<lparr>env_now = 5, env_wait = 1, env_heap = (\<lambda>_. 0), env_id = 0\<rparr> = Inr (Some fs2, bm2)
     \<and> (\<forall>rep bm1' c. handle demo_libfuse demo_env fs1 (Mkdir 1 ''d'') bm1 = Inr (rep, bm1') \<longrightarrow>
          handle demo_libfuse demo_env fs2 (Mkdir 1 ''d'') bm2 \<noteq> Inl c)"
proof -
  let ?e1 = "\<lparr>env_now = 5, env_wait = 1, env_heap = (\<lambda>_. 255), env_id = 3\<rparr>" and ?e2 = "\<lparr>env_now = 5, env_wait = 1, env_heap = (\<lambda>_. 0), env_id = 0\<rparr>"
  have n: "env_now ?e1 < 2 ^ 64" "env_now ?e2 < 2 ^ 64" "env_now demo_env < 2 ^ 64" by simp_all
  let ?f1 = "handles_for (disk (heap_part ?e1 0)) 1024" and ?f2 = "handles_for (disk (heap_part ?e2 0)) 1024"
  from bootstrap_ok [OF n(1)] obtain bm1 where b1: "bootstrap_fuse ?e1 = Inr (Some ?f1, bm1)" "daemon_ok ?f1 bm1"
    "abs_fs ?f1 bm1 = [1 \<mapsto> new_file Directory (env_now ?e1)]" "block_sz bm1 = 1024"
    "card (free_set (block_allocator_of ?f1) bm1) = 16315" by blast
  from bootstrap_ok [OF n(2)] obtain bm2 where b2: "bootstrap_fuse ?e2 = Inr (Some ?f2, bm2)" "daemon_ok ?f2 bm2"
    "abs_fs ?f2 bm2 = [1 \<mapsto> new_file Directory (env_now ?e2)]" "block_sz bm2 = 1024"
    "card (free_set (block_allocator_of ?f2) bm2) = 16315" by blast
  have "max_ino (handles_for (disk junk) 1024) = 8192" for junk by (simp add: handles_for_def max_ino_def disk_layout)
  then have same: "world_of ?f1 bm1 = world_of ?f2 bm2" using b1 b2 by (simp add: world_of_def)
  have rq: "request_ok (abs_fs ?f1 bm1) (Mkdir 1 ''d'')"
    unfolding b1(3) by (simp add: dir_id_def new_file_def clean_name_def colon_def slash_def)
  from layout_does_not_show [OF b1(2) b2(2) same rq n(3) refl refl demo_libfuse_sizes] show ?thesis
    using b1(1) b2(1) by (intro exI [of _ ?f1] exI [of _ ?f2] exI [of _ bm1] exI [of _ bm2]) auto
qed

end
